(* ===== verification/Prelude.thy ===== *)
theory Prelude
  imports
    Main
    "HOL-Library.List_Lexorder"
    "HOL-Library.Char_ord"
    "HOL-Library.Sublist"
begin

text \<open>
  The shared base of the development: results of fallible Python code, the part of
  Python's string library that the modelled sources call, and generic lemmas on lists
  and strings.

  A Python \<open>str\<close> is modelled by the bytes of its UTF-8 encoding (a \<^typ>\<open>string\<close>, that is
  a list of 8-bit characters).  White space and word characters are the ASCII ones; a byte
  of a multi-byte sequence is neither.  Byte-wise comparison of UTF-8 agrees with Python's
  comparison by code point, and the column offsets of Python's \<open>ast\<close> are byte offsets.
\<close>

section \<open>Exceptions and results\<close>

text \<open>The built-in exceptions that the modelled code can raise.\<close>

datatype py_exn =
    AssertionError string
  | AttributeError string
  | IndexError
  | KeyError string
  | RuntimeError string
  | TypeError string
  | ValueError string
  | OSError string
  | OverflowError
  | ZeroDivisionError
  | StopIteration
  | NotImplementedError string
  | UnicodeDecodeError

text \<open>
  Code that may raise returns \<open>'e + 'a\<close>: \<open>Inl\<close> the exception, \<open>Inr\<close> the value.
  \<open>bindE\<close> is sequencing: an exception ends the computation.
\<close>

fun bindE :: "'e + 'a \<Rightarrow> ('a \<Rightarrow> 'e + 'b) \<Rightarrow> 'e + 'b" where
  "bindE (Inl e) f = Inl e"
| "bindE (Inr x) f = f x"

text \<open>A guard: \<open>if c: raise e\<close>.\<close>

definition raise_if :: "bool \<Rightarrow> 'e \<Rightarrow> 'e + unit" where
  "raise_if c e = (if c then Inl e else Inr ())"

text \<open>A \<open>for\<close> loop that threads a state and stops at the first exception.\<close>

fun foldE :: "('a \<Rightarrow> 's \<Rightarrow> 'e + 's) \<Rightarrow> 'a list \<Rightarrow> 's \<Rightarrow> 'e + 's" where
  "foldE f [] s = Inr s"
| "foldE f (x # xs) s = bindE (f x s) (foldE f xs)"

text \<open>A list comprehension whose element expression may raise.\<close>

fun mapE :: "('a \<Rightarrow> 'e + 'b) \<Rightarrow> 'a list \<Rightarrow> 'e + 'b list" where
  "mapE f [] = Inr []"
| "mapE f (x # xs) = bindE (f x) (\<lambda>y. bindE (mapE f xs) (\<lambda>ys. Inr (y # ys)))"

definition of_option :: "'e \<Rightarrow> 'a option \<Rightarrow> 'e + 'a" where
  "of_option e r = (case r of None \<Rightarrow> Inl e | Some x \<Rightarrow> Inr x)"

lemma bindE_Inr_iff [simp]:
  "bindE m f = Inr y \<longleftrightarrow> (\<exists>x. m = Inr x \<and> f x = Inr y)"
  by (cases m) auto

lemma bindE_InrE:
  assumes "bindE m f = Inr r"
  obtains x where "m = Inr x" and "f x = Inr r"
  using assms by auto

lemma bindE_Inl_iff:
  "bindE m f = Inl e \<longleftrightarrow> m = Inl e \<or> (\<exists>x. m = Inr x \<and> f x = Inl e)"
  by (cases m) auto

lemma bindE_assoc: "bindE (bindE m f) g = bindE m (\<lambda>x. bindE (f x) g)"
  by (cases m) auto

lemma raise_if_Inr [simp]: "raise_if c e = Inr u \<longleftrightarrow> \<not> c"
  by (auto simp: raise_if_def)

lemma raise_if_Inl [simp]: "raise_if c e = Inl e' \<longleftrightarrow> c \<and> e' = e"
  by (auto simp: raise_if_def)

lemma raise_if_simps [simp]:
  "raise_if True e = Inl e"
  "raise_if False e = Inr ()"
  by (simp_all add: raise_if_def)

lemma of_option_Inr [simp]: "of_option e r = Inr x \<longleftrightarrow> r = Some x"
  by (auto simp: of_option_def split: option.splits)

lemma of_option_Inl [simp]: "of_option e r = Inl e' \<longleftrightarrow> r = None \<and> e' = e"
  by (auto simp: of_option_def split: option.splits)

lemma foldE_append: "foldE f (xs @ ys) s = bindE (foldE f xs s) (foldE f ys)"
proof (induction xs arbitrary: s)
  case (Cons x xs)
  then show ?case by (cases "f x s") auto
qed simp

text \<open>An invariant of every step of a loop is an invariant of the loop.\<close>

lemma foldE_invariant:
  assumes "foldE f xs s = Inr t" and "P s"
    and "\<And>x s t. x \<in> set xs \<Longrightarrow> P s \<Longrightarrow> f x s = Inr t \<Longrightarrow> P t"
  shows "P t"
  using assms by (induction xs arbitrary: s) auto

lemma mapE_Inr_conv:
  "mapE f xs = Inr ys \<longleftrightarrow> list_all2 (\<lambda>x y. f x = Inr y) xs ys"
  by (induction xs arbitrary: ys) (auto simp: list_all2_Cons1)

lemma mapE_Inr_length: "mapE f xs = Inr ys \<Longrightarrow> length ys = length xs"
  by (auto simp: mapE_Inr_conv dest: list_all2_lengthD)

lemma mapE_Inr_set:
  "mapE f xs = Inr ys \<Longrightarrow> y \<in> set ys \<Longrightarrow> \<exists>x \<in> set xs. f x = Inr y"
  by (induction xs arbitrary: ys) auto

lemma mapE_Inl_set: "mapE f xs = Inl e \<Longrightarrow> \<exists>x \<in> set xs. f x = Inl e"
  by (induction xs) (auto simp: bindE_Inl_iff)

text \<open>The slice \<open>xs[i:j]\<close>: a negative index counts from the end, an index out of range is
  clipped.\<close>

definition slice_index :: "'a list \<Rightarrow> int \<Rightarrow> nat" where
  "slice_index xs i = nat (if i < 0 then i + int (length xs) else min i (int (length xs)))"

definition py_slice :: "'a list \<Rightarrow> int \<Rightarrow> int \<Rightarrow> 'a list" where
  "py_slice xs i j = drop (slice_index xs i) (take (slice_index xs j) xs)"

lemma py_slice_nat: "py_slice xs (int i) (int j) = drop i (take j xs)"
proof -
  have "slice_index xs (int k) = min k (length xs)" for k
    by (simp add: slice_index_def min_def)
  then show ?thesis
    by (simp add: py_slice_def min_def)
qed

section \<open>Transition systems\<close>

text \<open>The contract of a stateful component: a property of its states that holds initially and is
  kept by every step.\<close>

locale invariant_system =
  fixes init :: "'s \<Rightarrow> bool" and step :: "'s \<Rightarrow> 's \<Rightarrow> bool" and good :: "'s \<Rightarrow> bool"
  assumes init_good: "init s \<Longrightarrow> good s"
    and step_good: "good s \<Longrightarrow> step s s' \<Longrightarrow> good s'"
begin

lemma steps_good: "step\<^sup>*\<^sup>* s s' \<Longrightarrow> good s \<Longrightarrow> good s'"
  by (induction rule: rtranclp_induct) (auto intro: step_good)

lemma reachable_good: "init s \<Longrightarrow> step\<^sup>*\<^sup>* s s' \<Longrightarrow> good s'"
  using steps_good init_good by blast

end

section \<open>Python strings\<close>

abbreviation LF :: char where "LF \<equiv> CHR 0x0A"
abbreviation CR :: char where "CR \<equiv> CHR 0x0D"

text \<open>\<open>str.isspace\<close> on ASCII.\<close>

definition is_space :: "char \<Rightarrow> bool" where
  "is_space c \<longleftrightarrow>
     c \<in> {CHR 0x09, CHR 0x0A, CHR 0x0B, CHR 0x0C, CHR 0x0D,
          CHR 0x1C, CHR 0x1D, CHR 0x1E, CHR 0x1F, CHR 0x20}"

text \<open>The ASCII line boundaries of \<open>str.splitlines\<close>.\<close>

definition is_linebreak :: "char \<Rightarrow> bool" where
  "is_linebreak c \<longleftrightarrow>
     c \<in> {CHR 0x0A, CHR 0x0B, CHR 0x0C, CHR 0x0D, CHR 0x1C, CHR 0x1D, CHR 0x1E}"

definition is_digit :: "char \<Rightarrow> bool" where
  "is_digit c \<longleftrightarrow> c \<in> set ''0123456789''"

text \<open>The word characters of \<open>\b\<close> in a regular expression.\<close>

definition is_word :: "char \<Rightarrow> bool" where
  "is_word c \<longleftrightarrow> is_digit c \<or>
     c \<in> set ''abcdefghijklmnopqrstuvwxyzABCDEFGHIJKLMNOPQRSTUVWXYZ_''"

definition lstrip :: "string \<Rightarrow> string" where
  "lstrip s = dropWhile is_space s"

definition rstrip :: "string \<Rightarrow> string" where
  "rstrip s = rev (dropWhile is_space (rev s))"

definition strip :: "string \<Rightarrow> string" where
  "strip s = rstrip (lstrip s)"

definition startswith :: "string \<Rightarrow> string \<Rightarrow> bool" where
  "startswith s p \<longleftrightarrow> take (length p) s = p"

definition endswith :: "string \<Rightarrow> string \<Rightarrow> bool" where
  "endswith s p \<longleftrightarrow> length p \<le> length s \<and> drop (length s - length p) s = p"

fun join :: "string \<Rightarrow> string list \<Rightarrow> string" where
  "join sep [] = []"
| "join sep [x] = x"
| "join sep (x # y # zs) = x @ sep @ join sep (y # zs)"

text \<open>\<open>str.splitlines()\<close>: line boundaries end a line, \<open>\r\n\<close> is one boundary.\<close>

fun splitlines :: "string \<Rightarrow> string list" where
  "splitlines [] = []"
| "splitlines (c # cs) =
     (if c = CR \<and> cs \<noteq> [] \<and> hd cs = LF then [] # splitlines (tl cs)
      else if is_linebreak c then [] # splitlines cs
      else case splitlines cs of [] \<Rightarrow> [[c]] | l # ls \<Rightarrow> (c # l) # ls)"

text \<open>\<open>str.split(sep)\<close> for a one-character separator.\<close>

fun split_on :: "char \<Rightarrow> string \<Rightarrow> string list" where
  "split_on d [] = [[]]"
| "split_on d (c # cs) =
     (if c = d then [] # split_on d cs
      else case split_on d cs of [] \<Rightarrow> [[c]] | l # ls \<Rightarrow> (c # l) # ls)"

text \<open>\<open>str.split()\<close>: the maximal runs of characters that are not white space.\<close>

function split_ws :: "string \<Rightarrow> string list" where
  "split_ws s =
     (case dropWhile is_space s of
        [] \<Rightarrow> []
      | c # cs \<Rightarrow> (c # takeWhile (\<lambda>x. \<not> is_space x) cs)
                  # split_ws (dropWhile (\<lambda>x. \<not> is_space x) cs))"
  by pat_completeness auto
termination
proof (relation "measure length", goal_cases)
  case 1
  then show ?case by simp
next
  case (2 s c cs)
  have "length (dropWhile (\<lambda>x. \<not> is_space x) cs) \<le> length cs"
    by (rule length_dropWhile_le)
  moreover have "length (c # cs) \<le> length s"
    using length_dropWhile_le [of is_space s] 2 by simp
  ultimately show ?case by simp
qed

declare split_ws.simps [simp del]

text \<open>\<open>str.rpartition(".")[2]\<close>: what follows the last dot.\<close>

definition after_last_dot :: "string \<Rightarrow> string" where
  "after_last_dot s = rev (takeWhile (\<lambda>c. c \<noteq> CHR ''.'') (rev s))"

text \<open>\<open>str(n)\<close> for integers, and \<open>int(s)\<close> (sign, digits, single underscores).\<close>

definition digit_char :: "nat \<Rightarrow> char" where
  "digit_char d = (''0123456789'' ! d)"

fun show_nat :: "nat \<Rightarrow> string" where
  "show_nat n =
     (if n < 10 then [digit_char n] else show_nat (n div 10) @ [digit_char (n mod 10)])"

declare show_nat.simps [simp del]

definition show_int :: "int \<Rightarrow> string" where
  "show_int i = (if i < 0 then CHR ''-'' # show_nat (nat (- i)) else show_nat (nat i))"

definition digit_val :: "char \<Rightarrow> nat" where
  "digit_val c = length (takeWhile (\<lambda>d. d \<noteq> c) ''0123456789'')"

text \<open>Digits with single underscores between them; the flag tells whether the character
  before was a digit.\<close>

fun read_digits :: "bool \<Rightarrow> nat \<Rightarrow> string \<Rightarrow> nat option" where
  "read_digits prev n [] = (if prev then Some n else None)"
| "read_digits prev n (c # cs) =
     (if is_digit c then read_digits True (10 * n + digit_val c) cs
      else if c = CHR ''_'' \<and> prev then read_digits False n cs
      else None)"

definition py_int :: "string \<Rightarrow> int option" where
  "py_int s =
     (case strip s of
        [] \<Rightarrow> None
      | c # cs \<Rightarrow>
          if c = CHR ''-'' then map_option (\<lambda>n. - int n) (read_digits False 0 cs)
          else if c = CHR ''+'' then map_option int (read_digits False 0 cs)
          else map_option int (read_digits False 0 (c # cs)))"

text \<open>\<open>str(list_of_ints)\<close>, for example \<open>[1, 2]\<close>.\<close>

definition show_int_list :: "int list \<Rightarrow> string" where
  "show_int_list xs = ''['' @ join '', '' (map show_int xs) @ '']''"

text \<open>
  \<open>str(list_of_strs)\<close> for strings without quotes, backslashes or unprintable characters
  (the class names of the registry): each is quoted with apostrophes.
\<close>

definition show_str_list :: "string list \<Rightarrow> string" where
  "show_str_list xs =
     ''['' @ join '', '' (map (\<lambda>x. [CHR 0x27] @ x @ [CHR 0x27]) xs) @ '']''"

subsection \<open>The pieces of the regular expressions\<close>

text \<open>A literal prefix, \<open>\s*\<close>, and \<open>(\S+)\<close> (greedy, at least one character).\<close>

definition match_lit :: "string \<Rightarrow> string \<Rightarrow> string option" where
  "match_lit p s = (if startswith s p then Some (drop (length p) s) else None)"

definition match_token :: "string \<Rightarrow> (string \<times> string) option" where
  "match_token s =
     (let w = takeWhile (\<lambda>c. \<not> is_space c) s
      in if w = [] then None else Some (w, drop (length w) s))"

section \<open>Lemmas on strings\<close>

text \<open>A token is what \<open>(\S+)\<close> matches: non-empty, no white space.\<close>

definition token :: "string \<Rightarrow> bool" where
  "token s \<longleftrightarrow> s \<noteq> [] \<and> (\<forall>c \<in> set s. \<not> is_space c)"

named_theorems string_simps

lemma linebreak_is_space: "is_linebreak c \<Longrightarrow> is_space c"
  by (auto simp: is_linebreak_def is_space_def)

lemma startswith_iff: "startswith s p \<longleftrightarrow> (\<exists>r. s = p @ r)"
  by (metis append_eq_conv_conj append_take_drop_id startswith_def)

lemma startswith_append [simp]: "startswith (p @ s) p"
  by (simp add: startswith_def)

lemma startswith_Nil [simp]: "startswith s [] \<longleftrightarrow> True"
  by (simp add: startswith_def)

lemma startswith_Cons_Cons [simp]: "startswith (c # s) (d # p) \<longleftrightarrow> c = d \<and> startswith s p"
  by (auto simp: startswith_def)

lemma startswith_Nil_Cons [simp]: "\<not> startswith [] (d # p)"
  by (simp add: startswith_def)

lemma match_lit_append [simp]: "match_lit p (p @ s) = Some s"
  by (simp add: match_lit_def)

lemma match_lit_Some: "match_lit p s = Some r \<longleftrightarrow> s = p @ r"
  by (auto simp: match_lit_def startswith_def)
     (metis append_take_drop_id)

lemma lstrip_append_space:
  "(\<And>c. c \<in> set w \<Longrightarrow> is_space c) \<Longrightarrow> lstrip (w @ s) = lstrip s"
  unfolding lstrip_def by (rule dropWhile_append2)

lemma strip_append_space:
  "(\<And>c. c \<in> set w \<Longrightarrow> is_space c) \<Longrightarrow> strip (w @ s) = strip s"
  by (simp add: strip_def lstrip_append_space)

lemma lstrip_nonspace: "\<not> is_space c \<Longrightarrow> lstrip (c # s) = c # s"
  by (simp add: lstrip_def)

lemma rstrip_nonspace: "\<not> is_space c \<Longrightarrow> rstrip (s @ [c]) = s @ [c]"
  by (simp add: rstrip_def)

lemma strip_Nil [simp]: "strip [] = []"
  by (simp add: strip_def lstrip_def rstrip_def)

text \<open>A string that starts and ends with a visible character is its own strip.\<close>

lemma strip_id:
  assumes "s \<noteq> []" and "\<not> is_space (hd s)" and "\<not> is_space (last s)"
  shows "strip s = s"
proof -
  have l: "lstrip s = s"
    using assms by (cases s) (auto simp: lstrip_nonspace)
  have "rstrip (butlast s @ [last s]) = butlast s @ [last s]"
    using assms(3) by (rule rstrip_nonspace)
  then show ?thesis
    using assms(1) by (simp add: strip_def l)
qed

lemma strip_idem [simp]: "strip (strip s) = strip s"
proof (cases "strip s = []")
  case False
  let ?t = "lstrip s"
  have t: "?t \<noteq> []" using False by (auto simp: strip_def rstrip_def)
  then have hdt: "\<not> is_space (hd ?t)"
    by (simp add: lstrip_def hd_dropWhile)
  have r: "strip s \<noteq> []" by (rule False)
  have last_ns: "\<not> is_space (last (strip s))"
    using r by (simp add: strip_def rstrip_def last_rev hd_dropWhile)
  have "\<exists>u. ?t = strip s @ u"
    unfolding strip_def rstrip_def
    by (metis dropWhile_eq_drop append_take_drop_id rev_append rev_rev_ident)
  then have "hd (strip s) = hd ?t" using r by (metis hd_append)
  with hdt last_ns r show ?thesis by (intro strip_id) auto
qed simp

lemma strip_Nil_iff: "strip s = [] \<longleftrightarrow> (\<forall>c \<in> set s. is_space c)"
proof
  assume "strip s = []"
  then have "\<forall>c \<in> set (lstrip s). is_space c"
    by (simp add: strip_def rstrip_def)
  moreover have "lstrip s \<noteq> [] \<Longrightarrow> \<not> is_space (hd (lstrip s))"
    unfolding lstrip_def by (rule hd_dropWhile)
  ultimately have "lstrip s = []" by (metis list.set_sel(1))
  then show "\<forall>c \<in> set s. is_space c" by (simp add: lstrip_def)
next
  assume "\<forall>c \<in> set s. is_space c"
  then have "lstrip s = []" by (simp add: lstrip_def)
  then show "strip s = []" by (simp add: strip_def rstrip_def)
qed

lemma token_strip [simp]: "token s \<Longrightarrow> strip s = s"
  by (rule strip_id) (auto simp: token_def)

lemma match_token_append:
  assumes "token w" and "r = [] \<or> is_space (hd r)"
  shows "match_token (w @ r) = Some (w, r)"
proof -
  have "takeWhile (\<lambda>c. \<not> is_space c) (w @ r) = w"
    using assms by (cases r) (auto simp: token_def)
  then show ?thesis
    using assms(1) by (simp add: match_token_def token_def)
qed

lemma match_token_Some:
  "match_token s = Some (w, r) \<Longrightarrow> token w \<and> s = w @ r"
  by (auto simp: match_token_def Let_def token_def dropWhile_eq_drop [symmetric]
      dest: set_takeWhileD split: if_splits)

lemma match_token_set: "match_token s = Some (w, r) \<Longrightarrow> set w \<subseteq> set s"
  using match_token_Some by fastforce

subsection \<open>Lines\<close>

lemma splitlines_no_linebreak:
  "l \<in> set (splitlines s) \<Longrightarrow> c \<in> set l \<Longrightarrow> \<not> is_linebreak c"
  by (induction s arbitrary: l rule: splitlines.induct)
     (fastforce split: if_splits list.splits)+

definition plain_line :: "string \<Rightarrow> bool" where
  "plain_line l \<longleftrightarrow> (\<forall>c \<in> set l. \<not> is_linebreak c)"

lemma splitlines_plain: "l \<in> set (splitlines s) \<Longrightarrow> plain_line l"
  by (auto simp: plain_line_def dest: splitlines_no_linebreak)

lemma plain_line_append [simp]: "plain_line (a @ b) \<longleftrightarrow> plain_line a \<and> plain_line b"
  by (auto simp: plain_line_def)

lemma plain_line_Nil [simp]: "plain_line []"
  by (simp add: plain_line_def)

lemma token_plain: "token s \<Longrightarrow> plain_line s"
  by (auto simp: token_def plain_line_def dest: linebreak_is_space)

lemma linebreak_LF [simp]: "is_linebreak LF" "is_linebreak CR"
  by (simp_all add: is_linebreak_def)

lemma splitlines_line_LF:
  assumes "plain_line l"
  shows "splitlines (l @ LF # s) = l # splitlines s"
  using assms
proof (induction l)
  case Nil
  show ?case by simp
next
  case (Cons c l)
  then have "\<not> is_linebreak c" and "plain_line l" by (auto simp: plain_line_def)
  moreover from \<open>\<not> is_linebreak c\<close> have "c \<noteq> CR" by auto
  ultimately show ?case using Cons.IH by simp
qed

text \<open>\<open>"\n".join(lines) + "\n"\<close> is read back as the same lines.\<close>

lemma splitlines_join_LF:
  "(\<And>l. l \<in> set ls \<Longrightarrow> plain_line l) \<Longrightarrow> ls \<noteq> [] \<Longrightarrow> splitlines (join [LF] ls @ [LF]) = ls"
proof (induction "[LF]" ls rule: join.induct)
  case (2 x)
  then show ?case using splitlines_line_LF [of x "[]"] by simp
next
  case (3 x y zs)
  have "splitlines ((x @ [LF] @ join [LF] (y # zs)) @ [LF])
        = splitlines (x @ LF # (join [LF] (y # zs) @ [LF]))" by simp
  also have "\<dots> = x # splitlines (join [LF] (y # zs) @ [LF])"
    using 3 by (intro splitlines_line_LF) simp
  finally show ?case using 3 by simp
qed simp

subsection \<open>White-space separated words\<close>

lemma split_ws_space: "is_space c \<Longrightarrow> split_ws (c # s) = split_ws s"
  by (subst (1 2) split_ws.simps) simp

lemma split_ws_Nil [simp]: "split_ws [] = []"
  by (simp add: split_ws.simps)

lemma split_ws_token:
  assumes "token w" and "r = [] \<or> is_space (hd r)"
  shows "split_ws (w @ r) = w # split_ws r"
proof -
  obtain c cs where w: "w = c # cs" and c: "\<not> is_space c" and cs: "\<forall>x \<in> set cs. \<not> is_space x"
    using assms(1) by (cases w) (auto simp: token_def)
  have t: "takeWhile (\<lambda>x. \<not> is_space x) (cs @ r) = cs"
    and d: "dropWhile (\<lambda>x. \<not> is_space x) (cs @ r) = r"
    using cs assms(2) by (cases r; auto)+
  show ?thesis
    by (subst split_ws.simps) (simp add: w c t d)
qed

lemma split_ws_word: "token w \<Longrightarrow> split_ws (w @ CHR '' '' # r) = w # split_ws r"
  by (simp add: split_ws_token split_ws_space is_space_def)

lemma split_ws_single [simp]: "token w \<Longrightarrow> split_ws w = [w]"
  using split_ws_token [of w "[]"] by simp

subsection \<open>Numbers as text\<close>

lemma digit_char_in: "d < 10 \<Longrightarrow> digit_char d \<in> set ''0123456789''"
  unfolding digit_char_def by (rule nth_mem) simp

lemma show_nat_digits: "c \<in> set (show_nat n) \<Longrightarrow> is_digit c"
proof (induction n rule: show_nat.induct)
  case (1 n)
  then show ?case
    using digit_char_in [of n] digit_char_in [of "n mod 10"]
    by (subst (asm) (2) show_nat.simps) (auto simp: is_digit_def split: if_splits)
qed

lemma show_nat_not_Nil [simp]: "show_nat n \<noteq> []"
  by (subst show_nat.simps) simp

lemma digit_not_space: "is_digit c \<Longrightarrow> \<not> is_space c"
  by (auto simp: is_digit_def is_space_def)

lemma token_show_nat [simp]: "token (show_nat n)"
  by (auto simp: token_def dest: show_nat_digits digit_not_space)

lemma token_show_int [simp]: "token (show_int i)"
  using token_show_nat by (auto simp: show_int_def token_def is_space_def)

lemma digit_val_char: "d < 10 \<Longrightarrow> digit_val (digit_char d) = d"
  unfolding digit_val_def digit_char_def
  by (auto simp: less_Suc_eq numeral_eq_Suc)

lemma read_digits_append:
  "(\<And>c. c \<in> set s \<Longrightarrow> is_digit c) \<Longrightarrow> s \<noteq> [] \<Longrightarrow>
     read_digits p n (s @ r) = read_digits True (foldl (\<lambda>m c. 10 * m + digit_val c) n s) r"
proof (induction s arbitrary: p n)
  case (Cons c s)
  then show ?case by (cases "s = []") auto
qed simp

lemma foldl_show_nat: "foldl (\<lambda>m c. 10 * m + digit_val c) 0 (show_nat n) = n"
proof (induction n rule: show_nat.induct)
  case (1 n)
  then show ?case
    by (subst show_nat.simps) (auto simp: digit_val_char)
qed

lemma read_digits_show_nat: "read_digits p 0 (show_nat n) = Some n"
  using read_digits_append [of "show_nat n" p 0 "[]"] show_nat_digits
  by (simp add: foldl_show_nat)

text \<open>\<open>int(str(i)) = i\<close>.\<close>

lemma py_int_show_int [simp]: "py_int (show_int i) = Some i"
proof (cases "i < 0")
  case True
  then have "show_int i = CHR ''-'' # show_nat (nat (- i))" by (simp add: show_int_def)
  moreover have "strip (show_int i) = show_int i" by simp
  ultimately show ?thesis using True by (simp add: py_int_def read_digits_show_nat)
next
  case False
  then have s: "show_int i = show_nat (nat i)" by (simp add: show_int_def)
  obtain c cs where c: "show_nat (nat i) = c # cs" by (cases "show_nat (nat i)") auto
  then have "is_digit c" using show_nat_digits [of c "nat i"] by simp
  then have "c \<noteq> CHR ''-''" "c \<noteq> CHR ''+''" by (auto simp: is_digit_def)
  moreover have "strip (c # cs) = c # cs" using s c by (metis token_show_int token_strip)
  moreover have "read_digits False 0 (c # cs) = Some (nat i)"
    using read_digits_show_nat [of False "nat i"] c by metis
  ultimately show ?thesis
    using False s c by (simp add: py_int_def del: read_digits.simps)
qed

lemma join_set: "set (join sep xs) \<subseteq> (\<Union>x \<in> set xs. set x) \<union> set sep"
  by (induction sep xs rule: join.induct) auto

end
