(* ===== verification/Xmix_IR.thy ===== *)
theory Xmix_IR
  imports Prelude
begin

text \<open>
  The intermediate representation of the xmix compiler
  (\<open>vllm/activations_extractor/xmix/ir.py\<close>) and its located error type
  (\<open>vllm/activations_extractor/xmix/errors.py\<close>).
  Every \<open>dataclass\<close> is a record with the source's fields, prefixed where two classes share
  a field name; a tuple of the source is a list.
\<close>

section \<open>ir.py\<close>

datatype OpKind = WRITE | READ

record SourceLoc =
  loc_file :: string
  loc_line :: int
  loc_col :: int

text \<open>The \<open>.cond(...)\<close> clause: the probe-class form sets \<open>probe_op\<close>, \<open>compare_op\<close> and
  \<open>c_args\<close>; the gates form sets \<open>c_instance_expr\<close>, \<open>cond_cls\<close> and \<open>gate_buffer\<close>.\<close>

record CondClause =
  c_layers :: "int list"
  c_submodule :: string
  c_loc :: SourceLoc
  probe_op :: "string option"
  compare_op :: "string option"
  c_args :: "string list"
  c_instance_expr :: "string option"
  cond_cls :: "string option"
  c_method :: string
  gate_buffer :: "string option"
  plug_fn :: "string option"
  plug_kind :: "string option"
  model_level :: bool

text \<open>The defaults of the class's fields.\<close>

definition CondClause_defaults :: "int list \<Rightarrow> string \<Rightarrow> SourceLoc \<Rightarrow> CondClause" where
  "CondClause_defaults ls sub l =
     \<lparr> c_layers = ls, c_submodule = sub, c_loc = l,
       probe_op = None, compare_op = None, c_args = [],
       c_instance_expr = None, cond_cls = None, c_method = ''run'', gate_buffer = None,
       plug_fn = None, plug_kind = None, model_level = False \<rparr>"

record Statement =
  s_op :: OpKind
  op_name :: string
  s_args :: "string list"
  s_method :: string
  s_layers :: "int list"
  s_submodule :: string
  s_cond :: "CondClause option"
  s_loc :: SourceLoc
  s_instance_expr :: "string option"
  all_layers :: bool

record PreambleSegment =
  seg_text :: string
  seg_targets :: "string list"
  block_cls :: "string option"

record ParseResult =
  preamble :: "PreambleSegment list"
  statements :: "Statement list"
  model :: string

section \<open>errors.py\<close>

text \<open>\<open>XmixError\<close> keeps its location, message and the sorted alternatives.\<close>

record XmixError =
  err_loc :: "SourceLoc option"
  err_msg :: string
  alternatives :: "string list option"

text \<open>What the compiler can raise: its own error, or a Python exception that the code does
  not catch.\<close>

datatype xmix_exn = Xmix XmixError | Uncaught py_exn

type_synonym 'a xres = "xmix_exn + 'a"

text \<open>\<open>raise XmixError(loc, msg)\<close> and \<open>raise XmixError(loc, msg, alternatives=alts)\<close>.\<close>

definition xmix_error :: "SourceLoc option \<Rightarrow> string \<Rightarrow> xmix_exn" where
  "xmix_error l msg = Xmix \<lparr>err_loc = l, err_msg = msg, alternatives = None\<rparr>"

definition xmix_error_alts ::
  "SourceLoc option \<Rightarrow> string \<Rightarrow> string list \<Rightarrow> xmix_exn" where
  "xmix_error_alts l msg alts =
     Xmix \<lparr>err_loc = l, err_msg = msg, alternatives = Some (sort alts)\<rparr>"

text \<open>The text of the exception: \<open>file:line:col: msg  (valid: ...)\<close>, with a 1-based column.\<close>

definition XmixError_str :: "XmixError \<Rightarrow> string" where
  "XmixError_str e =
     (let located =
        (case err_loc e of
           Some l \<Rightarrow> loc_file l @ '':'' @ show_int (loc_line l) @ '':''
                     @ show_int (loc_col l + 1) @ '': '' @ err_msg e
         | None \<Rightarrow> err_msg e)
      in case alternatives e of
           Some (a # as) \<Rightarrow> located @ ''  (valid: '' @ join '', '' (a # as) @ '')''
         | _ \<Rightarrow> located)"

text \<open>A result that is either a value or one of the compiler's own located errors: no
  uncaught Python exception.\<close>

definition no_crash :: "'a xres \<Rightarrow> bool" where
  "no_crash r \<longleftrightarrow> (\<forall>e. r \<noteq> Inl (Uncaught e))"

lemma no_crash_simps [simp]:
  "no_crash (Inr v)"
  "no_crash (Inl (Xmix e))"
  "no_crash (Inl (xmix_error l m))"
  "no_crash (Inl (xmix_error_alts l m as))"
  "\<not> no_crash (Inl (Uncaught x'))"
  by (auto simp: no_crash_def xmix_error_def xmix_error_alts_def)

lemma no_crash_bindE [intro]:
  assumes "no_crash m" and "\<And>x. m = Inr x \<Longrightarrow> no_crash (f x)"
  shows "no_crash (bindE m f)"
  using assms by (cases m) (auto simp: no_crash_def)

lemma no_crash_raise_if [simp]:
  "no_crash (raise_if c (xmix_error l m))"
  "no_crash (raise_if c (xmix_error_alts l m as))"
  by (simp_all add: raise_if_def)

lemma no_crash_of_option [simp]:
  "no_crash (of_option (xmix_error l m) r)"
  "no_crash (of_option (xmix_error_alts l m as) r)"
  by (auto simp: of_option_def split: option.splits)

lemma no_crash_foldE:
  assumes "\<And>x s. x \<in> set xs \<Longrightarrow> no_crash (f x s)"
  shows "no_crash (foldE f xs s)"
  using assms by (induction xs arbitrary: s) auto

lemma no_crash_mapE:
  assumes "\<And>x. x \<in> set xs \<Longrightarrow> no_crash (f x)"
  shows "no_crash (mapE f xs)"
  using assms by (induction xs) (auto intro!: no_crash_bindE)

end
