(* ===== verification/Xmix_Spec.thy ===== *)
theory Xmix_Spec
  imports Xmix_IR
begin

text \<open>
  The registry of the xmix DSL (\<open>vllm/activations_extractor/xmix/spec.py\<close>).  A Python dict
  is an association list in the source's order; \<open>map_of\<close> is \<open>dict.get\<close>.  The values are those
  of the source, non-ASCII characters as their UTF-8 bytes.
\<close>

section \<open>The entry types\<close>

text \<open>A constructor schema: \<open>None\<close> is a required argument, \<open>Some d\<close> the default expression.\<close>

type_synonym arg_schema = "(string \<times> string option) list"

record OpSpec =
  op_cls_path :: string
  op_flag :: string
  op_arity :: nat
  op_method :: string
  build_kind :: "string option"
  op_arg_schema :: "arg_schema option"

record CompareSpec =
  builder_path :: "string option"
  ctor_kind :: string
  cmp_arity :: nat

record CondOpSpec =
  co_cls_path :: string
  co_flag :: string
  co_arity :: nat
  co_method :: string
  compares :: "(string \<times> CompareSpec) list"

text \<open>An entry of \<open>SPEC["cond_instances"]\<close>; a key that an entry may lack is an option.\<close>

record CondInstSpec =
  ci_cls_path :: string
  ci_flag :: string
  ci_method :: string
  ci_plug_fn :: string
  ci_plug_kind :: "string option"
  ci_scope :: string
  ci_args :: "arg_schema option"
  ci_model_attr :: "string option"
  ci_dest :: "string option"
  ci_dest_anchor :: "string option"
  ci_run_dest :: "string option"
  ci_run_anchor :: "string option"
  ci_run_call :: "string list option"

record SubmoduleSpec =
  setter :: string
  write_arity :: nat
  read_arity :: nat

record ModelSpec =
  arch :: string
  layers_attr :: string
  layer_idx_attr :: string
  anchors :: "(string \<times> string) list"

section \<open>SPEC\<close>

definition SPEC_ops :: "(string \<times> OpSpec) list" where
  "SPEC_ops =
    [(''SteeringVector'',
      \<lparr> op_cls_path = ''vllm.activations_extractor.write_activations.SteeringVectorAdder'',
        op_flag = ''w'', op_arity = 1, op_method = ''run'',
        build_kind = Some ''steering_vector_adder'', op_arg_schema = None \<rparr>),
     (''SteeringVectorDotSubtractNormalized'',
      \<lparr> op_cls_path = ''vllm.activations_extractor.write_activations.SteeringVectorDotSubtractNormalized'',
        op_flag = ''w'', op_arity = 0, op_method = ''run'', build_kind = None,
        op_arg_schema = Some
          [(''hidden_size'', Some ''self.model_config.hidden_size''),
           (''max_tokens'', Some ''2048''),
           (''steering_vector'', None),
           (''vec_indices'', None),
           (''dtype'', Some ''self.model_config.dtype''),
           (''device'', Some ''self.device'')] \<rparr>),
     (''SteeringVectorAdder'',
      \<lparr> op_cls_path = ''vllm.activations_extractor.write_activations.SteeringVectorAdder'',
        op_flag = ''w'', op_arity = 0, op_method = ''run'', build_kind = None,
        op_arg_schema = Some
          [(''r'', None), (''scales'', None), (''vec_indices'', None),
           (''n_vecs_per_token'', None)] \<rparr>),
     (''SteeringVectorScaledAdder'',
      \<lparr> op_cls_path = ''vllm.activations_extractor.write_activations.SteeringVectorScaledAdder'',
        op_flag = ''w'', op_arity = 0, op_method = ''run'', build_kind = None,
        op_arg_schema = Some
          [(''r'', None), (''coeff'', None), (''max_tokens'', Some ''2048'')] \<rparr>),
     (''SteeringLinear'',
      \<lparr> op_cls_path = ''vllm.activations_extractor.write_activations.SteeringLinear'',
        op_flag = ''w'', op_arity = 0, op_method = ''run'', build_kind = None,
        op_arg_schema = Some
          [(''W'', None), (''b'', None), (''vec_indices'', None),
           (''max_tokens'', Some ''2048'')] \<rparr>),
     (''LinearProbe'',
      \<lparr> op_cls_path = ''vllm.activations_extractor.read_activations.LinearProbe'',
        op_flag = ''r'', op_arity = 0, op_method = ''run'', build_kind = None,
        op_arg_schema = Some
          [(''weights'', None), (''bias'', None), (''max_tokens'', Some ''2048'')] \<rparr>)]"

definition SPEC_cond_ops :: "(string \<times> CondOpSpec) list" where
  "SPEC_cond_ops =
    [(''LinearProbe'',
      \<lparr> co_cls_path = ''vllm.activations_extractor.read_activations.LinearProbe'',
        co_flag = ''r'', co_arity = 2, co_method = ''run'',
        compares =
          [(''biggerThan'',
            \<lparr> builder_path = None, ctor_kind = ''probe_threshold_mask'', cmp_arity = 2 \<rparr>)] \<rparr>)]"

text \<open>The em dash of the banner texts, in UTF-8.\<close>

abbreviation em_dash :: string where
  "em_dash \<equiv> [CHR 0xE2, CHR 0x80, CHR 0x94]"

definition SPEC_cond_instances :: "(string \<times> CondInstSpec) list" where
  "SPEC_cond_instances =
    [(''CondProjCosSim'',
      \<lparr> ci_cls_path = ''vllm.activations_extractor.cond_kernels.CondProjCosSim'',
        ci_flag = ''r'', ci_method = ''run'', ci_plug_fn = ''set_output_buffers'',
        ci_plug_kind = Some ''out_bool'', ci_scope = ''layer'',
        ci_args = Some
          [(''condition_projector'', None), (''threshold'', None),
           (''max_tokens'', Some ''2048'')],
        ci_model_attr = None, ci_dest = None, ci_dest_anchor = None, ci_run_dest = None,
        ci_run_anchor = None, ci_run_call = None \<rparr>),
     (''EOLTokenDetector'',
      \<lparr> ci_cls_path = ''vllm.activations_extractor.write_activations.EOLTokenDetector'',
        ci_flag = ''r'', ci_method = ''run'', ci_plug_fn = ''set_output_buffers'',
        ci_plug_kind = None, ci_scope = ''model'',
        ci_args = Some
          [(''eol_token_ids'', None), (''vocab_size'', Some ''self.vocab_size''),
           (''max_tokens'', Some ''2048''), (''device'', Some ''self.device'')],
        ci_model_attr = Some ''token_detector'',
        ci_dest = Some (''model file '' @ em_dash @ '' model construction (e.g. init_token_detector)''),
        ci_dest_anchor = Some ''model_construct'',
        ci_run_dest = Some (''model file '' @ em_dash
          @ '' Model.forward (injected at the model_forward anchor)''),
        ci_run_anchor = Some ''model_forward'',
        ci_run_call = Some
          [''if idx == 0 and self.{attr} is not None:'',
           ''    self.{attr}(input_ids)''] \<rparr>)]"

definition SPEC_destinations :: "(string \<times> string) list" where
  "SPEC_destinations =
    [(''runner_setup'',
      ''gpu_model_runner '' @ em_dash @ '' constructed once (e.g. in __init__/setup)''),
     (''runner_postload'',
      ''gpu_model_runner '' @ em_dash @ '' after load_model (install hooks + wire buffers)'')]"

definition SPEC_submodules :: "(string \<times> SubmoduleSpec) list" where
  "SPEC_submodules =
    [(''attention.post'',
      \<lparr> setter = ''set_post_attn_pre_norm_hook'', write_arity = 3, read_arity = 1 \<rparr>),
     (''mlp.post'',
      \<lparr> setter = ''set_post_mlp_hook'', write_arity = 3, read_arity = 1 \<rparr>),
     (''norm.pre_mlp'',
      \<lparr> setter = ''set_post_norm_pre_mlp_hook'', write_arity = 3, read_arity = 1 \<rparr>)]"

definition SPEC_models :: "(string \<times> ModelSpec) list" where
  "SPEC_models =
    [(''llama'',
      \<lparr> arch = ''LlamaForCausalLM'', layers_attr = ''model.layers'',
        layer_idx_attr = ''self_attn.layer_idx'',
        anchors =
          [(''runner_setup'', ''vllm/v1/worker/gpu_model_runner.py''),
           (''runner_postload'', ''vllm/v1/worker/gpu_model_runner.py''),
           (''model_construct'', ''vllm/model_executor/models/llama.py''),
           (''model_forward'', ''vllm/model_executor/models/llama.py'')] \<rparr>),
     (''qwen'',
      \<lparr> arch = ''Qwen3ForCausalLM'', layers_attr = ''model.layers'',
        layer_idx_attr = ''self_attn.layer_idx'',
        anchors =
          [(''runner_setup'', ''vllm/v1/worker/gpu_model_runner.py''),
           (''runner_postload'', ''vllm/v1/worker/gpu_model_runner.py''),
           (''model_construct'', ''vllm/model_executor/models/qwen3.py''),
           (''model_forward'', ''vllm/model_executor/models/qwen3.py'')] \<rparr>),
     (''mixtral'',
      \<lparr> arch = ''MixtralForCausalLM'', layers_attr = ''model.layers'',
        layer_idx_attr = ''self_attn.layer_idx'',
        anchors =
          [(''runner_setup'', ''vllm/v1/worker/gpu_model_runner.py''),
           (''runner_postload'', ''vllm/v1/worker/gpu_model_runner.py''),
           (''model_construct'', ''vllm/model_executor/models/mixtral.py''),
           (''model_forward'', ''vllm/model_executor/models/mixtral.py'')] \<rparr>)]"

definition SPEC_default_model :: string where
  "SPEC_default_model = ''llama''"

abbreviation dict_keys :: "('k \<times> 'v) list \<Rightarrow> 'k list" where
  "dict_keys d \<equiv> map fst d"

text \<open>\<open>d[k]\<close>, which raises \<open>KeyError\<close>.\<close>

definition dict_index :: "(string \<times> 'v) list \<Rightarrow> string \<Rightarrow> 'v xres" where
  "dict_index d k = of_option (Uncaught (KeyError k)) (map_of d k)"

lemma dict_index_Inr [simp]: "dict_index d k = Inr v \<longleftrightarrow> map_of d k = Some v"
  by (simp add: dict_index_def)

lemma dict_index_Some: "map_of d k = Some v \<Longrightarrow> dict_index d k = Inr v"
  by simp

section \<open>Facts about the registry\<close>

lemma SPEC_keys:
  "dict_keys SPEC_ops =
     [''SteeringVector'', ''SteeringVectorDotSubtractNormalized'', ''SteeringVectorAdder'',
      ''SteeringVectorScaledAdder'', ''SteeringLinear'', ''LinearProbe'']"
  "dict_keys SPEC_cond_ops = [''LinearProbe'']"
  "dict_keys SPEC_cond_instances = [''CondProjCosSim'', ''EOLTokenDetector'']"
  "dict_keys SPEC_submodules = [''attention.post'', ''mlp.post'', ''norm.pre_mlp'']"
  "dict_keys SPEC_models = [''llama'', ''qwen'', ''mixtral'']"
  by (simp_all add: SPEC_ops_def SPEC_cond_ops_def SPEC_cond_instances_def
      SPEC_submodules_def SPEC_models_def)

text \<open>Every model resolves each of the four anchors, and the runner anchors have a label.\<close>

definition anchor_names :: "string list" where
  "anchor_names = [''runner_setup'', ''runner_postload'', ''model_construct'', ''model_forward'']"

lemma model_anchor_resolves:
  assumes "map_of SPEC_models m = Some ms" and "a \<in> set anchor_names"
  shows "map_of (anchors ms) a \<noteq> None"
  using assms by (auto simp: SPEC_models_def anchor_names_def split: if_splits)

end
