(* ===== verification/Xmix_AST.thy ===== *)
theory Xmix_AST
  imports Xmix_Spec
begin

text \<open>
  The part of Python's \<open>ast\<close> module that the xmix compiler inspects: the node classes it
  tests with \<open>isinstance\<close> (every other class is \<open>OtherExpr\<close> or \<open>OtherStmt\<close>), the positions
  of the nodes, and \<open>ast.get_source_segment\<close>.  The function \<open>ast.parse\<close> itself is a parameter
  of the definitions that call it.
\<close>

section \<open>Nodes\<close>

record npos =
  lineno :: nat
  col_offset :: nat
  end_lineno :: nat
  end_col_offset :: nat

datatype const = CInt int | CBool bool | CStr string | COther

datatype expr =
    Name npos string
  | Attribute npos expr string
  | Call npos expr "expr list" "keyword list"
  | Subscript npos expr expr
  | Slice npos "expr option" "expr option" "expr option"
  | Constant npos const
  | ListE npos "expr list"
  | OtherExpr npos
and keyword = Keyword "string option" expr

datatype stmt =
    Assign npos "expr list" expr
  | ExprStmt npos expr
  | OtherStmt npos

fun expr_pos :: "expr \<Rightarrow> npos" where
  "expr_pos (Name p _) = p"
| "expr_pos (Attribute p _ _) = p"
| "expr_pos (Call p _ _ _) = p"
| "expr_pos (Subscript p _ _) = p"
| "expr_pos (Slice p _ _ _) = p"
| "expr_pos (Constant p _) = p"
| "expr_pos (ListE p _) = p"
| "expr_pos (OtherExpr p) = p"

fun stmt_pos :: "stmt \<Rightarrow> npos" where
  "stmt_pos (Assign p _ _) = p"
| "stmt_pos (ExprStmt p _) = p"
| "stmt_pos (OtherStmt p) = p"

text \<open>\<open>SyntaxError\<close> as raised by \<open>ast.parse\<close>; \<open>x or 1\<close> on its optional fields.\<close>

record syntax_error =
  se_lineno :: "int option"
  se_offset :: "int option"
  se_msg :: string

definition or_one :: "int option \<Rightarrow> int" where
  "or_one x = (case x of None \<Rightarrow> 1 | Some v \<Rightarrow> if v = 0 then 1 else v)"

type_synonym ast_parser = "string \<Rightarrow> syntax_error + stmt list"

section \<open>Source segments\<close>

text \<open>The lines of the Python parser: only \<open>\n\<close>, \<open>\r\<close> and \<open>\r\n\<close> end a line; the line
  keeps its end.\<close>

fun splitlines_no_ff :: "string \<Rightarrow> string list" where
  "splitlines_no_ff [] = []"
| "splitlines_no_ff (c # cs) =
     (if c = CR \<and> cs \<noteq> [] \<and> hd cs = LF then [c, LF] # splitlines_no_ff (tl cs)
      else if c = CR \<or> c = LF then [c] # splitlines_no_ff cs
      else case splitlines_no_ff cs of [] \<Rightarrow> [[c]] | l # ls \<Rightarrow> (c # l) # ls)"

definition nth_line :: "string list \<Rightarrow> nat \<Rightarrow> string" where
  "nth_line ls i = (if i < length ls then ls ! i else [])"

text \<open>\<open>ast.get_source_segment(src, node)\<close> for a node of a tree parsed from \<open>src\<close>, whose
  positions lie within the source.\<close>

definition get_source_segment :: "string \<Rightarrow> npos \<Rightarrow> string" where
  "get_source_segment src p =
     (let ls = splitlines_no_ff src; a = lineno p - 1; b = end_lineno p - 1
      in if b = a then drop (col_offset p) (take (end_col_offset p) (nth_line ls a))
         else drop (col_offset p) (nth_line ls a)
              @ concat (map (nth_line ls) [Suc a..<b])
              @ take (end_col_offset p) (nth_line ls b))"

section \<open>Names and chains (parser.py)\<close>

definition loc :: "string \<Rightarrow> expr \<Rightarrow> SourceLoc" where
  "loc path node =
     \<lparr> loc_file = path, loc_line = int (lineno (expr_pos node)),
       loc_col = int (col_offset (expr_pos node)) \<rparr>"

definition stmt_loc :: "string \<Rightarrow> stmt \<Rightarrow> SourceLoc" where
  "stmt_loc path node =
     \<lparr> loc_file = path, loc_line = int (lineno (stmt_pos node)),
       loc_col = int (col_offset (stmt_pos node)) \<rparr>"

text \<open>A location given by line, in column 0 (the raw-line scans).\<close>

definition line_loc :: "string \<Rightarrow> nat \<Rightarrow> SourceLoc" where
  "line_loc path n = \<lparr> loc_file = path, loc_line = int n, loc_col = 0 \<rparr>"

fun dotted_name :: "expr \<Rightarrow> string option" where
  "dotted_name (Name _ i) = Some i"
| "dotted_name (Attribute _ v a) =
     (case dotted_name v of None \<Rightarrow> None | Some b \<Rightarrow> Some (b @ ''.'' @ a))"
| "dotted_name _ = None"

text \<open>The loop of \<open>_flatten_chain\<close>: it walks from the outermost link to the base and
  reverses the links at the end; here each link is put in front.\<close>

fun flatten_loop :: "expr \<Rightarrow> (string \<times> expr) list \<Rightarrow> expr \<times> (string \<times> expr) list" where
  "flatten_loop (Call p (Attribute q v a) args kws) links =
     flatten_loop v ((a, Call p (Attribute q v a) args kws) # links)"
| "flatten_loop (Subscript p (Attribute q v a) sl) links =
     flatten_loop v ((a, Subscript p (Attribute q v a) sl) # links)"
| "flatten_loop cur links = (cur, links)"

definition flatten_chain :: "expr \<Rightarrow> expr \<times> (string \<times> expr) list" where
  "flatten_chain node = flatten_loop node []"

text \<open>A link node of a chain is a call or a subscript.\<close>

definition is_link :: "expr \<Rightarrow> bool" where
  "is_link e \<longleftrightarrow> (case e of Call _ _ _ _ \<Rightarrow> True | Subscript _ _ _ \<Rightarrow> True | _ \<Rightarrow> False)"

fun is_call :: "expr \<Rightarrow> bool" where
  "is_call (Call _ _ _ _) = True"
| "is_call _ = False"

end
