(* ===== verification/Xmix_Parser.thy ===== *)
theory Xmix_Parser
  imports Xmix_AST
begin

text \<open>
  Phase A of the xmix compiler (\<open>vllm/activations_extractor/xmix/parser.py\<close>): the pragma
  scans over the raw lines, the validation of preamble constructions, and the parsing of
  \<open>m.write(...)\<close> / \<open>m.read(...)\<close> chains into \<open>Statement\<close>s.  The definitions follow the
  order of the source; \<open>warnings.warn\<close> (a message on stderr) is not modelled.
\<close>

section \<open>Small pieces\<close>

abbreviation sq :: string where "sq \<equiv> [CHR 0x27]"
abbreviation dq :: string where "dq \<equiv> [CHR 0x22]"

definition q1 :: "string \<Rightarrow> string" where
  "q1 s = sq @ s @ sq"

definition STMT_METHODS :: "string list" where
  "STMT_METHODS = [''layer'', ''layers'', ''submodule'', ''cond'']"

definition COND_METHODS :: "string list" where
  "COND_METHODS = [''layer'', ''submodule'']"

text \<open>Attribute access on a link node: only a \<open>Call\<close> has \<open>args\<close> and \<open>keywords\<close>.\<close>

fun attr_args :: "expr \<Rightarrow> expr list xres" where
  "attr_args (Call _ _ args _) = Inr args"
| "attr_args _ = Inl (Uncaught (AttributeError ''args''))"

fun attr_keywords :: "expr \<Rightarrow> keyword list xres" where
  "attr_keywords (Call _ _ _ kws) = Inr kws"
| "attr_keywords _ = Inl (Uncaught (AttributeError ''keywords''))"

fun is_str_const :: "expr \<Rightarrow> bool" where
  "is_str_const (Constant _ (CStr _)) = True"
| "is_str_const _ = False"

fun str_const :: "expr \<Rightarrow> string option" where
  "str_const (Constant _ (CStr s)) = Some s"
| "str_const _ = None"

fun int_const :: "expr \<Rightarrow> int option" where
  "int_const (Constant _ (CInt i)) = Some i"
| "int_const _ = None"

definition no_keywords :: "string \<Rightarrow> expr \<Rightarrow> string \<Rightarrow> unit xres" where
  "no_keywords path call what =
     (case call of
        Call _ _ _ kws \<Rightarrow>
          raise_if (kws \<noteq> [])
            (xmix_error (Some (loc path call)) (what @ '' does not accept keyword arguments''))
      | _ \<Rightarrow> Inl (xmix_error (Some (loc path call)) (what @ '' must be a (...) call'')))"

fun expect_name_list :: "string \<Rightarrow> string \<Rightarrow> expr list \<Rightarrow> string list xres" where
  "expect_name_list path what [] = Inr []"
| "expect_name_list path what (Name _ i # rest) =
     bindE (expect_name_list path what rest) (\<lambda>names. Inr (i # names))"
| "expect_name_list path what (arg # rest) =
     Inl (xmix_error (Some (loc path arg))
       (what @ '' argument must be a registry symbol name, not a literal''))"

definition expect_name_args :: "string \<Rightarrow> expr \<Rightarrow> string \<Rightarrow> string list xres" where
  "expect_name_args path call what =
     bindE (no_keywords path call what) (\<lambda>_.
     bindE (attr_args call) (expect_name_list path what))"

definition expect_int_elts :: "string \<Rightarrow> string \<Rightarrow> expr list \<Rightarrow> int list xres" where
  "expect_int_elts path what =
     mapE (\<lambda>el. of_option
       (xmix_error (Some (loc path el)) (what @ '' list elements must be ints'')) (int_const el))"

definition expect_int_list :: "string \<Rightarrow> expr \<Rightarrow> string \<Rightarrow> int list xres" where
  "expect_int_list path call what =
     bindE (no_keywords path call what) (\<lambda>_.
     bindE (attr_args call) (\<lambda>args.
       case args of
         [ListE _ elts] \<Rightarrow>
           bindE (expect_int_elts path what elts) (\<lambda>items.
           bindE (raise_if (items = [])
             (xmix_error (Some (loc path call)) (what @ '' list must not be empty''))) (\<lambda>_.
           Inr items))
       | _ \<Rightarrow> Inl (xmix_error (Some (loc path call))
                    (what @ '' expects a single list of ints''))))"

text \<open>\<open>range(lo, stop, step)\<close> for a positive step.\<close>

definition py_range :: "int \<Rightarrow> int \<Rightarrow> int \<Rightarrow> int list" where
  "py_range lo stop step =
     (if stop \<le> lo then []
      else map (\<lambda>k. lo + int k * step) [0..<nat ((stop - lo - 1) div step + 1)])"

definition layers_from_slice :: "string \<Rightarrow> expr \<Rightarrow> expr \<Rightarrow> string \<Rightarrow> int list xres" where
  "layers_from_slice path sub sl what =
     (case sl of
        Slice _ (Some lower) (Some upper) st \<Rightarrow>
          (case (int_const lower, int_const upper) of
             (Some lo, Some hi) \<Rightarrow>
               bindE (case st of
                        None \<Rightarrow> Inr 1
                      | Some s \<Rightarrow>
                          (case int_const s of
                             Some k \<Rightarrow>
                               if k \<le> 0 then Inl (xmix_error (Some (loc path sub))
                                 (what @ '' range step must be a positive int''))
                               else Inr k
                           | None \<Rightarrow> Inl (xmix_error (Some (loc path sub))
                               (what @ '' range step must be a positive int'')))) (\<lambda>step.
               bindE (raise_if (hi < lo)
                 (xmix_error (Some (loc path sub))
                   (what @ '' range upper ('' @ show_int hi @ '') must be >= lower (''
                    @ show_int lo @ '')''))) (\<lambda>_.
               Inr (py_range lo (hi + 1) step)))
           | _ \<Rightarrow> Inl (xmix_error (Some (loc path sub))
                        (what @ '' range bounds must be int literals'')))
      | _ \<Rightarrow> Inl (xmix_error (Some (loc path sub))
                   (what @ '' range must be [lo:hi] with both bounds, e.g. [15:23]'')))"

text \<open>The layer forms: \<open>.layer[15:23]\<close>, \<open>.layer([1, 2])\<close> and \<open>.layer("all")\<close>.\<close>

definition expect_layers :: "string \<Rightarrow> expr \<Rightarrow> string \<Rightarrow> (int list \<times> bool) xres" where
  "expect_layers path link what =
     (case link of
        Subscript _ _ sl \<Rightarrow>
          bindE (layers_from_slice path link sl what) (\<lambda>ls. Inr (ls, False))
      | _ \<Rightarrow>
          bindE (no_keywords path link what) (\<lambda>_.
          bindE (attr_args link) (\<lambda>args.
            case args of
              [arg] \<Rightarrow>
                (case str_const arg of
                   Some s \<Rightarrow>
                     if s \<noteq> ''all''
                     then Inl (xmix_error_alts (Some (loc path arg))
                            (what @ '' string must be '' @ dq @ ''all'' @ dq) [''all''])
                     else Inr ([], True)
                 | None \<Rightarrow>
                     bindE (expect_int_list path link what) (\<lambda>ls. Inr (ls, False)))
            | _ \<Rightarrow> Inl (xmix_error (Some (loc path link))
                         (what @ '' expects [lo:hi], a list of ints, or '' @ dq @ ''all'' @ dq)))))"

definition expect_str :: "string \<Rightarrow> expr \<Rightarrow> string \<Rightarrow> string xres" where
  "expect_str path call what =
     bindE (no_keywords path call what) (\<lambda>_.
     bindE (attr_args call) (\<lambda>args.
       case args of
         [Constant _ (CStr s)] \<Rightarrow> Inr s
       | _ \<Rightarrow> Inl (xmix_error (Some (loc path call))
                    (what @ '' expects a single string literal''))))"

definition validate_submodule :: "string \<Rightarrow> expr \<Rightarrow> string xres" where
  "validate_submodule path call =
     bindE (expect_str path call ''.submodule(...)'') (\<lambda>name.
     if name \<notin> set (dict_keys SPEC_submodules)
     then Inl (xmix_error_alts (Some (loc path call))
            (''unknown submodule '' @ q1 name) (dict_keys SPEC_submodules))
     else Inr name)"

section \<open>Statements\<close>

definition resolve_verb :: "string \<Rightarrow> expr \<Rightarrow> string \<Rightarrow> OpKind xres" where
  "resolve_verb path op_call verb =
     (if verb = ''write'' then Inr WRITE
      else if verb = ''read'' then Inr READ
      else Inl (xmix_error_alts (Some (loc path op_call))
             (''unknown op '' @ q1 (''.'' @ verb)) [''write'', ''read'']))"

definition lookup_op :: "string \<Rightarrow> expr \<Rightarrow> string \<Rightarrow> OpSpec xres" where
  "lookup_op path node cls_name =
     of_option (xmix_error_alts (Some (loc path node))
         (''unknown op '' @ q1 cls_name) (dict_keys SPEC_ops))
       (map_of SPEC_ops cls_name)"

definition check_method ::
  "string \<Rightarrow> expr \<Rightarrow> string \<Rightarrow> string \<Rightarrow> string \<Rightarrow> unit xres" where
  "check_method path node cls_name meth expected =
     raise_if (meth \<noteq> expected)
       (xmix_error_alts (Some (loc path node))
         (''unknown method '' @ q1 (''.'' @ meth) @ '' on '' @ cls_name) [expected])"

text \<open>The argument of \<open>m.write(...)\<close>: \<open>(op_name, args, method, instance_expr)\<close>.\<close>

definition parse_op_arg ::
  "string \<Rightarrow> expr \<Rightarrow> (string \<rightharpoonup> string)
    \<Rightarrow> (string \<times> string list \<times> string \<times> string option) xres" where
  "parse_op_arg path op_call class_map =
     bindE (no_keywords path op_call ''.write(...)'') (\<lambda>_.
     bindE (attr_args op_call) (\<lambda>op_args.
       case op_args of
         [arg] \<Rightarrow>
           (case arg of
              Attribute _ val meth \<Rightarrow>
                (case val of
                   Call _ (Name _ cls_name) _ _ \<Rightarrow>
                     bindE (lookup_op path arg cls_name) (\<lambda>spec.
                     bindE (expect_name_args path val cls_name) (\<lambda>args.
                     bindE (raise_if (length args \<noteq> op_arity spec)
                       (xmix_error (Some (loc path val))
                         (cls_name @ '' expects '' @ show_nat (op_arity spec)
                          @ '' arg(s), got '' @ show_nat (length args)))) (\<lambda>_.
                     bindE (check_method path arg cls_name meth (op_method spec)) (\<lambda>_.
                     Inr (cls_name, args, meth, None)))))
                 | _ \<Rightarrow>
                     (case dotted_name val of
                        None \<Rightarrow> Inl (xmix_error (Some (loc path arg))
                          ''op argument must be <Class>(args).<method> or <var>.<method>'')
                      | Some instance_expr \<Rightarrow>
                          (case class_map instance_expr of
                             None \<Rightarrow> Inl (xmix_error (Some (loc path arg))
                               (''cannot resolve class of '' @ q1 instance_expr
                                @ ''; assign it in the preamble as ''
                                @ q1 (instance_expr @ '' = <Class>(...)'')))
                           | Some cls_name \<Rightarrow>
                               bindE (lookup_op path arg cls_name) (\<lambda>spec.
                               bindE (check_method path arg cls_name meth (op_method spec)) (\<lambda>_.
                               Inr (cls_name, [], meth, Some instance_expr))))))
            | _ \<Rightarrow> Inl (xmix_error (Some (loc path arg))
                         ''op argument must be <Class>(args).<method> or <var>.<method>''))
       | _ \<Rightarrow> Inl (xmix_error (Some (loc path op_call))
                    ''.write(...) expects exactly one argument'')))"

text \<open>The tail \<open>.layer([..]).submodule("..")\<close> of a probe condition: one link.\<close>

definition cond_tail_link ::
  "string \<Rightarrow> string \<times> expr \<Rightarrow> int list option \<times> string option
    \<Rightarrow> (int list option \<times> string option) xres" where
  "cond_tail_link path lnk st =
     (case (lnk, st) of ((attr, link_call), (layers, submodule)) \<Rightarrow>
        if attr = ''layer'' then
          bindE (expect_layers path link_call ''.layer(...)'') (\<lambda>(ls, all).
          bindE (raise_if all (xmix_error (Some (loc path link_call))
            (''cond .layer does not support '' @ dq @ ''all'' @ dq))) (\<lambda>_.
          Inr (Some ls, submodule)))
        else if attr = ''submodule'' then
          bindE (validate_submodule path link_call) (\<lambda>sub. Inr (layers, Some sub))
        else Inl (xmix_error_alts (Some (loc path link_call))
               (''unknown cond method '' @ q1 (''.'' @ attr)) COND_METHODS))"

definition cond_missing_layer :: string where
  "cond_missing_layer = ''.cond missing .layer([...])''"

definition cond_missing_submodule :: string where
  "cond_missing_submodule = ''.cond missing .submodule('' @ dq @ ''...'' @ dq @ '')''"

definition parse_cond_tail ::
  "string \<Rightarrow> expr \<Rightarrow> (string \<times> expr) list \<Rightarrow> (int list \<times> string) xres" where
  "parse_cond_tail path cond_call links =
     bindE (foldE (cond_tail_link path) links (None, None)) (\<lambda>(layers, submodule).
     bindE (of_option (xmix_error (Some (loc path cond_call)) cond_missing_layer) layers) (\<lambda>ls.
     bindE (of_option (xmix_error (Some (loc path cond_call)) cond_missing_submodule)
       submodule) (\<lambda>sub.
     Inr (ls, sub))))"

text \<open>The probe-class form \<open>LinearProbe.biggerThan(a, b).layer([..]).submodule("..")\<close>;
  the caller passes at least one link.\<close>

definition parse_cond_probe ::
  "string \<Rightarrow> expr \<Rightarrow> string \<Rightarrow> (string \<times> expr) list \<Rightarrow> CondClause xres" where
  "parse_cond_probe path cond_call p_op links =
     bindE (dict_index SPEC_cond_ops p_op) (\<lambda>cspec.
     case links of
       [] \<Rightarrow> Inl (Uncaught IndexError)
     | (cmp_op, compare_call) # tail \<Rightarrow>
         bindE (of_option (xmix_error_alts (Some (loc path compare_call))
             (''unknown compare op '' @ q1 (''.'' @ cmp_op) @ '' on '' @ p_op)
             (dict_keys (compares cspec)))
           (map_of (compares cspec) cmp_op)) (\<lambda>compare_spec.
         bindE (expect_name_args path compare_call (p_op @ ''.'' @ cmp_op)) (\<lambda>args.
         bindE (raise_if (length args \<noteq> cmp_arity compare_spec)
           (xmix_error (Some (loc path compare_call))
             (p_op @ ''.'' @ cmp_op @ '' expects '' @ show_nat (cmp_arity compare_spec)
              @ '' arg(s), got '' @ show_nat (length args)))) (\<lambda>_.
         bindE (parse_cond_tail path cond_call tail) (\<lambda>(ls, sub).
         Inr ((CondClause_defaults ls sub (loc path cond_call))
               \<lparr> probe_op := Some p_op, compare_op := Some cmp_op, c_args := args \<rparr>))))))"

definition is_model_sentinel :: "expr \<Rightarrow> bool" where
  "is_model_sentinel link \<longleftrightarrow>
     (case link of
        Call _ _ [Constant _ (CStr s)] [] \<Rightarrow> s = ''model''
      | _ \<Rightarrow> False)"

text \<open>The tail of a gates condition: state \<open>(layers, submodule, model_level)\<close>.\<close>

definition inst_tail_link ::
  "string \<Rightarrow> string \<times> expr \<Rightarrow> int list option \<times> string option \<times> bool
    \<Rightarrow> (int list option \<times> string option \<times> bool) xres" where
  "inst_tail_link path lnk st =
     (case (lnk, st) of ((attr, link_call), (layers, submodule, mlevel)) \<Rightarrow>
        if attr = ''layer'' then
          if is_model_sentinel link_call then Inr (Some [], submodule, True)
          else
            bindE (expect_layers path link_call ''.layer(...)'') (\<lambda>(ls, all).
            bindE (raise_if all (xmix_error (Some (loc path link_call))
              (''cond .layer does not support '' @ dq @ ''all'' @ dq))) (\<lambda>_.
            Inr (Some ls, submodule, mlevel)))
        else if attr = ''submodule'' then
          bindE (validate_submodule path link_call) (\<lambda>sub. Inr (layers, Some sub, mlevel))
        else Inl (xmix_error_alts (Some (loc path link_call))
               (''unknown cond method '' @ q1 (''.'' @ attr)) COND_METHODS))"

definition parse_cond_instance_tail ::
  "string \<Rightarrow> expr \<Rightarrow> (string \<times> expr) list \<Rightarrow> (int list \<times> string \<times> bool) xres" where
  "parse_cond_instance_tail path cond_call links =
     bindE (foldE (inst_tail_link path) links (None, None, False))
       (\<lambda>(layers, submodule, mlevel).
     if mlevel then
       (if submodule \<noteq> None
        then Inl (xmix_error (Some (loc path cond_call))
               (''.layer('' @ dq @ ''model'' @ dq
                @ '') (model scope) does not take a .submodule(...)''))
        else Inr ([], [], True))
     else
       bindE (of_option (xmix_error (Some (loc path cond_call)) cond_missing_layer) layers) (\<lambda>ls.
       bindE (of_option (xmix_error (Some (loc path cond_call)) cond_missing_submodule)
         submodule) (\<lambda>sub.
       Inr (ls, sub, False))))"

text \<open>The keyword arguments \<open>via=\<close> and \<open>kind=\<close> of \<open>.gates(...)\<close>; Python's f-string prints
  a missing keyword name (\<open>**kwargs\<close>) as \<open>None\<close>.\<close>

definition gates_keyword ::
  "string \<Rightarrow> expr \<Rightarrow> keyword \<Rightarrow> string option \<times> string option
    \<Rightarrow> (string option \<times> string option) xres" where
  "gates_keyword path gate_call kw st =
     (case (kw, st) of (Keyword arg v, (pfn, pkind)) \<Rightarrow>
        if arg = Some ''via'' \<and> is_str_const v then Inr (str_const v, pkind)
        else if arg = Some ''kind'' \<and> is_str_const v then Inr (pfn, str_const v)
        else Inl (xmix_error (Some (loc path gate_call))
               (''.gates(...) accepts only via=/kind= string kwargs, got ''
                @ q1 (case arg of None \<Rightarrow> ''None'' | Some a \<Rightarrow> a))))"

text \<open>The gates form \<open><var>.gates("buffer"[, via=, kind=])...\<close>; the caller passes at least
  one link.  The call's \<open>args\<close> are read without a test that the link is a call.\<close>

definition parse_cond_instance ::
  "string \<Rightarrow> expr \<Rightarrow> string \<Rightarrow> (string \<times> expr) list \<Rightarrow> string \<Rightarrow> CondClause xres" where
  "parse_cond_instance path cond_call inst links ccls =
     bindE (of_option (xmix_error_alts (Some (loc path cond_call))
         (q1 inst @ '' is a '' @ ccls @ '', which is not a registered cond instance'')
         (dict_keys SPEC_cond_instances))
       (map_of SPEC_cond_instances ccls)) (\<lambda>cspec.
     case links of
       [] \<Rightarrow> Inl (Uncaught IndexError)
     | (verb, gate_call) # tail \<Rightarrow>
         bindE (raise_if (verb \<noteq> ''gates'')
           (xmix_error_alts (Some (loc path gate_call))
             (''unknown cond method '' @ q1 (''.'' @ verb) @ '' on instance '' @ q1 inst)
             [''gates''])) (\<lambda>_.
         bindE (attr_args gate_call) (\<lambda>gargs.
         bindE (case gargs of
                  [Constant _ (CStr b)] \<Rightarrow> Inr b
                | _ \<Rightarrow> Inl (xmix_error (Some (loc path gate_call))
                             ''.gates(...) expects a single buffer-name string'')) (\<lambda>buffer.
         bindE (attr_keywords gate_call) (\<lambda>kws.
         bindE (foldE (gates_keyword path gate_call) kws (None, None)) (\<lambda>(pfn, pkind).
         bindE (parse_cond_instance_tail path cond_call tail) (\<lambda>(ls, sub, mlevel).
         bindE (raise_if (mlevel \<and> ci_scope cspec \<noteq> ''model'')
           (xmix_error (Some (loc path cond_call))
             (ccls @ '' is a per-layer condition; .layer('' @ dq @ ''model'' @ dq
              @ '') is only for model-scope conditions''))) (\<lambda>_.
         bindE (raise_if (\<not> mlevel \<and> ci_scope cspec = ''model'')
           (xmix_error (Some (loc path cond_call))
             (ccls @ '' runs at model scope; use .layer('' @ dq @ ''model'' @ dq
              @ '') (no .submodule)''))) (\<lambda>_.
         Inr ((CondClause_defaults ls sub (loc path cond_call))
               \<lparr> c_instance_expr := Some inst, cond_cls := Some ccls,
                 c_method := ci_method cspec, gate_buffer := Some buffer,
                 plug_fn := pfn, plug_kind := pkind, model_level := mlevel \<rparr>))))))))))"

definition parse_cond ::
  "string \<Rightarrow> expr \<Rightarrow> (string \<rightharpoonup> string) \<Rightarrow> CondClause xres" where
  "parse_cond path cond_call class_map =
     bindE (no_keywords path cond_call ''.cond(...)'') (\<lambda>_.
     bindE (attr_args cond_call) (\<lambda>args.
       case args of
         [arg] \<Rightarrow>
           if \<not> is_call arg
           then Inl (xmix_error (Some (loc path cond_call))
                  ''.cond(...) expects one chained expression'')
           else
             (case flatten_chain arg of (base, links) \<Rightarrow>
                if links = []
                then Inl (xmix_error (Some (loc path cond_call)) ''empty .cond expression'')
                else
                  (case base of
                     Name _ i \<Rightarrow>
                       if i \<in> set (dict_keys SPEC_cond_ops)
                       then parse_cond_probe path cond_call i links
                       else
                         (case class_map i of
                            Some ccls \<Rightarrow> parse_cond_instance path cond_call i links ccls
                          | None \<Rightarrow> Inl (xmix_error_alts (Some (loc path base))
                              (''unknown cond op '' @ q1 i) (dict_keys SPEC_cond_ops)))
                   | _ \<Rightarrow>
                       (case dotted_name base of
                          Some inst \<Rightarrow>
                            (case class_map inst of
                               Some ccls \<Rightarrow> parse_cond_instance path cond_call inst links ccls
                             | None \<Rightarrow> Inl (xmix_error (Some (loc path cond_call))
                                 (''cond instance '' @ q1 inst
                                  @ '' is not built in the preamble; assign it as ''
                                  @ q1 (inst @ '' = <Class>(...)''))))
                        | None \<Rightarrow> Inl (xmix_error (Some (loc path cond_call))
                            ''.cond expression must start with a probe class or a prebuilt instance''))))
       | _ \<Rightarrow> Inl (xmix_error (Some (loc path cond_call))
                    ''.cond(...) expects one chained expression'')))"

text \<open>The loop over the links after the head op.  The state mirrors the local variables of
  \<open>_parse_statement\<close>: layers, all_layers, seen_layers, submodule, cond.\<close>

type_synonym stmt_state =
  "int list \<times> bool \<times> bool \<times> string option \<times> CondClause option"

definition stmt_link ::
  "string \<Rightarrow> (string \<rightharpoonup> string) \<Rightarrow> string \<times> expr \<Rightarrow> stmt_state \<Rightarrow> stmt_state xres" where
  "stmt_link path class_map lnk st =
     (case (lnk, st) of ((attr, link_call), (layers, all, seen, submodule, cond)) \<Rightarrow>
        if attr = ''layer'' \<or> attr = ''layers'' then
          bindE (expect_layers path link_call (''.'' @ attr @ ''(...)'')) (\<lambda>(ls, al).
          Inr (ls, al, True, submodule, cond))
        else if attr = ''submodule'' then
          bindE (validate_submodule path link_call) (\<lambda>sub.
          Inr (layers, all, seen, Some sub, cond))
        else if attr = ''cond'' then
          bindE (parse_cond path link_call class_map) (\<lambda>c.
          Inr (layers, all, seen, submodule, Some c))
        else Inl (xmix_error_alts (Some (loc path link_call))
               (''unknown method '' @ q1 (''.'' @ attr)) STMT_METHODS))"

definition parse_statement ::
  "string \<Rightarrow> expr \<Rightarrow> (string \<rightharpoonup> string) \<Rightarrow> Statement xres" where
  "parse_statement path call class_map =
     (case flatten_chain call of (base, links) \<Rightarrow>
        bindE (raise_if (\<not> (case base of Name _ i \<Rightarrow> i = ''m'' | _ \<Rightarrow> False))
          (xmix_error (Some (loc path call)) (''statement must start with '' @ q1 ''m''))) (\<lambda>_.
        case links of
          [] \<Rightarrow> Inl (xmix_error (Some (loc path call)) ''empty statement'')
        | (verb, op_call) # rest \<Rightarrow>
            bindE (resolve_verb path op_call verb) (\<lambda>op_kind.
            bindE (parse_op_arg path op_call class_map) (\<lambda>(name, args, meth, inst).
            bindE (foldE (stmt_link path class_map) rest ([], False, False, None, None))
              (\<lambda>(layers, all, seen, submodule, cond).
            bindE (raise_if (\<not> seen)
              (xmix_error (Some (loc path call)) ''statement missing .layers([...])'')) (\<lambda>_.
            bindE (of_option (xmix_error (Some (loc path call))
              (''statement missing .submodule('' @ dq @ ''...'' @ dq @ '')'')) submodule) (\<lambda>sub.
            Inr \<lparr> s_op = op_kind, op_name = name, s_args = args, s_method = meth,
                  s_layers = layers, s_submodule = sub, s_cond = cond,
                  s_loc = loc path call, s_instance_expr = inst, all_layers = all \<rparr>)))))))"

section \<open>Raw-line scans\<close>

text \<open>\<open>enumerate(src.splitlines(), start=1)\<close>, each line stripped.\<close>

definition numbered_lines :: "string \<Rightarrow> (nat \<times> string) list" where
  "numbered_lines src = (let ls = splitlines src in zip [1..<Suc (length ls)] (map strip ls))"

text \<open>\<open>^#\s*<word>\s*:\s*\<close>: the common head of the pragmas; the rest of the line.\<close>

definition match_pragma :: "string \<Rightarrow> string \<Rightarrow> string option" where
  "match_pragma word s =
     (case match_lit ''#'' s of
        None \<Rightarrow> None
      | Some s1 \<Rightarrow>
          (case match_lit word (lstrip s1) of
             None \<Rightarrow> None
           | Some s2 \<Rightarrow> map_option lstrip (match_lit '':'' (lstrip s2))))"

text \<open>\<open>_MODEL_RE\<close>: \<open>^#\s*model\s*:\s*(\S+)\<close>.\<close>

definition MODEL_RE :: "string \<Rightarrow> string option" where
  "MODEL_RE s =
     (case match_pragma ''model'' s of
        None \<Rightarrow> None
      | Some r \<Rightarrow> map_option fst (match_token r))"

definition scan_model_line ::
  "string \<Rightarrow> nat \<times> string \<Rightarrow> string option \<Rightarrow> string option xres" where
  "scan_model_line path ln found =
     (case MODEL_RE (snd ln) of
        None \<Rightarrow> Inr found
      | Some name \<Rightarrow>
          if name \<notin> set (dict_keys SPEC_models)
          then Inl (xmix_error_alts (Some (line_loc path (fst ln)))
                 (''unknown model '' @ q1 name) (dict_keys SPEC_models))
          else
            (case found of
               Some f \<Rightarrow>
                 if f \<noteq> name
                 then Inl (xmix_error (Some (line_loc path (fst ln)))
                        (''conflicting #model: pragmas ('' @ q1 f @ '' vs '' @ q1 name @ '')''))
                 else Inr (Some name)
             | None \<Rightarrow> Inr (Some name)))"

definition scan_model :: "string \<Rightarrow> string \<Rightarrow> string xres" where
  "scan_model src path =
     bindE (foldE (scan_model_line path) (numbered_lines src) None) (\<lambda>found.
     Inr (case found of None \<Rightarrow> SPEC_default_model
                      | Some f \<Rightarrow> if f = [] then SPEC_default_model else f))"

text \<open>\<open>\b\<close> after a word: the end, or a character that is not a word character.\<close>

definition at_boundary :: "string \<Rightarrow> bool" where
  "at_boundary s \<longleftrightarrow> (case s of [] \<Rightarrow> True | c # _ \<Rightarrow> \<not> is_word c)"

text \<open>\<open>_INIT_RE\<close> and \<open>_END_RE\<close>: \<open>^#\s*token_detector\s*:\s*init\b\<close>, and \<open>end\b\<close>.\<close>

definition marker_RE :: "string \<Rightarrow> string \<Rightarrow> bool" where
  "marker_RE word s \<longleftrightarrow>
     (case match_pragma ''token_detector'' s of
        None \<Rightarrow> False
      | Some r \<Rightarrow> (case match_lit word r of None \<Rightarrow> False | Some t \<Rightarrow> at_boundary t))"

definition INIT_RE :: "string \<Rightarrow> bool" where
  "INIT_RE s = marker_RE ''init'' s"

definition END_RE :: "string \<Rightarrow> bool" where
  "END_RE s = marker_RE ''end'' s"

text \<open>One line of \<open>_scan_init_blocks\<close>; the state is \<open>(ranges, open_line)\<close>.\<close>

definition scan_init_line ::
  "string \<Rightarrow> nat \<times> string \<Rightarrow> (nat \<times> nat) list \<times> nat option
    \<Rightarrow> ((nat \<times> nat) list \<times> nat option) xres" where
  "scan_init_line path ln st =
     (case st of (ranges, open_line) \<Rightarrow>
        if INIT_RE (snd ln) then
          (if open_line \<noteq> None
           then Inl (xmix_error (Some (line_loc path (fst ln)))
                  ''#token_detector: init nested inside another init block'')
           else Inr (ranges, Some (fst ln)))
        else if END_RE (snd ln) then
          (case open_line of
             None \<Rightarrow> Inl (xmix_error (Some (line_loc path (fst ln)))
               ''#token_detector: end without a matching #token_detector: init'')
           | Some b \<Rightarrow> Inr (ranges @ [(b, fst ln)], None))
        else Inr (ranges, open_line))"

definition scan_init_blocks :: "string \<Rightarrow> string \<Rightarrow> (nat \<times> nat) list xres" where
  "scan_init_blocks src path =
     bindE (foldE (scan_init_line path) (numbered_lines src) ([], None))
       (\<lambda>(ranges, open_line).
     case open_line of
       Some b \<Rightarrow> Inl (xmix_error (Some (line_loc path b))
         ''#token_detector: init block not closed with #token_detector: end'')
     | None \<Rightarrow> Inr ranges)"

text \<open>A preamble node with its text and its assignment targets.\<close>

type_synonym pre_node = "stmt \<times> string \<times> string list"

definition model_scope :: "string \<Rightarrow> bool" where
  "model_scope cls \<longleftrightarrow>
     (case map_of SPEC_cond_instances cls of
        None \<Rightarrow> False
      | Some spec \<Rightarrow> ci_scope spec = ''model'')"

definition block_owners ::
  "nat \<times> nat \<Rightarrow> pre_node list \<Rightarrow> (string \<rightharpoonup> string) \<Rightarrow> string list" where
  "block_owners rng pre_nodes class_map =
     concat (map (\<lambda>(node, text, targets).
       if fst rng < lineno (stmt_pos node) \<and> lineno (stmt_pos node) < snd rng
       then concat (map (\<lambda>t. case class_map t of
                               Some cls \<Rightarrow> if cls \<noteq> [] \<and> model_scope cls then [cls] else []
                             | None \<Rightarrow> []) targets)
       else []) pre_nodes)"

definition resolve_init_block ::
  "string \<Rightarrow> pre_node list \<Rightarrow> (string \<rightharpoonup> string) \<Rightarrow> nat \<times> nat
    \<Rightarrow> (nat \<times> nat \<times> string) xres" where
  "resolve_init_block path pre_nodes class_map rng =
     (case block_owners rng pre_nodes class_map of
        [] \<Rightarrow> Inl (xmix_error (Some (line_loc path (fst rng)))
          (''#token_detector: init block must construct a model-scope ''
           @ ''instance (e.g. EOLTokenDetector)''))
      | [c] \<Rightarrow> Inr (fst rng, snd rng, c)
      | owners \<Rightarrow> Inl (xmix_error (Some (line_loc path (fst rng)))
          (''#token_detector: init block builds multiple model-scope ''
           @ ''instances '' @ show_str_list owners @ ''; use one block each'')))"

definition resolve_init_blocks ::
  "string \<Rightarrow> (nat \<times> nat) list \<Rightarrow> pre_node list \<Rightarrow> (string \<rightharpoonup> string)
    \<Rightarrow> (nat \<times> nat \<times> string) list xres" where
  "resolve_init_blocks path ranges pre_nodes class_map =
     mapE (resolve_init_block path pre_nodes class_map) ranges"

fun owner_cls :: "nat \<Rightarrow> (nat \<times> nat \<times> string) list \<Rightarrow> string option" where
  "owner_cls n [] = None"
| "owner_cls n ((b, e, cls) # rest) = (if b < n \<and> n < e then Some cls else owner_cls n rest)"

section \<open>Preamble constructions\<close>

datatype schema_lookup = NOT_SPEC | Schema "arg_schema option"

definition find_arg_schema :: "string \<Rightarrow> schema_lookup" where
  "find_arg_schema cls_name =
     (case map_of SPEC_ops cls_name of
        Some op \<Rightarrow> Schema (op_arg_schema op)
      | None \<Rightarrow>
          (case map_of SPEC_cond_instances cls_name of
             Some inst \<Rightarrow> Schema (ci_args inst)
           | None \<Rightarrow> NOT_SPEC))"

text \<open>The loop over the keyword arguments of a construction; the state is the dict
  \<open>provided\<close>.\<close>

definition provide_keyword ::
  "string \<Rightarrow> string \<Rightarrow> expr \<Rightarrow> string \<Rightarrow> arg_schema \<Rightarrow> keyword
    \<Rightarrow> (string \<rightharpoonup> string) \<Rightarrow> (string \<rightharpoonup> string) xres" where
  "provide_keyword path src call cls_name schema kw provided =
     (case kw of Keyword arg v \<Rightarrow>
        (case arg of
           None \<Rightarrow> Inl (xmix_error (Some (loc path call))
             (cls_name @ '': **kwargs is not supported''))
         | Some k \<Rightarrow>
             if k \<notin> set (dict_keys schema)
             then Inl (xmix_error_alts (Some (loc path v))
                    (''unknown argument '' @ q1 k @ '' for '' @ cls_name) (dict_keys schema))
             else if provided k \<noteq> None
             then Inl (xmix_error (Some (loc path v))
                    (cls_name @ '': argument '' @ q1 k @ '' given twice''))
             else Inr (provided(k \<mapsto> get_source_segment src (expr_pos v)))))"

definition provided_positional ::
  "string \<Rightarrow> arg_schema \<Rightarrow> expr list \<Rightarrow> (string \<rightharpoonup> string)" where
  "provided_positional src schema args =
     fold (\<lambda>(k, a) m. m(k \<mapsto> get_source_segment src (expr_pos a)))
       (zip (dict_keys schema) args) Map.empty"

definition missing_args :: "arg_schema \<Rightarrow> (string \<rightharpoonup> string) \<Rightarrow> string list" where
  "missing_args schema provided =
     map fst (filter (\<lambda>(k, d). d = None \<and> provided k = None) schema)"

definition construction_parts :: "arg_schema \<Rightarrow> (string \<rightharpoonup> string) \<Rightarrow> string list" where
  "construction_parts schema provided =
     map (\<lambda>(k, d). k @ ''='' @
            (case provided k of
               Some v \<Rightarrow> v
             | None \<Rightarrow> (case d of Some e \<Rightarrow> e | None \<Rightarrow> ''None''))) schema"

definition check_construction ::
  "string \<Rightarrow> stmt \<Rightarrow> string \<Rightarrow> expr list \<Rightarrow> expr \<Rightarrow> string \<Rightarrow> expr list \<Rightarrow> keyword list
    \<Rightarrow> arg_schema \<Rightarrow> string option xres" where
  "check_construction path node src targets call cls_name args kws schema =
     bindE (raise_if (length args > length schema)
       (xmix_error (Some (loc path call))
         (cls_name @ '' takes at most '' @ show_nat (length schema) @ '' positional args'')))
       (\<lambda>_.
     bindE (foldE (provide_keyword path src call cls_name schema) kws
              (provided_positional src schema args)) (\<lambda>provided.
     bindE (raise_if (missing_args schema provided \<noteq> [])
       (xmix_error (Some (loc path call))
         (cls_name @ '': missing required argument(s): ''
          @ join '', '' (missing_args schema provided)))) (\<lambda>_.
     if (\<forall>k \<in> set (dict_keys schema). provided k \<noteq> None) then Inr None
     else
       (case targets of
          [t] \<Rightarrow> Inr (Some (get_source_segment src (expr_pos t) @ '' = '' @ cls_name @ ''(''
                   @ join '', '' (construction_parts schema provided) @ '')''))
        | _ \<Rightarrow> Inl (xmix_error (Some (stmt_loc path node))
            (cls_name @ '': cannot inject defaults into a multi-target assignment''))))))"

definition validate_construction :: "string \<Rightarrow> stmt \<Rightarrow> string \<Rightarrow> string option xres" where
  "validate_construction path node src =
     (case node of
        Assign _ targets val \<Rightarrow>
          (case val of
             Call _ (Name _ cls_name) args kws \<Rightarrow>
               (case find_arg_schema cls_name of
                  NOT_SPEC \<Rightarrow> Inr None
                | Schema None \<Rightarrow> Inl (xmix_error (Some (loc path val))
                    (q1 cls_name @ '' is a known xmix class but has no args schema in ''
                     @ ''SPEC; add one so its construction can be validated''))
                | Schema (Some schema) \<Rightarrow>
                    check_construction path node src targets val cls_name args kws schema)
           | _ \<Rightarrow> Inr None)
      | _ \<Rightarrow> Inr None)"

definition is_m_statement :: "stmt \<Rightarrow> bool" where
  "is_m_statement node \<longleftrightarrow>
     (case node of
        ExprStmt _ v \<Rightarrow>
          is_call v \<and> (case fst (flatten_chain v) of Name _ i \<Rightarrow> i = ''m'' | _ \<Rightarrow> False)
      | _ \<Rightarrow> False)"

definition collect_assignment :: "stmt \<Rightarrow> (string \<rightharpoonup> string) \<Rightarrow> (string \<rightharpoonup> string)" where
  "collect_assignment node class_map =
     (case node of
        Assign _ targets (Call _ (Name _ cls) _ _) \<Rightarrow>
          fold (\<lambda>t m. case dotted_name t of Some n \<Rightarrow> m(n \<mapsto> cls) | None \<Rightarrow> m)
            targets class_map
      | _ \<Rightarrow> class_map)"

definition segment_targets :: "stmt \<Rightarrow> string list" where
  "segment_targets node =
     (case node of
        Assign _ targets _ \<Rightarrow> List.map_filter dotted_name targets
      | _ \<Rightarrow> [])"

section \<open>The whole file\<close>

text \<open>The first pass over \<open>tree.body\<close>; the state is \<open>(class_map, stmt_nodes, pre_nodes)\<close>.\<close>

type_synonym pass1 = "(string \<rightharpoonup> string) \<times> expr list \<times> pre_node list"

definition first_pass_node :: "string \<Rightarrow> string \<Rightarrow> stmt \<Rightarrow> pass1 \<Rightarrow> pass1 xres" where
  "first_pass_node path src node st =
     (case st of (class_map, stmt_nodes, pre_nodes) \<Rightarrow>
        if is_m_statement node then
          Inr (class_map,
               stmt_nodes @ (case node of ExprStmt _ v \<Rightarrow> [v] | _ \<Rightarrow> []), pre_nodes)
        else
          bindE (validate_construction path node src) (\<lambda>augmented.
          Inr (collect_assignment node class_map, stmt_nodes,
               pre_nodes @ [(node,
                 (case augmented of
                    Some t \<Rightarrow> t
                  | None \<Rightarrow> get_source_segment src (stmt_pos node)),
                 segment_targets node)])))"

definition parse_tree :: "string \<Rightarrow> string \<Rightarrow> stmt list \<Rightarrow> ParseResult xres" where
  "parse_tree path src body =
     bindE (foldE (first_pass_node path src) body (Map.empty, [], []))
       (\<lambda>(class_map, stmt_nodes, pre_nodes).
     bindE (scan_init_blocks src path) (\<lambda>ranges.
     bindE (resolve_init_blocks path ranges pre_nodes class_map) (\<lambda>range_cls.
     bindE (mapE (\<lambda>call. parse_statement path call class_map) stmt_nodes) (\<lambda>stmts.
     bindE (scan_model src path) (\<lambda>mdl.
     Inr \<lparr> preamble =
             map (\<lambda>(node, text, targets).
                    \<lparr> seg_text = text, seg_targets = targets,
                      block_cls = owner_cls (lineno (stmt_pos node)) range_cls \<rparr>) pre_nodes,
           statements = stmts, model = mdl \<rparr>)))))"

text \<open>The files the compiler sees: a path that cannot be opened has no entry; a file opened in text
  mode is its text, unless its bytes do not decode, and then \<open>f.read()\<close> raises.\<close>

datatype file_text = Decoded string | Undecodable

type_synonym files = "string \<rightharpoonup> file_text"

definition parse_and_validate :: "ast_parser \<Rightarrow> files \<Rightarrow> string \<Rightarrow> ParseResult xres" where
  "parse_and_validate ast_parse fs path =
     (case fs path of
        None \<Rightarrow> Inl (Uncaught (OSError path))
      | Some Undecodable \<Rightarrow> Inl (Uncaught UnicodeDecodeError)
      | Some (Decoded src) \<Rightarrow>
          (case ast_parse src of
             Inl e \<Rightarrow> Inl (xmix_error
               (Some \<lparr> loc_file = path, loc_line = or_one (se_lineno e),
                        loc_col = or_one (se_offset e) - 1 \<rparr>)
               (''invalid Python syntax in xmix file: '' @ se_msg e))
           | Inr body \<Rightarrow> parse_tree path src body))"

end
