(* ===== verification/Xmix_Codegen.thy ===== *)
theory Xmix_Codegen
  imports Xmix_Parser
begin

text \<open>
  Phase B of the xmix compiler (\<open>vllm/activations_extractor/xmix/codegen.py\<close>): lowering of
  the validated statements to Python source text, and the command-line entry point
  (\<open>compile.py\<close>).  The generated text is built line by line exactly as the source does.  The
  two \<open>_Sink\<close> objects and the set \<open>assumed\<close>, which the emitters mutate, are threaded as state.
\<close>

section \<open>Sinks and destinations\<close>

abbreviation ellipsis :: string where
  "ellipsis \<equiv> [CHR 0xE2, CHR 0x80, CHR 0xA6]"

definition MAX_TOKENS :: string where "MAX_TOKENS = ''_max_tokens''"
definition COND_BIAS :: string where "COND_BIAS = ''_cond_bias''"
definition STEERED_TOKENS_NUM :: string where "STEERED_TOKENS_NUM = ''_steered_tokens_num''"
definition INNER_MODEL :: string where "INNER_MODEL = ''self.model.model''"

record Sink =
  sink_lines :: "string list"
  sink_cur :: "(string \<times> string) option"

definition new_sink :: Sink where
  "new_sink = \<lparr> sink_lines = [], sink_cur = None \<rparr>"

record Dest =
  d_label :: string
  d_anchor :: string
  d_file :: string
  d_note :: "string option"

definition apply_tag :: "string \<Rightarrow> string \<Rightarrow> string" where
  "apply_tag file anchor =
     ''# >>> XMIX-APPLY file='' @ file @ '' anchor='' @ anchor @ '' <<<''"

definition sink_to :: "Dest \<Rightarrow> Sink \<Rightarrow> Sink" where
  "sink_to dest s =
     (let key = (d_file dest, d_anchor dest)
      in if sink_cur s = Some key then s
         else \<lparr> sink_lines = sink_lines s
                  @ ['''', apply_tag (d_file dest) (d_anchor dest),
                     ''# >>> DESTINATION: '' @ d_label dest @ '' <<<'']
                  @ (case d_note dest of
                       Some n \<Rightarrow> if n = [] then [] else [''#     (executes at: '' @ n @ '')'']
                     | None \<Rightarrow> []),
                sink_cur = Some key \<rparr>)"

definition sink_add :: "string list \<Rightarrow> Sink \<Rightarrow> Sink" where
  "sink_add ls s = s\<lparr> sink_lines := sink_lines s @ ls \<rparr>"

definition anchor_file :: "string \<Rightarrow> string \<Rightarrow> string xres" where
  "anchor_file mdl anchor =
     bindE (dict_index SPEC_models mdl) (\<lambda>ms. dict_index (anchors ms) anchor)"

definition dest_of :: "string \<Rightarrow> string \<Rightarrow> Dest xres" where
  "dest_of anchor mdl =
     bindE (dict_index SPEC_destinations anchor) (\<lambda>label.
     bindE (anchor_file mdl anchor) (\<lambda>file.
     Inr \<lparr> d_label = label, d_anchor = anchor, d_file = file, d_note = None \<rparr>))"

text \<open>\<open>cspec["key"]\<close> for a key that an entry may lack.\<close>

definition need :: "string \<Rightarrow> 'a option \<Rightarrow> 'a xres" where
  "need k r = of_option (Uncaught (KeyError k)) r"

definition model_dest :: "CondInstSpec \<Rightarrow> string \<Rightarrow> Dest xres" where
  "model_dest cspec mdl =
     bindE (need ''dest_anchor'' (ci_dest_anchor cspec)) (\<lambda>anchor.
     bindE (need ''dest'' (ci_dest cspec)) (\<lambda>label.
     bindE (anchor_file mdl anchor) (\<lambda>file.
     Inr \<lparr> d_label = label, d_anchor = anchor, d_file = file, d_note = ci_run_dest cspec \<rparr>)))"

section \<open>Footprints\<close>

definition cond_flag :: "CondClause \<Rightarrow> string xres" where
  "cond_flag cond =
     (if c_instance_expr cond \<noteq> None
      then bindE (need ''None'' (cond_cls cond)) (\<lambda>cls.
           bindE (dict_index SPEC_cond_instances cls) (\<lambda>cs. Inr (ci_flag cs)))
      else bindE (need ''None'' (probe_op cond)) (\<lambda>p.
           bindE (dict_index SPEC_cond_ops p) (\<lambda>cs. Inr (co_flag cs))))"

definition footprint_tag :: "string \<Rightarrow> string \<Rightarrow> int list \<Rightarrow> bool \<Rightarrow> string" where
  "footprint_tag flag submodule layers all =
     ''# >>> XMIX-FOOTPRINT flag='' @ flag @ '' submodule='' @ submodule
     @ '' layers='' @ (if all then ''all'' else join '','' (map show_int (sort layers)))
     @ '' <<<''"

definition stmt_footprint_tags :: "Statement \<Rightarrow> string list xres" where
  "stmt_footprint_tags stmt =
     bindE (dict_index SPEC_ops (op_name stmt)) (\<lambda>op.
     bindE (case s_cond stmt of
              None \<Rightarrow> Inr []
            | Some cond \<Rightarrow>
                if model_level cond then Inr []
                else bindE (cond_flag cond) (\<lambda>f.
                     Inr [footprint_tag f (c_submodule cond) (c_layers cond) False]))
       (\<lambda>cond_tags.
     Inr (footprint_tag (op_flag op) (s_submodule stmt) (s_layers stmt) (all_layers stmt)
          # cond_tags)))"

definition footprint_tags :: "Statement list \<Rightarrow> string list xres" where
  "footprint_tags stmts = bindE (mapE stmt_footprint_tags stmts) (\<lambda>tags. Inr (concat tags))"

section \<open>Small helpers\<close>

definition cls_name_of :: "string \<Rightarrow> string" where
  "cls_name_of dotted = after_last_dot dotted"

definition tuple_literal :: "int list \<Rightarrow> string" where
  "tuple_literal xs =
     (let inner = join '', '' (map show_int xs)
      in if length xs = 1 then ''('' @ inner @ '',)'' else ''('' @ inner @ '')'')"

text \<open>An optional string inside an f-string.\<close>

definition opt_str :: "string option \<Rightarrow> string" where
  "opt_str x = (case x of None \<Rightarrow> ''None'' | Some s \<Rightarrow> s)"

text \<open>\<open>a or b\<close> on optional strings: the empty string counts as false.\<close>

definition or_opt :: "string option \<Rightarrow> string option \<Rightarrow> string option" where
  "or_opt a b = (case a of Some s \<Rightarrow> if s = [] then b else Some s | None \<Rightarrow> b)"

definition or_str :: "string option \<Rightarrow> string \<Rightarrow> string" where
  "or_str a b = (case a of Some s \<Rightarrow> if s = [] then b else s | None \<Rightarrow> b)"

text \<open>The positional parameters of the \<open>run\<close> methods that the registry names, without
  \<open>self\<close>; \<open>_method_arity\<close> reads them with \<open>inspect.signature\<close>.\<close>

definition SteeringVectorScaledAdder_run_params :: "string list" where
  "SteeringVectorScaledAdder_run_params = [''x'', ''r'', ''steered_tokens_num'']"

definition SteeringVectorAdder_run_params :: "string list" where
  "SteeringVectorAdder_run_params = [''x'', ''r'', ''steered_tokens_num'']"

definition SteeringVectorDotSubtractNormalized_run_params :: "string list" where
  "SteeringVectorDotSubtractNormalized_run_params = [''x'', ''r'', ''steered_tokens_num'']"

definition SteeringLinear_run_params :: "string list" where
  "SteeringLinear_run_params = [''x'', ''r'', ''steered_tokens_num'']"

definition LinearProbe_run_params :: "string list" where
  "LinearProbe_run_params = [''x'']"

definition run_params :: "(string \<times> string list) list" where
  "run_params =
     [(''SteeringVectorScaledAdder'', SteeringVectorScaledAdder_run_params),
      (''SteeringVectorAdder'', SteeringVectorAdder_run_params),
      (''SteeringVectorDotSubtractNormalized'', SteeringVectorDotSubtractNormalized_run_params),
      (''SteeringLinear'', SteeringLinear_run_params),
      (''LinearProbe'', LinearProbe_run_params)]"

text \<open>Every registered method is \<open>run\<close>; another name is reported as a missing attribute.\<close>

definition method_arity :: "string \<Rightarrow> string \<Rightarrow> nat xres" where
  "method_arity op meth =
     bindE (dict_index SPEC_ops op) (\<lambda>spec.
     bindE (of_option (Uncaught (AttributeError (op_cls_path spec)))
       (map_of run_params (cls_name_of (op_cls_path spec)))) (\<lambda>params.
     if meth = ''run'' then Inr (length params)
     else Inl (Uncaught (AttributeError meth))))"

definition extra_arg_exprs :: "string \<Rightarrow> string \<Rightarrow> string list" where
  "extra_arg_exprs op var =
     (if op = ''SteeringVector'' then [var @ ''.r'', STEERED_TOKENS_NUM] else [])"

text \<open>The callable expression installed at a hook site; it may extend \<open>assumed\<close>.\<close>

definition reconcile_expr ::
  "string \<Rightarrow> nat \<Rightarrow> nat \<Rightarrow> string list \<Rightarrow> string set \<Rightarrow> (string \<times> string set) xres" where
  "reconcile_expr method_expr m_arity site_arity extra assumed =
     (if m_arity = site_arity then Inr (method_expr, assumed)
      else
        (let params = map (\<lambda>j. ''_a'' @ show_nat j) [0..<site_arity]
         in if m_arity > site_arity then
              (if length extra \<noteq> m_arity - site_arity
               then Inl (xmix_error None
                      (''cannot adapt '' @ method_expr @ '': site passes ''
                       @ show_nat site_arity @ '' arg(s), method needs '' @ show_nat m_arity
                       @ ''; '' @ show_nat (m_arity - site_arity)
                       @ '' extra expr(s) required but '' @ show_nat (length extra)
                       @ '' provided''))
               else Inr (''lambda '' @ join '', '' params @ '': '' @ method_expr @ ''(''
                         @ join '', '' (params @ extra) @ '')'',
                         assumed \<union> {e \<in> set extra. \<not> startswith e ''_a'' \<and> CHR ''.'' \<notin> set e}))
            else Inr (''lambda '' @ join '', '' params @ '': '' @ method_expr @ ''(''
                      @ join '', '' (take m_arity params) @ '')'', assumed)))"

definition dsl_comment :: "Statement \<Rightarrow> string list" where
  "dsl_comment stmt =
     (let verb = (if s_op stmt = WRITE then ''write'' else ''read'');
          op_part = (case s_instance_expr stmt of
                       Some ie \<Rightarrow> ie @ ''.'' @ s_method stmt
                     | None \<Rightarrow> op_name stmt @ ''('' @ join '', '' (s_args stmt) @ '').'' @ s_method stmt);
          layer_part = (if all_layers stmt then ''.layer('' @ dq @ ''all'' @ dq @ '')''
                        else ''.layers('' @ show_int_list (s_layers stmt) @ '')'');
          head = ''# '' @ loc_file (s_loc stmt) @ '':'' @ show_int (loc_line (s_loc stmt))
                 @ ''  m.'' @ verb @ ''('' @ op_part @ '')'' @ layer_part
                 @ ''.submodule('' @ dq @ s_submodule stmt @ dq @ '')''
      in case s_cond stmt of
           None \<Rightarrow> [head]
         | Some c \<Rightarrow>
             (let cond_expr =
                    (case c_instance_expr c of
                       Some ie \<Rightarrow>
                         ie @ ''.gates('' @ dq @ opt_str (gate_buffer c) @ dq
                         @ (case plug_fn c of None \<Rightarrow> []
                            | Some f \<Rightarrow> '', via='' @ dq @ f @ dq)
                         @ (case plug_kind c of None \<Rightarrow> []
                            | Some k \<Rightarrow> '', kind='' @ dq @ k @ dq) @ '')''
                     | None \<Rightarrow> opt_str (probe_op c) @ ''.'' @ opt_str (compare_op c) @ ''(''
                               @ join '', '' (c_args c) @ '')'');
                  tail = (if model_level c then ''.layer('' @ dq @ ''model'' @ dq @ '')''
                          else ''.layer('' @ show_int_list (c_layers c) @ '').submodule(''
                               @ dq @ c_submodule c @ dq @ '')'')
              in [head, ''#               .cond('' @ cond_expr @ tail @ '')'']))"

section \<open>Emitters\<close>

text \<open>The state of the emission: the setup sink, the install sink and the assumed names.\<close>

record EmitState =
  es_setup :: Sink
  es_install :: Sink
  es_assumed :: "string set"

definition emit_steering_vector_adder ::
  "string \<Rightarrow> string \<Rightarrow> string list \<Rightarrow> nat \<Rightarrow> string list xres" where
  "emit_steering_vector_adder cls_name var args i =
     (case args of
        [] \<Rightarrow> Inl (Uncaught IndexError)
      | src # _ \<Rightarrow>
          (let n = show_nat i; r = ''_r'' @ n; mv = ''_max_vecs'' @ n; h = ''_hidden'' @ n;
               scales = ''_scales'' @ n; vi = ''_vec_indices'' @ n;
               npt = ''_n_vecs_per_token'' @ n
           in Inr
             [r @ '' = '' @ src @ ''.unsqueeze(0) if '' @ src @ ''.ndim == 1 else '' @ src,
              mv @ '', '' @ h @ '' = '' @ r @ ''.shape'',
              scales @ '' = torch.ones(('' @ MAX_TOKENS @ '', '' @ mv @ ''), dtype='' @ r
                @ ''.dtype, device='' @ r @ ''.device)'',
              vi @ '' = torch.arange('' @ mv @ '', dtype=torch.int32, device='' @ r
                @ ''.device).repeat('' @ MAX_TOKENS @ '', 1)'',
              npt @ '' = torch.full(('' @ MAX_TOKENS @ '',), '' @ mv
                @ '', dtype=torch.int32, device='' @ r @ ''.device)'',
              var @ '' = '' @ cls_name @ ''('' @ r @ '', '' @ scales @ '', '' @ vi @ '', ''
                @ npt @ '')'']))"

definition emit_op_build ::
  "OpSpec \<Rightarrow> string \<Rightarrow> string \<Rightarrow> string list \<Rightarrow> nat \<Rightarrow> string list xres" where
  "emit_op_build op_spec cls_name var args i =
     (case build_kind op_spec of
        None \<Rightarrow> Inr [var @ '' = '' @ cls_name @ ''('' @ join '', '' args @ '')'']
      | Some k \<Rightarrow>
          if k = ''steering_vector_adder'' then emit_steering_vector_adder cls_name var args i
          else Inl (Uncaught (KeyError k)))"

definition plug_call :: "string \<Rightarrow> CondClause \<Rightarrow> CondInstSpec \<Rightarrow> string \<Rightarrow> string" where
  "plug_call fn cond cspec target =
     (case or_opt (plug_kind cond) (ci_plug_kind cspec) of
        None \<Rightarrow> fn @ ''(['' @ target @ ''])''
      | Some k \<Rightarrow> fn @ ''('' @ k @ ''=['' @ target @ ''])'')"

definition emit_cond_instance_setup ::
  "CondClause \<Rightarrow> string \<Rightarrow> EmitState \<Rightarrow> string \<Rightarrow> (string \<times> EmitState) xres" where
  "emit_cond_instance_setup cond steer_var st mdl =
     bindE (need ''None'' (cond_cls cond)) (\<lambda>cls.
     bindE (dict_index SPEC_cond_instances cls) (\<lambda>cspec.
     bindE (dest_of ''runner_setup'' mdl) (\<lambda>dest.
     let fn = or_str (plug_fn cond) (ci_plug_fn cspec);
         target = steer_var @ ''.'' @ opt_str (gate_buffer cond);
         inst = opt_str (c_instance_expr cond)
     in Inr (inst @ ''.'' @ c_method cond,
             st\<lparr> es_setup := sink_add
                  [inst @ ''.'' @ plug_call fn cond cspec target
                   @ ''   # gate: '' @ cls @ '' output drives '' @ target]
                  (sink_to dest (es_setup st)) \<rparr>))))"

definition emit_cond_probe_setup ::
  "nat \<Rightarrow> CondClause \<Rightarrow> EmitState \<Rightarrow> string \<Rightarrow> (string \<times> EmitState) xres" where
  "emit_cond_probe_setup i cond st mdl =
     bindE (need ''None'' (probe_op cond)) (\<lambda>p.
     bindE (dict_index SPEC_cond_ops p) (\<lambda>cspec.
     case c_args cond of
       weights # threshold # _ \<Rightarrow>
         bindE (dest_of ''runner_setup'' mdl) (\<lambda>dest.
         let probe_cls = cls_name_of (co_cls_path cspec);
             cmp = opt_str (compare_op cond);
             probe_var = ''lp_'' @ show_nat i; cond_var = ''cond_'' @ show_nat i
         in Inr (cond_var,
              st\<lparr> es_assumed := es_assumed st
                    \<union> {probe_cls, weights, threshold, COND_BIAS, MAX_TOKENS, cmp},
                  es_setup := sink_add
                    [probe_var @ '' = '' @ probe_cls @ ''('' @ weights @ '', '' @ COND_BIAS
                       @ '', '' @ MAX_TOKENS @ '')'',
                     cond_var @ '' = '' @ cmp @ ''('' @ probe_var @ '', '' @ threshold
                       @ '', sv_'' @ show_nat i
                       @ ''.input_map)   # user-defined probs->mask bridge'']
                    (sink_to dest (es_setup st)) \<rparr>))
     | _ \<Rightarrow> Inl (Uncaught IndexError)))"

definition order_error :: "CondClause \<Rightarrow> Statement \<Rightarrow> xmix_exn" where
  "order_error cond stmt =
     xmix_error (Some (c_loc cond))
       (''cond layer(s) '' @ show_int_list (c_layers cond) @ '' must precede steered layer(s) ''
        @ show_int_list (s_layers stmt) @ '' so the mask is populated before use'')"

text \<open>The set-up of a per-layer condition: its layers must precede every steered layer.\<close>

definition emit_cond_setup ::
  "nat \<Rightarrow> Statement \<Rightarrow> CondClause \<Rightarrow> string \<Rightarrow> EmitState \<Rightarrow> string
    \<Rightarrow> (string \<times> EmitState) xres" where
  "emit_cond_setup i stmt cond steer_var st mdl =
     bindE (if s_layers stmt = [] then Inr ()
            else if c_layers cond = [] then Inl (Uncaught (ValueError ''max() of empty''))
            else raise_if (Max (set (c_layers cond)) \<ge> Min (set (s_layers stmt)))
                   (order_error cond stmt)) (\<lambda>_.
     if c_instance_expr cond \<noteq> None then emit_cond_instance_setup cond steer_var st mdl
     else emit_cond_probe_setup i cond st mdl)"

text \<open>\<open>line.format(attr=attr)\<close> for lines whose only replacement field is \<open>{attr}\<close>.\<close>

function format_attr :: "string \<Rightarrow> string \<Rightarrow> string" where
  "format_attr attr s =
     (if s = [] then []
      else if startswith s ''{attr}'' then attr @ format_attr attr (drop 6 s)
      else hd s # format_attr attr (tl s))"
  by pat_completeness auto
termination
  by (relation "measure (\<lambda>(attr, s). length s)") (auto simp: startswith_def)

declare format_attr.simps [simp del]

definition emit_model_run :: "CondClause \<Rightarrow> Sink \<Rightarrow> string \<Rightarrow> Sink xres" where
  "emit_model_run cond setup mdl =
     bindE (need ''None'' (cond_cls cond)) (\<lambda>cls.
     bindE (dict_index SPEC_cond_instances cls) (\<lambda>cspec.
     case ci_run_call cspec of
       None \<Rightarrow> Inr setup
     | Some run_call \<Rightarrow>
         if run_call = [] then Inr setup
         else
           bindE (need ''run_anchor'' (ci_run_anchor cspec)) (\<lambda>anchor.
           bindE (need ''model_attr'' (ci_model_attr cspec)) (\<lambda>attr.
           bindE (anchor_file mdl anchor) (\<lambda>file.
           Inr (sink_add
                  ((''# run '' @ cls @ '' once per forward'') # map (format_attr attr) run_call)
                  (sink_to \<lparr> d_label = ''model file '' @ em_dash @ '' '' @ cls
                               @ ''.forward run-site (in the layer loop)'',
                             d_anchor = anchor, d_file = file, d_note = None \<rparr> setup)))))))"

definition emit_model_cond_install ::
  "CondClause \<Rightarrow> string \<Rightarrow> Sink \<Rightarrow> string \<Rightarrow> Sink xres" where
  "emit_model_cond_install cond steer_var install mdl =
     bindE (need ''None'' (cond_cls cond)) (\<lambda>cls.
     bindE (dict_index SPEC_cond_instances cls) (\<lambda>cspec.
     bindE (need ''model_attr'' (ci_model_attr cspec)) (\<lambda>attr.
     bindE (dest_of ''runner_postload'' mdl) (\<lambda>dest.
     let fn = or_str (plug_fn cond) (ci_plug_fn cspec);
         target = steer_var @ ''.'' @ opt_str (gate_buffer cond);
         run_dest = (case ci_run_dest cspec of None \<Rightarrow> ''model scope'' | Some d \<Rightarrow> d)
     in Inr (sink_add
          [[],
           ''# token-gate: '' @ cls @ '' runs at model scope ('' @ run_dest @ ''); drives '' @ target,
           INNER_MODEL @ ''.'' @ attr @ ''.'' @ plug_call fn cond cspec target]
          (sink_to dest install))))))"

text \<open>The lines of the per-layer install loop for the steering op, as the source adds them.\<close>

definition install_loop_lines ::
  "Statement \<Rightarrow> OpSpec \<Rightarrow> SubmoduleSpec \<Rightarrow> string \<Rightarrow> string list" where
  "install_loop_lines stmt op_spec sub_spec hook_expr =
     [[]] @ dsl_comment stmt
     @ [''# steer '' @ op_name stmt @ '' on ''
          @ (if all_layers stmt then ''ALL layers'' else ''layers '' @ show_int_list (s_layers stmt))
          @ '' at '' @ q1 (s_submodule stmt) @ '' (flag '' @ q1 (op_flag op_spec) @ '')'',
        ''for layer in '' @ INNER_MODEL @ ''.layers:'']
     @ (if all_layers stmt
        then [''    layer.'' @ setter sub_spec @ ''('' @ hook_expr @ '', '' @ dq
                @ op_flag op_spec @ dq @ '')'']
        else [''    idx = layer.self_attn.layer_idx'',
              ''    if idx in '' @ tuple_literal (s_layers stmt) @ '':'',
              ''        layer.'' @ setter sub_spec @ ''('' @ hook_expr @ '', '' @ dq
                @ op_flag op_spec @ dq @ '')''])"

text \<open>The lines that install a per-layer condition, inside the same loop.\<close>

definition install_cond_lines :: "CondClause \<Rightarrow> SubmoduleSpec \<Rightarrow> string \<Rightarrow> string \<Rightarrow> string list" where
  "install_cond_lines cond cond_sub cond_var flag =
     [''    if idx in '' @ tuple_literal (c_layers cond) @ '':'',
      ''        layer.'' @ setter cond_sub @ ''('' @ cond_var @ '', '' @ dq @ flag @ dq @ '')'']"

text \<open>SETUP of a statement: the steerer's variable, and the construction of a synthesized op.\<close>

definition emit_steerer ::
  "nat \<Rightarrow> Statement \<Rightarrow> OpSpec \<Rightarrow> EmitState \<Rightarrow> string \<Rightarrow> (string \<times> EmitState) xres" where
  "emit_steerer i stmt op_spec st mdl =
     (case s_instance_expr stmt of
        Some ie \<Rightarrow> Inr (ie, st)
      | None \<Rightarrow>
          (let cls_name = cls_name_of (op_cls_path op_spec); steer_var = ''sv_'' @ show_nat i
           in bindE (dest_of ''runner_setup'' mdl) (\<lambda>dest.
              bindE (emit_op_build op_spec cls_name steer_var (s_args stmt) i) (\<lambda>build.
              Inr (steer_var,
                   st\<lparr> es_assumed := es_assumed st \<union> {cls_name} \<union> set (s_args stmt),
                       es_setup := sink_add build (sink_to dest (es_setup st)) \<rparr>)))))"

definition emit_statement ::
  "nat \<Rightarrow> Statement \<Rightarrow> EmitState \<Rightarrow> string \<Rightarrow> EmitState xres" where
  "emit_statement i stmt st mdl =
     bindE (dict_index SPEC_ops (op_name stmt)) (\<lambda>op_spec.
     bindE (dict_index SPEC_submodules (s_submodule stmt)) (\<lambda>sub_spec.
     bindE (emit_steerer i stmt op_spec st mdl) (\<lambda>(steer_var, st1).
     bindE (case s_cond stmt of
              None \<Rightarrow> Inr ([], st1)
            | Some cond \<Rightarrow>
                if \<not> model_level cond then emit_cond_setup i stmt cond steer_var st1 mdl
                else bindE (emit_model_run cond (es_setup st1) mdl) (\<lambda>setup.
                     Inr ([], st1\<lparr> es_setup := setup \<rparr>))) (\<lambda>(cond_var, st2).
     bindE (method_arity (op_name stmt) (op_method op_spec)) (\<lambda>m_arity.
     bindE (reconcile_expr (steer_var @ ''.'' @ op_method op_spec) m_arity
              (if op_flag op_spec = ''w'' then write_arity sub_spec else read_arity sub_spec)
              (extra_arg_exprs (op_name stmt) steer_var) (es_assumed st2))
       (\<lambda>(hook_expr, assumed).
     bindE (dest_of ''runner_postload'' mdl) (\<lambda>dest.
     let install = sink_add (install_loop_lines stmt op_spec sub_spec hook_expr)
                     (sink_to dest (es_install st2))
     in bindE (case s_cond stmt of
                 None \<Rightarrow> Inr install
               | Some cond \<Rightarrow>
                   if model_level cond then emit_model_cond_install cond steer_var install mdl
                   else
                     bindE (dict_index SPEC_submodules (c_submodule cond)) (\<lambda>cond_sub.
                     bindE (cond_flag cond) (\<lambda>flag.
                     Inr (sink_add (install_cond_lines cond cond_sub cond_var flag) install))))
          (\<lambda>install'.
        Inr (st2\<lparr> es_install := install', es_assumed := assumed \<rparr>)))))))))"

section \<open>generate and compile\<close>

definition model_bound :: "Statement list \<Rightarrow> (string \<rightharpoonup> string option)" where
  "model_bound stmts =
     fold (\<lambda>s m. case s_cond s of
                   None \<Rightarrow> m
                 | Some c \<Rightarrow>
                     (case c_instance_expr c of
                        None \<Rightarrow> m
                      | Some ie \<Rightarrow> if model_level c \<and> ie \<noteq> [] then m(ie \<mapsto> cond_cls c) else m))
       stmts Map.empty"

text \<open>\<open>seg.block_cls or next((model_bound[t] for t in seg.targets if t in model_bound), None)\<close>.\<close>

definition segment_cls :: "(string \<rightharpoonup> string option) \<Rightarrow> PreambleSegment \<Rightarrow> string option" where
  "segment_cls mb seg =
     or_opt (block_cls seg)
       (case filter (\<lambda>t. mb t \<noteq> None) (seg_targets seg) of
          [] \<Rightarrow> None
        | t # _ \<Rightarrow> the (mb t))"

definition emit_segment ::
  "(string \<rightharpoonup> string option) \<Rightarrow> string \<Rightarrow> PreambleSegment \<Rightarrow> Sink \<Rightarrow> Sink xres" where
  "emit_segment mb mdl seg setup =
     bindE (case segment_cls mb seg of
              Some cls \<Rightarrow> bindE (dict_index SPEC_cond_instances cls) (\<lambda>cspec. model_dest cspec mdl)
            | None \<Rightarrow> dest_of ''runner_setup'' mdl) (\<lambda>dest.
     Inr (sink_add (splitlines (seg_text seg)) (sink_to dest setup)))"

definition emit_preamble ::
  "PreambleSegment list \<Rightarrow> Statement list \<Rightarrow> string \<Rightarrow> Sink xres" where
  "emit_preamble segs stmts mdl =
     (if segs = [] then Inr new_sink
      else foldE (emit_segment (model_bound stmts) mdl) segs
             (sink_add [[], ''# --- user preamble (verbatim) ---''] new_sink))"

definition header_lines :: "string \<Rightarrow> string \<Rightarrow> string set \<Rightarrow> string list" where
  "header_lines source_name mdl assumed =
     [''# xmix synthesized from '' @ source_name @ ''  (model: '' @ mdl @ '')'',
      ''# assumes in scope: '' @ join '', '' (sorted_list_of_set assumed),
      ''#'',
      ''# Excerpts are grouped by destination. Each '' @ sq @ ''# >>> XMIX-APPLY file='' @ ellipsis
        @ '' anchor='' @ ellipsis @ '' <<<'' @ sq,
      ''# tag is read by the apply tool to splice the block below it at that anchor;'',
      ''# the '' @ sq @ ''# >>> DESTINATION: '' @ ellipsis @ '' <<<'' @ sq
        @ '' banner is the human-readable label.'']"

text \<open>\<open>enumerate(statements)\<close>: emission of all statements.\<close>

definition emit_statements ::
  "Statement list \<Rightarrow> EmitState \<Rightarrow> string \<Rightarrow> EmitState xres" where
  "emit_statements stmts st mdl =
     foldE (\<lambda>(i, s) st. emit_statement i s st mdl) (zip [0..<length stmts] stmts) st"

definition generate_lines ::
  "Statement list \<Rightarrow> string \<Rightarrow> PreambleSegment list \<Rightarrow> string \<Rightarrow> string list xres" where
  "generate_lines stmts source_name segs mdl =
     bindE (emit_preamble segs stmts mdl) (\<lambda>setup.
     bindE (emit_statements stmts
              \<lparr> es_setup = setup, es_install = new_sink, es_assumed = {''torch''} \<rparr> mdl) (\<lambda>st.
     bindE (footprint_tags stmts) (\<lambda>tags.
     Inr (header_lines source_name mdl (es_assumed st) @ tags
          @ [[], ''# === SETUP (construct once '' @ em_dash @ '' see destinations) ==='']
          @ sink_lines (es_setup st)
          @ [[], ''# === INSTALL (after load_model) ==='']
          @ sink_lines (es_install st)))))"

definition generate ::
  "Statement list \<Rightarrow> string \<Rightarrow> PreambleSegment list \<Rightarrow> string option \<Rightarrow> string xres" where
  "generate stmts source_name segs mdl =
     bindE (generate_lines stmts source_name segs (or_str mdl SPEC_default_model)) (\<lambda>ls.
     Inr (join [LF] ls @ [LF]))"

definition compile_xmix :: "ast_parser \<Rightarrow> files \<Rightarrow> string \<Rightarrow> string xres" where
  "compile_xmix ast_parse fs path =
     bindE (parse_and_validate ast_parse fs path) (\<lambda>r.
     generate (statements r) path (preamble r) (Some (model r)))"

text \<open>Writing a file in text mode (\<open>open(path, "w")\<close>, \<open>Path.write_text\<close>) succeeds, or raises \<open>OSError\<close>:
  when the file cannot be opened, which leaves it as it was, or while writing, which leaves some
  other text.  The disk says for every path which of them happens.\<close>

datatype write_outcome = Written | Refused | Torn string

type_synonym disk = "string \<Rightarrow> write_outcome"

text \<open>The command line (\<open>compile.py\<close>): the exit code or the exception that leaves \<open>main\<close>, the text
  written to stdout and the files after the run.  \<open>XmixError\<close> and \<open>OSError\<close> of the translation give
  exit code 1; any other exception of it propagates, and so does the \<open>OSError\<close> of the output
  file, which is written outside the \<open>try\<close>.\<close>

definition compile_main ::
  "disk \<Rightarrow> ast_parser \<Rightarrow> files \<Rightarrow> string \<Rightarrow> string option \<Rightarrow> nat xres \<times> string \<times> files" where
  "compile_main disk ast_parse fs path output =
     (case compile_xmix ast_parse fs path of
        Inl (Xmix e) \<Rightarrow> (Inr 1, [], fs)
      | Inl (Uncaught e) \<Rightarrow>
          (case e of OSError p \<Rightarrow> (Inr 1, [], fs) | _ \<Rightarrow> (Inl (Uncaught e), [], fs))
      | Inr code \<Rightarrow>
          (case output of
             None \<Rightarrow> (Inr 0, code, fs)
           | Some out \<Rightarrow>
               if out = [] then (Inr 0, code, fs)
               else (case disk out of
                       Written \<Rightarrow> (Inr 0, code, fs(out \<mapsto> Decoded code))
                     | Refused \<Rightarrow> (Inl (Uncaught (OSError out)), code, fs)
                     | Torn t \<Rightarrow> (Inl (Uncaught (OSError out)), code, fs(out \<mapsto> Decoded t)))))"

end
