(* ===== verification/Xmix_Apply.thy ===== *)
theory Xmix_Apply
  imports Xmix_Codegen
begin

text \<open>
  The overlay tool (\<open>vllm/activations_extractor/xmix/apply.py\<close>): it splices the blocks of a
  synthesized file into the target sources between sentinels, refuses conflicting hook
  slots, and reverts.  The file system is a map from paths to texts (as read in text mode);
  a command returns its outcome together with the file system it leaves, so that what an
  exception leaves behind is visible.  Writing a file may fail: the disk, an argument of the
  commands, says for every path whether a write succeeds, is refused, or fails half way.
  Reading a file that exists succeeds.  Messages on stderr are not modelled.
\<close>

section \<open>Parsing a synthesized file into blocks\<close>

type_synonym fs = "string \<rightharpoonup> string"

datatype apply_exn = ApplyError string | ApplyUncaught py_exn

type_synonym 'a ares = "apply_exn + 'a"

text \<open>\<open>_APPLY_RE\<close>: \<open>^#\s*>>> XMIX-APPLY file=(\S+) anchor=(\S+) <<<\s*$\<close>.\<close>

definition APPLY_RE :: "string \<Rightarrow> (string \<times> string) option" where
  "APPLY_RE s =
     (case match_lit ''#'' s of None \<Rightarrow> None | Some s1 \<Rightarrow>
     (case match_lit ''>>> XMIX-APPLY file='' (lstrip s1) of None \<Rightarrow> None | Some s2 \<Rightarrow>
     (case match_token s2 of None \<Rightarrow> None | Some (file, s3) \<Rightarrow>
     (case match_lit '' anchor='' s3 of None \<Rightarrow> None | Some s4 \<Rightarrow>
     (case match_token s4 of None \<Rightarrow> None | Some (anchor, s5) \<Rightarrow>
     (case match_lit '' <<<'' s5 of None \<Rightarrow> None | Some s6 \<Rightarrow>
      if lstrip s6 = [] then Some (file, anchor) else None))))))"

text \<open>\<open>_FOOTPRINT_RE\<close>: \<open>^#\s*>>> XMIX-FOOTPRINT flag=(\S+) submodule=(\S+) layers=(\S+) <<<\<close>.\<close>

definition FOOTPRINT_RE :: "string \<Rightarrow> (string \<times> string \<times> string) option" where
  "FOOTPRINT_RE s =
     (case match_lit ''#'' s of None \<Rightarrow> None | Some s1 \<Rightarrow>
     (case match_lit ''>>> XMIX-FOOTPRINT flag='' (lstrip s1) of None \<Rightarrow> None | Some s2 \<Rightarrow>
     (case match_token s2 of None \<Rightarrow> None | Some (flag, s3) \<Rightarrow>
     (case match_lit '' submodule='' s3 of None \<Rightarrow> None | Some s4 \<Rightarrow>
     (case match_token s4 of None \<Rightarrow> None | Some (sub, s5) \<Rightarrow>
     (case match_lit '' layers='' s5 of None \<Rightarrow> None | Some s6 \<Rightarrow>
     (case match_token s6 of None \<Rightarrow> None | Some (lay, s7) \<Rightarrow>
     (case match_lit '' <<<'' s7 of None \<Rightarrow> None | Some _ \<Rightarrow> Some (flag, sub, lay)))))))))"

text \<open>\<open>_APPLIED_FP_RE\<close>: \<open>^#\s*xmix:footprint (\S+) (\S+) (\S+) (\S+)\<close>.\<close>

definition APPLIED_FP_RE :: "string \<Rightarrow> (string \<times> string \<times> string \<times> string) option" where
  "APPLIED_FP_RE s =
     (case match_lit ''#'' s of None \<Rightarrow> None | Some s1 \<Rightarrow>
     (case match_lit ''xmix:footprint '' (lstrip s1) of None \<Rightarrow> None | Some s2 \<Rightarrow>
     (case match_token s2 of None \<Rightarrow> None | Some (app, s3) \<Rightarrow>
     (case match_lit '' '' s3 of None \<Rightarrow> None | Some s4 \<Rightarrow>
     (case match_token s4 of None \<Rightarrow> None | Some (flag, s5) \<Rightarrow>
     (case match_lit '' '' s5 of None \<Rightarrow> None | Some s6 \<Rightarrow>
     (case match_token s6 of None \<Rightarrow> None | Some (sub, s7) \<Rightarrow>
     (case match_lit '' '' s7 of None \<Rightarrow> None | Some s8 \<Rightarrow>
     (case match_token s8 of None \<Rightarrow> None | Some (lay, _) \<Rightarrow> Some (app, flag, sub, lay))))))))))"

definition META_PREFIXES :: "string list" where
  "META_PREFIXES = [''# >>> '', ''#     (executes at:'', ''# === '', ''# --- user preamble'']"

definition is_meta :: "string \<Rightarrow> bool" where
  "is_meta line \<longleftrightarrow> (\<exists>p \<in> set META_PREFIXES. startswith (strip line) p)"

definition is_blank :: "string \<Rightarrow> bool" where
  "is_blank line \<longleftrightarrow> strip line = []"

definition trim_blank :: "string list \<Rightarrow> string list" where
  "trim_blank ls = rev (dropWhile is_blank (rev (dropWhile is_blank ls)))"

type_synonym block = "string \<times> string \<times> string list"

text \<open>One line of \<open>parse_blocks\<close>; the state is \<open>(blocks, cur)\<close>.\<close>

definition block_line :: "string \<Rightarrow> block list \<times> block option \<Rightarrow> block list \<times> block option" where
  "block_line line st =
     (case st of (blocks, cur) \<Rightarrow>
        (case APPLY_RE (strip line) of
           Some (f, a) \<Rightarrow> (blocks @ (case cur of None \<Rightarrow> [] | Some c \<Rightarrow> [c]), Some (f, a, []))
         | None \<Rightarrow>
             (case cur of
                None \<Rightarrow> (blocks, None)
              | Some (f, a, ls) \<Rightarrow>
                  if is_meta line then (blocks, cur) else (blocks, Some (f, a, ls @ [line])))))"

definition parse_blocks :: "string \<Rightarrow> block list" where
  "parse_blocks text =
     (case fold block_line (splitlines text) ([], None) of
        (blocks, cur) \<Rightarrow>
          filter (\<lambda>(f, a, ls). ls \<noteq> [])
            (map (\<lambda>(f, a, c). (f, a, trim_blank c))
              (blocks @ (case cur of None \<Rightarrow> [] | Some c \<Rightarrow> [c]))))"

section \<open>Footprints\<close>

datatype layer_set = LAll | LSet "int set"

definition parse_layers :: "string \<Rightarrow> layer_set ares" where
  "parse_layers spec =
     (if spec = ''all'' then Inr LAll
      else bindE (mapE (\<lambda>x. of_option (ApplyUncaught (ValueError x)) (py_int x))
                   (filter (\<lambda>x. x \<noteq> []) (split_on (CHR '','') spec))) (\<lambda>xs.
           Inr (LSet (set xs))))"

definition layers_str :: "layer_set \<Rightarrow> string" where
  "layers_str l =
     (case l of LAll \<Rightarrow> ''all'' | LSet s \<Rightarrow> join '','' (map show_int (sorted_list_of_set s)))"

type_synonym footprint = "string \<times> string \<times> layer_set"

definition parse_footprints :: "string \<Rightarrow> footprint list ares" where
  "parse_footprints text =
     mapE (\<lambda>(flag, sub, lay). bindE (parse_layers lay) (\<lambda>l. Inr (flag, sub, l)))
       (List.map_filter (\<lambda>line. FOOTPRINT_RE (strip line)) (splitlines text))"

definition all_anchor_files :: "string list" where
  "all_anchor_files =
     sorted_list_of_set (set (concat (map (\<lambda>(k, m). map snd (anchors m)) SPEC_models)))"

definition file_footprints :: "string \<Rightarrow> (string \<times> footprint) list ares" where
  "file_footprints text =
     mapE (\<lambda>(app, flag, sub, lay). bindE (parse_layers lay) (\<lambda>l. Inr (app, flag, sub, l)))
       (List.map_filter (\<lambda>line. APPLIED_FP_RE (strip line)) (splitlines text))"

definition scan_applied_footprints :: "fs \<Rightarrow> (string \<times> footprint) list ares" where
  "scan_applied_footprints fs =
     bindE (mapE (\<lambda>file. case fs file of None \<Rightarrow> Inr [] | Some text \<Rightarrow> file_footprints text)
              all_anchor_files) (\<lambda>xss. Inr (concat xss))"

fun overlap :: "layer_set \<Rightarrow> layer_set \<Rightarrow> bool" where
  "overlap (LSet a) (LSet b) = (a \<inter> b \<noteq> {})"
| "overlap _ _ = True"

fun overlap_str :: "layer_set \<Rightarrow> layer_set \<Rightarrow> string" where
  "overlap_str (LSet a) (LSet b) =
     ''{'' @ join '','' (map show_int (sorted_list_of_set (a \<inter> b))) @ ''}''"
| "overlap_str _ _ = ''all''"

section \<open>Anchors and sentinels\<close>

definition anchor_comment :: "string \<Rightarrow> string" where
  "anchor_comment anchor = ''# xmix:anchor '' @ anchor"

definition indent_of :: "string \<Rightarrow> string" where
  "indent_of line = take (length line - length (lstrip line)) line"

fun find_anchor_from :: "nat \<Rightarrow> string list \<Rightarrow> string \<Rightarrow> nat option" where
  "find_anchor_from i [] anchor = None"
| "find_anchor_from i (l # ls) anchor =
     (if strip l = anchor_comment anchor then Some i else find_anchor_from (Suc i) ls anchor)"

definition find_anchor :: "string list \<Rightarrow> string \<Rightarrow> nat option" where
  "find_anchor lines anchor = find_anchor_from 0 lines anchor"

definition begin_prefix :: string where "begin_prefix = ''# xmix:begin ''"
definition end_prefix :: string where "end_prefix = ''# xmix:end ''"

definition is_begin :: "string \<Rightarrow> bool" where
  "is_begin line \<longleftrightarrow> startswith (strip line) begin_prefix"

definition is_end :: "string \<Rightarrow> bool" where
  "is_end line \<longleftrightarrow> startswith (strip line) end_prefix"

text \<open>\<open>s.split()[2] if len(s.split()) > 2 else None\<close>.\<close>

definition begin_app :: "string \<Rightarrow> string option" where
  "begin_app line =
     (let parts = split_ws (strip line) in if length parts > 2 then Some (parts ! 2) else None)"

text \<open>\<open>app_ids is None or app in app_ids\<close>.\<close>

definition app_selected :: "string set option \<Rightarrow> string option \<Rightarrow> bool" where
  "app_selected app_ids app =
     (case app_ids of
        None \<Rightarrow> True
      | Some ids \<Rightarrow> (case app of None \<Rightarrow> False | Some a \<Rightarrow> a \<in> ids))"

text \<open>The loop of \<open>_strip_app_regions\<close>, with the flag \<open>skipping\<close>.\<close>

fun strip_loop :: "string set option \<Rightarrow> bool \<Rightarrow> string list \<Rightarrow> string list" where
  "strip_loop ids skipping [] = []"
| "strip_loop ids skipping (line # rest) =
     (if \<not> skipping \<and> is_begin line \<and> app_selected ids (begin_app line)
      then strip_loop ids True rest
      else if skipping \<and> is_end line then strip_loop ids False rest
      else if \<not> skipping then line # strip_loop ids skipping rest
      else strip_loop ids skipping rest)"

definition strip_app_regions :: "string list \<Rightarrow> string set option \<Rightarrow> string list" where
  "strip_app_regions lines app_ids = strip_loop app_ids False lines"

text \<open>The inner loop of \<open>_insertion_point\<close>: the number of lines up to and including the end
  marker (\<open>i\<close> may run one past the last line when there is none).\<close>

fun region_len :: "string list \<Rightarrow> nat" where
  "region_len [] = 1"
| "region_len (l # ls) = (if is_end l then 1 else Suc (region_len ls))"

function skip_stacked :: "string list \<Rightarrow> nat" where
  "skip_stacked [] = 0"
| "skip_stacked (l # ls) =
     (if is_blank l then Suc (skip_stacked ls)
      else if is_begin l then Suc (region_len ls + skip_stacked (drop (region_len ls) ls))
      else 0)"
  by pat_completeness auto
termination
  by (relation "measure length") auto

text \<open>\<open>_insertion_point(lines, anchor_idx)\<close>.\<close>

definition insertion_point :: "string list \<Rightarrow> nat \<Rightarrow> nat" where
  "insertion_point lines anchor_idx =
     anchor_idx + 1 + skip_stacked (drop (anchor_idx + 1) lines)"

definition sentinel_block :: "string \<Rightarrow> string \<Rightarrow> string \<Rightarrow> string list \<Rightarrow> string list" where
  "sentinel_block indent app_id anchor code =
     [indent @ ''# xmix:begin '' @ app_id @ '' '' @ anchor]
     @ map (\<lambda>cl. if is_blank cl then [] else indent @ cl) code
     @ [indent @ ''# xmix:end '' @ app_id @ '' '' @ anchor]"

text \<open>A missing anchor makes \<open>lines[None]\<close> raise \<open>TypeError\<close>.\<close>

definition insert_stacked ::
  "string list \<Rightarrow> string \<Rightarrow> string \<Rightarrow> string list \<Rightarrow> string list ares" where
  "insert_stacked lines anchor app_id code =
     (case find_anchor lines anchor of
        None \<Rightarrow> Inl (ApplyUncaught (TypeError ''list indices must be integers''))
      | Some idx \<Rightarrow>
          (let at = insertion_point lines idx
           in Inr (take at lines
                   @ sentinel_block (indent_of (lines ! idx)) app_id anchor code
                   @ drop at lines)))"

section \<open>Paths\<close>

text \<open>\<open>Path(path).stem\<close>: the last component (empty and \<open>.\<close> components do not count) without
  its last suffix; a dot at the start or the end of the name does not open a suffix.\<close>

definition path_name :: "string \<Rightarrow> string" where
  "path_name path =
     (case filter (\<lambda>c. c \<noteq> [] \<and> c \<noteq> ''.'') (split_on (CHR ''/'') path) of
        [] \<Rightarrow> []
      | cs \<Rightarrow> last cs)"

definition path_stem :: "string \<Rightarrow> string" where
  "path_stem path =
     (let name = path_name path;
          suffix = length (after_last_dot name);
          i = length name - suffix - 1
      in if CHR ''.'' \<in> set name \<and> 0 < i \<and> 0 < suffix then take i name else name)"

definition app_id_from :: "string \<Rightarrow> string option \<Rightarrow> string" where
  "app_id_from path override =
     or_str override
       (let stem = path_stem path
        in if endswith stem ''_synth'' then take (length stem - 6) stem else stem)"

section \<open>Conflicts\<close>

definition conflict_msg ::
  "string \<Rightarrow> string \<Rightarrow> string \<Rightarrow> string \<Rightarrow> layer_set \<Rightarrow> layer_set \<Rightarrow> string" where
  "conflict_msg app app2 flag sub lay lay2 =
     q1 app @ '' conflicts with '' @ q1 app2 @ '' at ('' @ flag @ '', '' @ sub @ '') layers ''
     @ overlap_str lay lay2 @ ''; nothing applied (only one hook would survive at that slot)''"

definition conflicts :: "string \<times> footprint \<Rightarrow> string \<times> footprint \<Rightarrow> bool" where
  "conflicts e1 e2 =
     (case (e1, e2) of ((app, flag, sub, lay), (app2, flag2, sub2, lay2)) \<Rightarrow>
        flag = flag2 \<and> sub = sub2 \<and> overlap lay lay2)"

text \<open>The nested loops of \<open>_check_conflicts\<close>: an entry against the later entries of the
  batch and then the applied ones.\<close>

fun check_batch ::
  "(string \<times> footprint) list \<Rightarrow> (string \<times> footprint) list \<Rightarrow> unit ares" where
  "check_batch [] existing = Inr ()"
| "check_batch (e # rest) existing =
     (case filter (conflicts e) (rest @ existing) of
        (app2, flag2, sub2, lay2) # _ \<Rightarrow>
          (case e of (app, flag, sub, lay) \<Rightarrow>
             Inl (ApplyError (conflict_msg app app2 flag sub lay lay2)))
      | [] \<Rightarrow> check_batch rest existing)"

definition check_conflicts ::
  "fs \<Rightarrow> string list \<Rightarrow> (string \<Rightarrow> footprint list) \<Rightarrow> unit ares" where
  "check_conflicts fs batch_apps app_fps =
     bindE (scan_applied_footprints fs) (\<lambda>applied.
     check_batch (concat (map (\<lambda>app. map (Pair app) (app_fps app)) batch_apps))
       (filter (\<lambda>e. fst e \<notin> set batch_apps) applied))"

section \<open>Commands\<close>

text \<open>An entry of the plan: \<open>(file, anchor, app, code)\<close>.\<close>

type_synonym plan_item = "string \<times> string \<times> string \<times> string list"

text \<open>The loop over the synthesized files; the state is \<open>(plan, batch_apps, app_fps)\<close>, with
  the dict \<open>app_fps\<close> a function that is empty where the dict has no key.\<close>

definition plan_file ::
  "fs \<Rightarrow> string option \<Rightarrow> string \<Rightarrow> plan_item list \<times> string list \<times> (string \<Rightarrow> footprint list)
    \<Rightarrow> (plan_item list \<times> string list \<times> (string \<Rightarrow> footprint list)) ares" where
  "plan_file fs override p st =
     (case st of (plan, batch_apps, app_fps) \<Rightarrow>
        let app_id = app_id_from p override
        in bindE (raise_if (app_id \<in> set batch_apps)
             (ApplyError (''duplicate app id '' @ q1 app_id @ '' in this invocation''))) (\<lambda>_.
           bindE (of_option (ApplyUncaught (OSError p)) (fs p)) (\<lambda>text.
           let blocks = parse_blocks text
           in bindE (raise_if (blocks = [])
                (ApplyError (''no XMIX-APPLY blocks found in '' @ p))) (\<lambda>_.
              bindE (parse_footprints text) (\<lambda>fps.
              Inr (plan @ map (\<lambda>(file, anchor, code). (file, anchor, app_id, code)) blocks,
                   batch_apps @ [app_id], app_fps(app_id := fps)))))))"

text \<open>The keys of a dict in insertion order (\<open>dict.fromkeys\<close>): first occurrences.\<close>

fun nub :: "'a list \<Rightarrow> 'a list" where
  "nub [] = []"
| "nub (x # xs) = x # filter (\<lambda>y. y \<noteq> x) (nub xs)"

text \<open>\<open>by_file\<close>: the plan grouped by target file, in the order of first mention.\<close>

definition items_for :: "plan_item list \<Rightarrow> string \<Rightarrow> (string \<times> string \<times> string list) list" where
  "items_for plan file = map snd (filter (\<lambda>it. fst it = file) plan)"

definition group_by_file ::
  "plan_item list \<Rightarrow> (string \<times> (string \<times> string \<times> string list) list) list" where
  "group_by_file plan = map (\<lambda>file. (file, items_for plan file)) (nub (map fst plan))"

text \<open>Pass 1: what is missing, over all target files.\<close>

definition missing_in_file ::
  "fs \<Rightarrow> string \<times> (string \<times> string \<times> string list) list \<Rightarrow> string list" where
  "missing_in_file fs grp =
     (case grp of (file, items) \<Rightarrow>
        (case fs file of
           None \<Rightarrow> [file @ '' (file not found)'']
         | Some text \<Rightarrow>
             map (\<lambda>anchor. q1 (anchor_comment anchor) @ '' in '' @ file)
               (filter (\<lambda>anchor. find_anchor (splitlines text) anchor = None)
                 (nub (map fst items)))))"

text \<open>Pass 2 on one file: strip the batch's regions, then stack its blocks in order.\<close>

definition footprint_lines :: "string \<Rightarrow> footprint list \<Rightarrow> string list" where
  "footprint_lines app fps =
     map (\<lambda>(flag, sub, lay).
       ''# xmix:footprint '' @ app @ '' '' @ flag @ '' '' @ sub @ '' '' @ layers_str lay) fps"

definition item_code ::
  "(string \<Rightarrow> footprint list) \<Rightarrow> string \<times> string \<times> string list \<Rightarrow> string list" where
  "item_code app_fps item =
     (case item of (anchor, app, code) \<Rightarrow>
        if anchor = ''runner_postload'' \<and> app_fps app \<noteq> []
        then footprint_lines app (app_fps app) @ code else code)"

definition patch_lines ::
  "(string \<Rightarrow> footprint list) \<Rightarrow> string set \<Rightarrow> (string \<times> string \<times> string list) list
    \<Rightarrow> string list \<Rightarrow> string list ares" where
  "patch_lines app_fps batch items lines =
     foldE (\<lambda>item ls. insert_stacked ls (fst item) (fst (snd item)) (item_code app_fps item))
       items (strip_app_regions lines (Some batch))"

text \<open>\<open>"\n".join(lines) + "\n"\<close>.\<close>

definition unlines :: "string list \<Rightarrow> string" where
  "unlines ls = join [LF] ls @ [LF]"

text \<open>Pass 2: the files in order; \<open>read\<close> holds the texts read in pass 1.  Returns the
  outcome (the text printed by a dry run) and the file system.\<close>

text \<open>\<open>Path.write_text\<close>.\<close>

definition write_text :: "disk \<Rightarrow> string \<Rightarrow> string \<Rightarrow> fs \<Rightarrow> unit ares \<times> fs" where
  "write_text disk file t fs =
     (case disk file of
        Written \<Rightarrow> (Inr (), fs(file \<mapsto> t))
      | Refused \<Rightarrow> (Inl (ApplyUncaught (OSError file)), fs)
      | Torn rest \<Rightarrow> (Inl (ApplyUncaught (OSError file)), fs(file \<mapsto> rest)))"

fun write_files ::
  "disk \<Rightarrow> (string \<Rightarrow> footprint list) \<Rightarrow> string set \<Rightarrow> bool \<Rightarrow> fs
    \<Rightarrow> (string \<times> (string \<times> string \<times> string list) list) list \<Rightarrow> fs \<Rightarrow> string
    \<Rightarrow> string ares \<times> fs" where
  "write_files disk app_fps batch dry rd [] fs out = (Inr out, fs)"
| "write_files disk app_fps batch dry rd ((file, items) # rest) fs out =
     (case rd file of
        None \<Rightarrow> (Inl (ApplyUncaught (KeyError file)), fs)
      | Some text0 \<Rightarrow>
          (case patch_lines app_fps batch items (splitlines text0) of
             Inl e \<Rightarrow> (Inl e, fs)
           | Inr lines \<Rightarrow>
               if dry
               then write_files disk app_fps batch dry rd rest fs
                      (out @ [LF] @ ''===== '' @ file @ '' (dry-run) ====='' @ [LF] @ unlines lines)
               else
                 (case write_text disk file (unlines lines) fs of
                    (Inl e, fs1) \<Rightarrow> (Inl e, fs1)
                  | (Inr _, fs1) \<Rightarrow> write_files disk app_fps batch dry rd rest fs1 out)))"

definition cmd_apply ::
  "disk \<Rightarrow> fs \<Rightarrow> string list \<Rightarrow> string option \<Rightarrow> bool \<Rightarrow> string ares \<times> fs" where
  "cmd_apply disk fs paths override dry =
     (case foldE (plan_file fs override) paths ([], [], \<lambda>_. []) of
        Inl e \<Rightarrow> (Inl e, fs)
      | Inr (plan, batch_apps, app_fps) \<Rightarrow>
          (case check_conflicts fs batch_apps app_fps of
             Inl e \<Rightarrow> (Inl e, fs)
           | Inr _ \<Rightarrow>
               (let by_file = group_by_file plan;
                    missing = concat (map (missing_in_file fs) by_file)
                in if missing \<noteq> []
                   then (Inl (ApplyError (''aborting (nothing written) '' @ em_dash
                               @ '' missing: '' @ join ''; '' missing)), fs)
                   else write_files disk app_fps (set batch_apps) dry fs by_file fs [])))"

definition revert_file :: "disk \<Rightarrow> string set option \<Rightarrow> string \<Rightarrow> fs \<Rightarrow> unit ares \<times> fs" where
  "revert_file disk app_ids file fs =
     (case fs file of
        None \<Rightarrow> (Inr (), fs)
      | Some text \<Rightarrow>
          (let lines = splitlines text; stripped = strip_app_regions lines app_ids
           in if stripped \<noteq> lines then write_text disk file (unlines stripped) fs else (Inr (), fs)))"

fun revert_files :: "disk \<Rightarrow> string set option \<Rightarrow> string list \<Rightarrow> fs \<Rightarrow> string ares \<times> fs" where
  "revert_files disk app_ids [] fs = (Inr [], fs)"
| "revert_files disk app_ids (file # files) fs =
     (case revert_file disk app_ids file fs of
        (Inl e, fs1) \<Rightarrow> (Inl e, fs1)
      | (Inr _, fs1) \<Rightarrow> revert_files disk app_ids files fs1)"

definition cmd_revert :: "disk \<Rightarrow> fs \<Rightarrow> string list \<Rightarrow> string option \<Rightarrow> string ares \<times> fs" where
  "cmd_revert disk fs paths override =
     (if paths \<noteq> [] then
        (case mapE (\<lambda>p. of_option (ApplyUncaught (OSError p)) (fs p)) paths of
           Inl e \<Rightarrow> (Inl e, fs)
         | Inr texts \<Rightarrow>
             revert_files disk (Some ((\<lambda>p. app_id_from p override) ` set paths))
               (sorted_list_of_set (set (concat (map (\<lambda>t. map fst (parse_blocks t)) texts)))) fs)
      else
        revert_files disk (case override of None \<Rightarrow> None | Some a \<Rightarrow> if a = [] then None else Some {a})
          all_anchor_files fs)"

text \<open>\<open>cmd_status\<close>: the printed lines.\<close>

definition status_line :: "string \<Rightarrow> nat \<times> string \<Rightarrow> string list" where
  "status_line file ln =
     (if is_begin (snd ln) then
        (let parts = split_ws (strip (snd ln));
             app = (if length parts > 2 then parts ! 2 else ''?'');
             anchor = (if length parts > 3 then parts ! 3 else ''?'')
         in [file @ '':'' @ show_nat (fst ln) @ ''  app='' @ app @ '' anchor='' @ anchor])
      else [])"

definition cmd_status :: "fs \<Rightarrow> string list" where
  "cmd_status fs =
     (let found = concat (map (\<lambda>file.
            case fs file of
              None \<Rightarrow> []
            | Some text \<Rightarrow>
                (let ls = splitlines text
                 in concat (map (status_line file) (zip [1..<Suc (length ls)] ls))))
            all_anchor_files)
      in if found = [] then [''no xmix blocks currently applied''] else found)"

text \<open>\<open>main\<close> after argument parsing: the exit code (2 is \<open>argparse\<close>'s usage error) or the
  exception that propagates, the text on stdout, and the file system.\<close>

record apply_args =
  a_paths :: "string list"
  a_revert :: bool
  a_status :: bool
  a_app :: "string option"
  a_dry_run :: bool

definition exit_code :: "string ares \<times> fs \<Rightarrow> (py_exn + nat \<times> string) \<times> fs" where
  "exit_code r =
     (case fst r of
        Inr out \<Rightarrow> (Inr (0, out), snd r)
      | Inl (ApplyError _) \<Rightarrow> (Inr (1, []), snd r)
      | Inl (ApplyUncaught e) \<Rightarrow>
          (case e of OSError _ \<Rightarrow> (Inr (1, []), snd r) | _ \<Rightarrow> (Inl e, snd r)))"

definition apply_main :: "disk \<Rightarrow> fs \<Rightarrow> apply_args \<Rightarrow> (py_exn + nat \<times> string) \<times> fs" where
  "apply_main disk fs args =
     (if or_str (a_app args) [] \<noteq> [] \<and> length (a_paths args) > 1 then (Inr (2, []), fs)
      else if a_status args then (Inr (0, unlines (cmd_status fs)), fs)
      else if a_revert args then exit_code (cmd_revert disk fs (a_paths args) (a_app args))
      else if a_paths args = [] then (Inr (2, []), fs)
      else exit_code (cmd_apply disk fs (a_paths args) (a_app args) (a_dry_run args)))"

end
