(* ===== verification/Xmix_Overlay.thy ===== *)
theory Xmix_Overlay
  imports Xmix_Apply
begin

text \<open>
  What the overlay tool promises: the regions it adds can be taken away again, and nothing
  else changes.  The relation \<open>overlay sel base lines\<close> says that \<open>lines\<close> is \<open>base\<close> with
  complete sentinel regions of selected apps added between its lines.  Stripping undoes any
  overlay, and inserting a block at an anchor of the base keeps the relation.
\<close>

section \<open>Overlays\<close>

text \<open>A line that opens a region of a selected app.\<close>

definition opens :: "string set option \<Rightarrow> string \<Rightarrow> bool" where
  "opens ids l \<longleftrightarrow> is_begin l \<and> app_selected ids (begin_app l)"

text \<open>An anchor comment, and the lines a region may hold.\<close>

definition is_anchor :: "string \<Rightarrow> bool" where
  "is_anchor l \<longleftrightarrow> startswith (strip l) ''# xmix:anchor ''"

definition region_line :: "string \<Rightarrow> bool" where
  "region_line l \<longleftrightarrow> \<not> is_end l \<and> \<not> is_anchor l"

inductive overlay :: "string set option \<Rightarrow> string list \<Rightarrow> string list \<Rightarrow> bool"
  for ids :: "string set option"
where
  overlay_Nil: "overlay ids [] []"
| overlay_keep: "\<not> opens ids l \<Longrightarrow> overlay ids base ls \<Longrightarrow> overlay ids (l # base) (l # ls)"
| overlay_region: "opens ids b \<Longrightarrow> \<forall>c \<in> set code. region_line c \<Longrightarrow> is_end e \<Longrightarrow>
     overlay ids base ls \<Longrightarrow> overlay ids base (b # code @ e # ls)"

lemma strip_loop_skip:
  "\<forall>c \<in> set code. \<not> is_end c \<Longrightarrow> is_end e \<Longrightarrow>
     strip_loop ids True (code @ e # ls) = strip_loop ids False ls"
  by (induction code) auto

lemma overlay_strip: "overlay ids base ls \<Longrightarrow> strip_loop ids False ls = base"
  by (induction rule: overlay.induct) (auto simp: strip_loop_skip opens_def region_line_def)

lemma overlay_refl: "\<forall>l \<in> set ls. \<not> opens ids l \<Longrightarrow> overlay ids ls ls"
  by (induction ls) (auto intro: overlay.intros)

lemma overlay_append:
  "overlay ids b1 l1 \<Longrightarrow> overlay ids b2 l2 \<Longrightarrow> overlay ids (b1 @ b2) (l1 @ l2)"
proof (induction rule: overlay.induct)
  case (overlay_region b code e base ls)
  then have "overlay ids (base @ b2) (b # code @ e # (ls @ l2))"
    by (intro overlay.overlay_region) auto
  then show ?case by simp
qed (auto intro: overlay.intros)

text \<open>No line of a stripped text opens a selected region: stripping is idempotent.\<close>

lemma strip_loop_no_opens: "l \<in> set (strip_loop ids sk ls) \<Longrightarrow> \<not> opens ids l"
  by (induction ids sk ls rule: strip_loop.induct) (auto simp: opens_def split: if_splits)

lemma strip_loop_id: "\<forall>l \<in> set ls. \<not> opens ids l \<Longrightarrow> strip_loop ids False ls = ls"
  using overlay_strip overlay_refl by blast

lemma strip_loop_subseq: "subseq (strip_loop ids sk ls) ls"
  by (induction ids sk ls rule: strip_loop.induct) auto

text \<open>Cutting an overlay at a point between regions.\<close>

definition cuts :: "string set option \<Rightarrow> string list \<Rightarrow> string list \<Rightarrow> nat \<Rightarrow> bool" where
  "cuts ids base ls n \<longleftrightarrow>
     (\<exists>b1 b2. base = b1 @ b2 \<and> overlay ids b1 (take n ls) \<and> overlay ids b2 (drop n ls))"

lemma cuts_0: "overlay ids base ls \<Longrightarrow> cuts ids base ls 0"
  by (auto simp: cuts_def intro: overlay_Nil)

lemma cuts_keep: "\<not> opens ids l \<Longrightarrow> cuts ids base ls n \<Longrightarrow> cuts ids (l # base) (l # ls) (Suc n)"
  unfolding cuts_def by (metis append_Cons drop_Suc_Cons overlay_keep take_Suc_Cons)

lemma cuts_region:
  assumes "opens ids b" "\<forall>c \<in> set code. region_line c" "is_end e" "cuts ids base ls n"
  shows "cuts ids base (b # code @ e # ls) (Suc (Suc (length code + n)))"
proof -
  obtain b1 b2 where b: "base = b1 @ b2" "overlay ids b1 (take n ls)" "overlay ids b2 (drop n ls)"
    using assms(4) by (auto simp: cuts_def)
  have "overlay ids b1 (b # code @ e # take n ls)"
    using assms b by (auto intro: overlay_region)
  then show ?thesis using b unfolding cuts_def by (auto simp: add.commute)
qed

text \<open>\<open>cuts\<close> is transitive along a list.\<close>

lemma cuts_trans:
  assumes "overlay ids b1 l1" and "cuts ids b2 l2 n"
  shows "cuts ids (b1 @ b2) (l1 @ l2) (length l1 + n)"
proof -
  obtain c1 c2 where c: "b2 = c1 @ c2" "overlay ids c1 (take n l2)" "overlay ids c2 (drop n l2)"
    using assms(2) by (auto simp: cuts_def)
  have "overlay ids (b1 @ c1) (l1 @ take n l2)"
    using assms(1) c(2) by (rule overlay_append)
  then show ?thesis
    unfolding cuts_def using c by (intro exI [of _ "b1 @ c1"] exI [of _ c2]) simp
qed

lemma cuts_chain:
  assumes "cuts ids base ls n" and "\<And>b2. overlay ids b2 (drop n ls) \<Longrightarrow> cuts ids b2 (drop n ls) m"
  shows "cuts ids base ls (n + m)"
proof -
  obtain b1 b2 where b: "base = b1 @ b2" "overlay ids b1 (take n ls)" "overlay ids b2 (drop n ls)"
    using assms(1) by (auto simp: cuts_def)
  have c: "cuts ids (b1 @ b2) (take n ls @ drop n ls) (length (take n ls) + m)"
    using b assms(2) by (intro cuts_trans) auto
  show ?thesis
  proof (cases "n \<le> length ls")
    case True
    then have "length (take n ls) = n" by simp
    with c b(1) show ?thesis by simp
  next
    case False
    then show ?thesis using b unfolding cuts_def by (intro exI [of _ b1] exI [of _ b2]) simp
  qed
qed

section \<open>Insertion points lie between regions\<close>

lemma begin_not_end: "is_begin l \<Longrightarrow> \<not> is_end l"
  unfolding is_begin_def is_end_def begin_prefix_def end_prefix_def startswith_iff by auto

lemma begin_not_blank: "is_begin l \<Longrightarrow> \<not> is_blank l"
  unfolding is_begin_def is_blank_def begin_prefix_def by auto

lemma region_len_code:
  "\<forall>c \<in> set code. region_line c \<Longrightarrow> is_end e \<Longrightarrow> region_len (code @ e # ls) = Suc (length code)"
  by (induction code) (auto simp: region_line_def)

lemma region_len_cuts: "overlay ids base ls \<Longrightarrow> cuts ids base ls (region_len ls)"
proof (induction rule: overlay.induct)
  case overlay_Nil
  show ?case by (auto simp: cuts_def intro: overlay.overlay_Nil)
next
  case (overlay_keep l base ls)
  then show ?case
    using cuts_keep [of ids l base ls 0] cuts_keep [of ids l base ls] cuts_0 by auto
next
  case (overlay_region b code e base ls)
  have "\<not> is_end b" using overlay_region(1) by (auto simp: opens_def dest: begin_not_end)
  then show ?case
    using overlay_region cuts_region [of ids b code e base ls 0] cuts_0
    by (simp add: region_len_code)
qed

lemma skip_stacked_cuts: "overlay ids base ls \<Longrightarrow> cuts ids base ls (skip_stacked ls)"
proof (induction ls arbitrary: base rule: skip_stacked.induct)
  case 1
  then show ?case by (simp add: cuts_0)
next
  case (2 l ls)
  from "2.prems" show ?case
  proof (cases rule: overlay.cases)
    case (overlay_keep base')
    consider (blank) "is_blank l" | (region) "\<not> is_blank l" "is_begin l"
      | (stop) "\<not> is_blank l" "\<not> is_begin l" by blast
    then show ?thesis
    proof cases
      case blank
      then show ?thesis using 2 overlay_keep by (auto intro: cuts_keep)
    next
      case region
      have "cuts ids base' ls (region_len ls + skip_stacked (drop (region_len ls) ls))"
        using overlay_keep region 2 by (intro cuts_chain region_len_cuts) auto
      then show ?thesis using overlay_keep region by (auto intro: cuts_keep)
    next
      case stop
      then show ?thesis using "2.prems" by (simp add: cuts_0)
    qed
  next
    case (overlay_region code e ls')
    have b: "is_begin l" "\<not> is_blank l"
      using overlay_region by (auto simp: opens_def dest: begin_not_blank)
    have len: "region_len ls = Suc (length code)" and rest: "drop (region_len ls) ls = ls'"
      using overlay_region by (simp_all add: region_len_code)
    have "cuts ids base ls' (skip_stacked ls')"
      using 2(2) b rest overlay_region by simp
    then show ?thesis
      using overlay_region b len rest cuts_region by simp
  qed
qed

lemma anchor_not_marker: "is_anchor l \<Longrightarrow> \<not> is_begin l \<and> \<not> is_end l"
  unfolding is_anchor_def is_begin_def is_end_def begin_prefix_def end_prefix_def
    startswith_iff by auto

lemma anchor_cuts:
  "overlay ids base ls \<Longrightarrow> i < length ls \<Longrightarrow> is_anchor (ls ! i) \<Longrightarrow> cuts ids base ls (Suc i)"
proof (induction arbitrary: i rule: overlay.induct)
  case (overlay_keep l base ls)
  then show ?case
    by (cases i) (auto intro: cuts_keep cuts_0)
next
  case (overlay_region b code e base ls)
  have b: "\<not> is_anchor b" and e: "\<not> is_anchor e"
    using overlay_region anchor_not_marker by (auto simp: opens_def)
  have "\<not> i < Suc (Suc (length code))"
  proof
    assume i: "i < Suc (Suc (length code))"
    have "(b # code @ e # ls) ! i \<in> set (b # code @ [e])"
      using i by (auto simp: nth_Cons nth_append split: nat.splits)
    then show False
      using overlay_region.prems(2) overlay_region.hyps(2) b e by (auto simp: region_line_def)
  qed
  then obtain j where j: "i = Suc (Suc (length code + j))"
    by (metis add_Suc less_imp_Suc_add linorder_not_less le_iff_add)
  have "cuts ids base ls (Suc j)"
    using overlay_region.prems j by (intro overlay_region.IH) (auto simp: nth_append)
  then show ?case
    using overlay_region.hyps cuts_region [of ids b code e base ls "Suc j"] j by simp
qed simp

lemma find_anchor_from_Some:
  "find_anchor_from n ls a = Some i \<Longrightarrow>
     n \<le> i \<and> i - n < length ls \<and> strip (ls ! (i - n)) = anchor_comment a"
proof (induction n ls a rule: find_anchor_from.induct)
  case (2 n l ls a)
  show ?case
  proof (cases "strip l = anchor_comment a")
    case False
    then have "Suc n \<le> i \<and> i - Suc n < length ls \<and> strip (ls ! (i - Suc n)) = anchor_comment a"
      using 2 by simp
    moreover from this have "i - n = Suc (i - Suc n)" by arith
    ultimately show ?thesis by simp
  qed (use 2 in simp)
qed simp

lemma find_anchor_Some:
  assumes "find_anchor ls a = Some i"
  shows "i < length ls" and "strip (ls ! i) = anchor_comment a" and "is_anchor (ls ! i)"
  using find_anchor_from_Some [of 0 ls a i] assms
  by (auto simp: find_anchor_def is_anchor_def anchor_comment_def)

lemma insertion_point_cuts:
  assumes "overlay ids base ls" and "find_anchor ls a = Some i"
  shows "cuts ids base ls (insertion_point ls i)"
proof -
  have "cuts ids base ls (Suc i)"
    using assms find_anchor_Some anchor_cuts by blast
  then show ?thesis
    unfolding insertion_point_def
    using cuts_chain [of ids base ls "Suc i"] skip_stacked_cuts by simp
qed

section \<open>Sentinel blocks are regions\<close>

lemma indent_of_space: "c \<in> set (indent_of l) \<Longrightarrow> is_space c"
proof -
  have "indent_of l = takeWhile is_space l"
    unfolding indent_of_def lstrip_def
    by (metis add_diff_cancel_right' append_eq_conv_conj length_append takeWhile_dropWhile_id)
  then show "c \<in> set (indent_of l) \<Longrightarrow> is_space c"
    by (auto dest: set_takeWhileD)
qed

lemma not_space_hash [simp]: "\<not> is_space (CHR ''#'')"
  by (simp add: is_space_def)

lemma strip_marker:
  assumes "\<And>c. c \<in> set ind \<Longrightarrow> is_space c" and "token anchor"
  shows "strip (ind @ CHR ''#'' # s @ anchor) = CHR ''#'' # s @ anchor"
  using assms by (auto simp: strip_append_space token_def intro: strip_id)

lemma sentinel_begin:
  assumes "\<And>c. c \<in> set ind \<Longrightarrow> is_space c" and "token app" and "token anchor"
  shows "is_begin (ind @ ''# xmix:begin '' @ app @ '' '' @ anchor)"
    and "begin_app (ind @ ''# xmix:begin '' @ app @ '' '' @ anchor) = Some app"
proof -
  have s: "strip (ind @ ''# xmix:begin '' @ app @ '' '' @ anchor)
           = ''# xmix:begin '' @ app @ '' '' @ anchor"
    using strip_marker [OF assms(1,3), of ind "'' xmix:begin '' @ app @ '' ''"] by simp
  then show "is_begin (ind @ ''# xmix:begin '' @ app @ '' '' @ anchor)"
    by (simp add: is_begin_def begin_prefix_def)
  have "token ''#''" and "token ''xmix:begin''" by (simp_all add: token_def is_space_def)
  then have "split_ws (''#'' @ CHR '' '' # ''xmix:begin'' @ CHR '' '' # app @ CHR '' '' # anchor)
        = [''#'', ''xmix:begin'', app, anchor]"
    using assms(2,3) by (simp only: split_ws_word split_ws_single)
  then show "begin_app (ind @ ''# xmix:begin '' @ app @ '' '' @ anchor) = Some app"
    unfolding begin_app_def s by simp
qed

lemma sentinel_end:
  assumes "\<And>c. c \<in> set ind \<Longrightarrow> is_space c" and "token anchor"
  shows "is_end (ind @ ''# xmix:end '' @ app @ '' '' @ anchor)"
proof -
  have "strip (ind @ ''# xmix:end '' @ app @ '' '' @ anchor)
        = ''# xmix:end '' @ app @ '' '' @ anchor"
    using strip_marker [OF assms, of ind "'' xmix:end '' @ app @ '' ''"] by simp
  then show ?thesis by (simp add: is_end_def end_prefix_def)
qed

lemma region_line_indent:
  assumes "\<And>c. c \<in> set ind \<Longrightarrow> is_space c" and "region_line l"
  shows "region_line (if is_blank l then [] else ind @ l)"
  using assms
  by (auto simp: region_line_def is_end_def is_anchor_def strip_append_space end_prefix_def)

lemma insert_stacked_overlay:
  assumes "insert_stacked ls anchor app code = Inr ls'" and "overlay ids base ls"
    and "token app" and "token anchor" and "app_selected ids (Some app)"
    and "\<forall>c \<in> set code. region_line c"
  shows "overlay ids base ls'"
proof -
  obtain i where i: "find_anchor ls anchor = Some i"
    using assms(1) by (auto simp: insert_stacked_def split: option.splits)
  let ?at = "insertion_point ls i" and ?ind = "indent_of (ls ! i)"
  have ls': "ls' = take ?at ls @ sentinel_block ?ind app anchor code @ drop ?at ls"
    using assms(1) i by (simp add: insert_stacked_def Let_def)
  obtain b1 b2 where b: "base = b1 @ b2" "overlay ids b1 (take ?at ls)" "overlay ids b2 (drop ?at ls)"
    using insertion_point_cuts [OF assms(2) i] by (auto simp: cuts_def)
  let ?code = "map (\<lambda>cl. if is_blank cl then [] else ?ind @ cl) code"
  have ind: "\<And>c. c \<in> set ?ind \<Longrightarrow> is_space c" by (rule indent_of_space)
  have "region_line (if is_blank c then [] else ?ind @ c)" if "c \<in> set code" for c
    using region_line_indent [of ?ind c] ind assms(6) that by blast
  then have "\<forall>c \<in> set ?code. region_line c"
    unfolding set_map by blast
  then have "overlay ids b2 ((?ind @ ''# xmix:begin '' @ app @ '' '' @ anchor) # ?code
      @ (?ind @ ''# xmix:end '' @ app @ '' '' @ anchor) # drop ?at ls)"
    using assms(5) b(3) sentinel_begin [OF ind assms(3,4)] sentinel_end [OF ind assms(4)]
    by (intro overlay_region) (simp_all only: opens_def)
  then show ?thesis
    using overlay_append [OF b(2)] by (simp add: ls' b(1) sentinel_block_def)
qed

section \<open>Patching a file\<close>

text \<open>What the round trip asks of a block: its anchor and its app id are single words, and
  its code holds no end marker and no anchor comment.\<close>

definition clean_item :: "string \<times> string \<times> string list \<Rightarrow> bool" where
  "clean_item item \<longleftrightarrow>
     (case item of (anchor, app, code) \<Rightarrow>
        token anchor \<and> token app \<and> (\<forall>c \<in> set code. region_line c))"

lemma footprint_region_line:
  "l \<in> set (footprint_lines app fps) \<Longrightarrow> region_line l"
proof -
  assume "l \<in> set (footprint_lines app fps)"
  then obtain r where l: "l = ''# xmix:footprint '' @ r"
    by (auto simp: footprint_lines_def)
  have "startswith (strip l) ''# xmix:footprint''"
  proof -
    have "lstrip l = l" by (simp add: l lstrip_nonspace)
    moreover have "rstrip (''# xmix:footprint'' @ (CHR '' '' # r))
        = ''# xmix:footprint'' @ rstrip (CHR '' '' # r)"
      by (simp add: rstrip_def is_space_def dropWhile_append)
    ultimately show ?thesis by (simp add: strip_def l)
  qed
  then show ?thesis
    unfolding region_line_def is_end_def is_anchor_def end_prefix_def startswith_iff by auto
qed

lemma patch_lines_overlay:
  assumes "patch_lines app_fps batch items lines = Inr ls'"
    and "\<forall>it \<in> set items. clean_item it \<and> fst (snd it) \<in> batch"
  shows "overlay (Some batch) (strip_app_regions lines (Some batch)) ls'"
  using assms(1) unfolding patch_lines_def
proof (rule foldE_invariant)
  show "overlay (Some batch) (strip_app_regions lines (Some batch))
          (strip_app_regions lines (Some batch))"
    unfolding strip_app_regions_def using strip_loop_no_opens by (blast intro: overlay_refl)
next
  fix it s t
  assume "it \<in> set items" and "overlay (Some batch) (strip_app_regions lines (Some batch)) s"
    and "insert_stacked s (fst it) (fst (snd it)) (item_code app_fps it) = Inr t"
  moreover obtain anchor app code where it: "it = (anchor, app, code)" by (cases it)
  moreover from calculation have c: "token anchor" "token app" "\<forall>c \<in> set code. region_line c"
    "app \<in> batch"
    using assms(2) by (auto simp: clean_item_def)
  moreover have "\<forall>c \<in> set (item_code app_fps it). region_line c"
    using c(3) footprint_region_line by (auto simp: it item_code_def)
  ultimately show "overlay (Some batch) (strip_app_regions lines (Some batch)) t"
    by (auto simp: app_selected_def elim: insert_stacked_overlay)
qed

lemma patch_lines_strip:
  assumes "patch_lines app_fps batch items lines = Inr ls'"
    and "\<forall>it \<in> set items. clean_item it \<and> fst (snd it) \<in> batch"
  shows "strip_app_regions ls' (Some batch) = strip_app_regions lines (Some batch)"
  using overlay_strip [OF patch_lines_overlay [OF assms]] by (simp add: strip_app_regions_def)

section \<open>Blocks and plans\<close>

lemma APPLY_RE_token: "APPLY_RE s = Some (f, a) \<Longrightarrow> token f \<and> token a"
  by (auto simp: APPLY_RE_def split: option.splits if_splits dest!: match_token_Some)

text \<open>A block under construction: words for file and anchor, lines of the text.\<close>

definition block_ok :: "string set \<Rightarrow> block \<Rightarrow> bool" where
  "block_ok L b \<longleftrightarrow> token (fst b) \<and> token (fst (snd b)) \<and> set (snd (snd b)) \<subseteq> L"

lemma block_line_ok:
  assumes "list_all (block_ok L) (fst st)" "pred_option (block_ok L) (snd st)" "line \<in> L"
  shows "list_all (block_ok L) (fst (block_line line st))
    \<and> pred_option (block_ok L) (snd (block_line line st))"
  using assms
  by (auto simp: block_line_def block_ok_def dest: APPLY_RE_token
      split: prod.splits option.splits)

lemma fold_block_line_ok:
  "list_all (block_ok L) (fst st) \<Longrightarrow> pred_option (block_ok L) (snd st) \<Longrightarrow> set lines \<subseteq> L \<Longrightarrow>
     list_all (block_ok L) (fst (fold block_line lines st))
     \<and> pred_option (block_ok L) (snd (fold block_line lines st))"
proof (induction lines arbitrary: st)
  case (Cons l lines)
  then show ?case using block_line_ok [of L st l] by simp
qed simp

lemma trim_blank_subset: "set (trim_blank ls) \<subseteq> set ls"
  by (auto simp: trim_blank_def dest!: set_dropWhileD)

lemma parse_blocks_ok:
  assumes "(f, a, ls) \<in> set (parse_blocks text)"
  shows "token f" "token a" "set ls \<subseteq> set (splitlines text)"
proof -
  let ?L = "set (splitlines text)"
  obtain blocks cur where r: "fold block_line (splitlines text) ([], None) = (blocks, cur)"
    by fastforce
  have "list_all (block_ok ?L) blocks \<and> pred_option (block_ok ?L) cur"
    using fold_block_line_ok [of ?L "([], None)" "splitlines text"] r by simp
  then have ok: "\<forall>b \<in> set (blocks @ (case cur of None \<Rightarrow> [] | Some c \<Rightarrow> [c])). block_ok ?L b"
    by (auto simp: list_all_iff split: option.splits)
  obtain c where "(f, a, c) \<in> set (blocks @ (case cur of None \<Rightarrow> [] | Some c \<Rightarrow> [c]))"
    and ls: "ls = trim_blank c"
    using assms by (auto simp: parse_blocks_def r)
  then have "block_ok ?L (f, a, c)" using ok by blast
  then show "token f" "token a" "set ls \<subseteq> set (splitlines text)"
    using ls trim_blank_subset [of c] by (simp_all add: block_ok_def) blast
qed

text \<open>The plan lists the blocks of the synthesized files in order, tagged with the app id.\<close>

definition file_plan :: "fs \<Rightarrow> string option \<Rightarrow> string \<Rightarrow> plan_item list" where
  "file_plan fs override p =
     map (\<lambda>(file, anchor, code). (file, anchor, app_id_from p override, code))
       (parse_blocks (the (fs p)))"

lemma plan_files:
  assumes "foldE (plan_file fs override) paths (plan0, apps0, fps0) = Inr (plan, apps, fps)"
  shows "plan = plan0 @ concat (map (file_plan fs override) paths)
    \<and> apps = apps0 @ map (\<lambda>p. app_id_from p override) paths
    \<and> (\<forall>p \<in> set paths. fs p \<noteq> None)"
  using assms
proof (induction paths arbitrary: plan0 apps0 fps0)
  case (Cons p paths)
  then obtain st where st: "plan_file fs override p (plan0, apps0, fps0) = Inr st"
    and rest: "foldE (plan_file fs override) paths st = Inr (plan, apps, fps)" by auto
  obtain fps' where "st = (plan0 @ file_plan fs override p,
      apps0 @ [app_id_from p override], fps')" and "fs p \<noteq> None"
    using st by (auto simp: plan_file_def file_plan_def Let_def)
  then show ?case
    using Cons.IH [of "plan0 @ file_plan fs override p" "apps0 @ [app_id_from p override]" fps']
      rest by auto
qed simp

text \<open>Every recorded footprint has words for flag and submodule.\<close>

lemma FOOTPRINT_RE_token: "FOOTPRINT_RE s = Some (fl, sub, lay) \<Longrightarrow> token fl \<and> token sub"
  by (auto simp: FOOTPRINT_RE_def split: option.splits if_splits dest!: match_token_Some)

lemma parse_footprints_token:
  assumes "parse_footprints text = Inr fps" and "(fl, sub, lay) \<in> set fps"
  shows "token fl \<and> token sub"
proof -
  let ?f = "\<lambda>(flag, sub, lay). bindE (parse_layers lay) (\<lambda>l. Inr (flag, sub, l))"
  obtain x where "x \<in> set (List.map_filter (\<lambda>line. FOOTPRINT_RE (strip line)) (splitlines text))"
    and x: "?f x = Inr (fl, sub, lay)"
    using assms mapE_Inr_set [of ?f] unfolding parse_footprints_def by metis
  then obtain line where "FOOTPRINT_RE (strip line) = Some x" by (auto simp: List.map_filter_def)
  moreover obtain lay' where "x = (fl, sub, lay')" using x by (cases x) auto
  ultimately show ?thesis using FOOTPRINT_RE_token by simp
qed

lemma plan_footprints_token:
  assumes "foldE (plan_file fs override) paths (plan0, apps0, fps0) = Inr (plan, apps, fps)"
    and "\<And>app fl sub lay. (fl, sub, lay) \<in> set (fps0 app) \<Longrightarrow> token fl \<and> token sub"
    and "(fl, sub, lay) \<in> set (fps app)"
  shows "token fl \<and> token sub"
  using assms
proof (induction paths arbitrary: plan0 apps0 fps0)
  case (Cons p paths)
  then obtain st where st: "plan_file fs override p (plan0, apps0, fps0) = Inr st"
    and rest: "foldE (plan_file fs override) paths st = Inr (plan, apps, fps)" by auto
  obtain txt' new plan' apps' where new: "parse_footprints txt' = Inr new"
    and "st = (plan', apps', fps0(app_id_from p override := new))"
    using st by (auto simp: plan_file_def Let_def)
  moreover have "\<And>app fl sub lay. (fl, sub, lay) \<in> set ((fps0(app_id_from p override := new)) app) \<Longrightarrow>
      token fl \<and> token sub"
    using Cons.prems(2) parse_footprints_token [OF new] by (simp split: if_splits)
  ultimately show ?case
    using Cons.IH [of plan' apps' "fps0(app_id_from p override := new)"] rest Cons.prems(3)
    by blast
qed auto

section \<open>Plain lines\<close>

lemma plain_Cons [simp]: "plain_line (c # s) \<longleftrightarrow> \<not> is_linebreak c \<and> plain_line s"
  by (auto simp: plain_line_def)

lemma plain_join:
  "plain_line sep \<Longrightarrow> (\<And>x. x \<in> set xs \<Longrightarrow> plain_line x) \<Longrightarrow> plain_line (join sep xs)"
  using join_set unfolding plain_line_def by fastforce

lemma layers_str_plain: "plain_line (layers_str l)"
  by (auto simp: layers_str_def is_linebreak_def token_plain intro!: plain_join
      split: layer_set.splits)

lemma indent_plain: "plain_line l \<Longrightarrow> plain_line (indent_of l)"
  by (auto simp: indent_of_def plain_line_def dest: in_set_takeD)

lemma insert_stacked_plain:
  assumes "insert_stacked ls anchor app code = Inr ls'"
    and "\<forall>l \<in> set ls. plain_line l" and "\<forall>l \<in> set code. plain_line l"
    and "token app" and "token anchor"
  shows "\<forall>l \<in> set ls'. plain_line l"
proof -
  obtain i where i: "find_anchor ls anchor = Some i"
    using assms(1) by (auto simp: insert_stacked_def split: option.splits)
  then have ind: "plain_line (indent_of (ls ! i))"
    using assms(2) find_anchor_Some(1) by (auto intro: indent_plain)
  have "\<forall>l \<in> set (sentinel_block (indent_of (ls ! i)) app anchor code). plain_line l"
    using ind assms(3-5)
    by (auto simp: sentinel_block_def is_linebreak_def token_plain)
  then show ?thesis
    using assms(1,2) i
    by (auto simp: insert_stacked_def Let_def dest!: in_set_takeD in_set_dropD)
qed

lemma strip_loop_subset: "set (strip_loop ids sk ls) \<subseteq> set ls"
  by (induction ids sk ls rule: strip_loop.induct) auto

section \<open>Writing and reverting files\<close>

lemma set_nub [simp]: "set (nub xs) = set xs"
  by (induction xs rule: nub.induct) auto

lemma distinct_nub [simp]: "distinct (nub xs)"
  by (induction xs rule: nub.induct) auto

lemma write_files_result:
  assumes "write_files disk app_fps batch False rd groups fs out = (Inr out', fs')"
    and "distinct (map fst groups)"
  shows "(f \<notin> fst ` set groups \<longrightarrow> fs' f = fs f)
    \<and> (\<forall>items. (f, items) \<in> set groups \<longrightarrow>
         (\<exists>t ls. rd f = Some t \<and> patch_lines app_fps batch items (splitlines t) = Inr ls
                \<and> fs' f = Some (unlines ls) \<and> disk f = Written))"
  using assms
proof (induction groups arbitrary: fs)
  case (Cons g groups)
  obtain f0 items0 where g: "g = (f0, items0)" by (cases g)
  obtain t ls where t: "rd f0 = Some t" "patch_lines app_fps batch items0 (splitlines t) = Inr ls"
    and d: "disk f0 = Written"
    and rest: "write_files disk app_fps batch False rd groups (fs(f0 \<mapsto> unlines ls)) out = (Inr out', fs')"
    using Cons.prems(1) by (auto simp: g write_text_def split: option.splits sum.splits write_outcome.splits)
  show ?case
  proof (cases "f = f0")
    case True
    then have "f \<notin> fst ` set groups" using Cons.prems(2) g by simp
    then have "fs' f = Some (unlines ls)"
      using Cons.IH [OF rest] Cons.prems(2) True by simp
    then show ?thesis using t d True g \<open>f \<notin> fst ` set groups\<close> by force
  next
    case False
    then show ?thesis using Cons.IH [OF rest] Cons.prems(2) g by simp
  qed
qed simp

text \<open>What \<open>revert\<close> leaves of a file when its write succeeds.\<close>

definition reverted :: "string set option \<Rightarrow> string \<Rightarrow> fs \<Rightarrow> fs" where
  "reverted app_ids file fs =
     (case fs file of
        None \<Rightarrow> fs
      | Some text \<Rightarrow>
          (let lines = splitlines text; stripped = strip_app_regions lines app_ids
           in if stripped \<noteq> lines then fs(file \<mapsto> unlines stripped) else fs))"

lemma revert_files_written:
  "\<forall>f \<in> set files. disk f = Written \<Longrightarrow> revert_files disk ids files fs = (Inr [], fold (reverted ids) files fs)"
  by (induction files arbitrary: fs)
    (auto simp: revert_file_def reverted_def write_text_def Let_def split: option.splits)

lemma reverted_other: "f \<noteq> file \<Longrightarrow> reverted ids file fs f = fs f"
  by (simp add: reverted_def Let_def split: option.splits)

lemma reverted_local: "fs file = fs2 file \<Longrightarrow> reverted ids file fs file = reverted ids file fs2 file"
  by (simp add: reverted_def Let_def split: option.splits)

lemma fold_reverted:
  "distinct files \<Longrightarrow>
     fold (reverted ids) files fs f
     = (if f \<in> set files then reverted ids f fs f else fs f)"
proof (induction files arbitrary: fs)
  case (Cons g files)
  then show ?case
    using reverted_other [of f g ids fs] reverted_local [of "reverted ids g fs" f fs ids]
    by auto
qed simp

text \<open>A text in the form in which the tool writes it back: every line closed by a newline.\<close>

definition canonical :: "string \<Rightarrow> bool" where
  "canonical t \<longleftrightarrow> unlines (splitlines t) = t"

lemma splitlines_unlines:
  "(\<And>l. l \<in> set ls \<Longrightarrow> plain_line l) \<Longrightarrow> ls \<noteq> [] \<Longrightarrow> splitlines (unlines ls) = ls"
  unfolding unlines_def by (rule splitlines_join_LF)

lemma patch_lines_plain:
  assumes "patch_lines app_fps batch items (splitlines t) = Inr ls'"
    and "\<forall>it \<in> set items. token (fst it) \<and> token (fst (snd it))
           \<and> (\<forall>l \<in> set (snd (snd it)). plain_line l)"
    and "\<And>app fl sub lay. (fl, sub, lay) \<in> set (app_fps app) \<Longrightarrow> token fl \<and> token sub"
  shows "\<forall>l \<in> set ls'. plain_line l"
  using assms(1) unfolding patch_lines_def
proof (rule foldE_invariant)
  show "\<forall>l \<in> set (strip_app_regions (splitlines t) (Some batch)). plain_line l"
    using strip_loop_subset splitlines_plain unfolding strip_app_regions_def by blast
next
  fix it s s'
  assume it: "it \<in> set items" and s: "\<forall>l \<in> set s. plain_line l"
    and ins: "insert_stacked s (fst it) (fst (snd it)) (item_code app_fps it) = Inr s'"
  obtain anchor app code where e: "it = (anchor, app, code)" by (cases it)
  have "\<forall>l \<in> set (footprint_lines app (app_fps app)). plain_line l"
    using assms(2,3) it e layers_str_plain
    by (auto simp: footprint_lines_def is_linebreak_def token_plain)
  then have "\<forall>l \<in> set (item_code app_fps it). plain_line l"
    using assms(2) it e by (auto simp: item_code_def)
  then show "\<forall>l \<in> set s'. plain_line l"
    using insert_stacked_plain [OF ins s] assms(2) it by blast
qed

lemma insert_stacked_ne: "insert_stacked ls anchor app code = Inr ls' \<Longrightarrow> ls' \<noteq> []"
  by (auto simp: insert_stacked_def Let_def sentinel_block_def split: option.splits)

lemma patch_lines_ne:
  assumes "patch_lines app_fps batch items lines = Inr ls" and "items \<noteq> []"
  shows "ls \<noteq> []"
proof -
  obtain it rest where items: "items = it # rest" using assms(2) by (cases items) auto
  let ?ins = "\<lambda>item ls. insert_stacked ls (fst item) (fst (snd item)) (item_code app_fps item)"
  obtain s where s: "?ins it (strip_app_regions lines (Some batch)) = Inr s"
    and "foldE ?ins rest s = Inr ls"
    using assms(1) unfolding patch_lines_def items by auto
  from this(2) show ?thesis
    by (rule foldE_invariant) (use s insert_stacked_ne in blast)+
qed

text \<open>Reverting a file just patched gives what reverting it before would have given.\<close>

lemma revert_patched:
  assumes patch: "patch_lines app_fps batch items (splitlines t) = Inr ls" "items \<noteq> []"
    and clean: "\<forall>it \<in> set items. clean_item it \<and> fst (snd it) \<in> batch"
    and plain: "\<forall>l \<in> set ls. plain_line l"
    and t: "canonical t" "fs f = Some t"
    and fs': "fs' f = Some (unlines ls)"
  shows "reverted (Some batch) f fs' f = reverted (Some batch) f fs f"
proof -
  have strip: "strip_app_regions ls (Some batch) = strip_app_regions (splitlines t) (Some batch)"
    using patch_lines_strip [OF patch(1) clean] .
  have "splitlines (unlines ls) = ls"
    using plain patch_lines_ne [OF patch] by (intro splitlines_unlines) auto
  then have "reverted (Some batch) f fs' f = Some (unlines (strip_app_regions ls (Some batch)))"
    using fs' by (simp add: reverted_def Let_def)
  moreover have "reverted (Some batch) f fs f
      = Some (unlines (strip_app_regions (splitlines t) (Some batch)))"
    using t by (simp add: reverted_def Let_def canonical_def)
  ultimately show ?thesis by (simp only: strip)
qed

section \<open>The commands\<close>

text \<open>The target files of a synthesized file, and the side conditions of the round trip: app
  ids are single words, the synthesized text holds no marker or anchor comment of its own,
  and the targets exist, close every line, and are not themselves among the inputs.\<close>

definition text_of :: "fs \<Rightarrow> string \<Rightarrow> string" where
  "text_of fs p = (case fs p of None \<Rightarrow> [] | Some t \<Rightarrow> t)"

definition target_files :: "fs \<Rightarrow> string \<Rightarrow> string list" where
  "target_files fs p = map fst (parse_blocks (text_of fs p))"

definition revertible :: "fs \<Rightarrow> string list \<Rightarrow> string option \<Rightarrow> bool" where
  "revertible fs paths override \<longleftrightarrow>
     list_all (\<lambda>p.
       token (app_id_from p override)
       \<and> list_all region_line (splitlines (text_of fs p))
       \<and> list_all (\<lambda>f. f \<notin> set paths \<and> (case fs f of None \<Rightarrow> False | Some t \<Rightarrow> canonical t))
           (target_files fs p)) paths"

text \<open>What a successful, non-dry \<open>cmd_apply\<close> has done.\<close>

lemma cmd_apply_Inr:
  assumes "cmd_apply disk fs paths override False = (Inr out, fs')"
  obtains plan app_fps where
    "plan = concat (map (file_plan fs override) paths)"
    "foldE (plan_file fs override) paths ([], [], \<lambda>_. [])
       = Inr (plan, map (\<lambda>p. app_id_from p override) paths, app_fps)"
    "check_conflicts fs (map (\<lambda>p. app_id_from p override) paths) app_fps = Inr ()"
    "concat (map (missing_in_file fs) (group_by_file plan)) = []"
    "write_files disk app_fps ((\<lambda>p. app_id_from p override) ` set paths) False fs
       (group_by_file plan) fs [] = (Inr out, fs')"
    "\<forall>p \<in> set paths. fs p \<noteq> None"
proof -
  obtain plan apps app_fps where
    plan: "foldE (plan_file fs override) paths ([], [], \<lambda>_. []) = Inr (plan, apps, app_fps)"
    using assms by (auto simp: cmd_apply_def split: sum.splits)
  have p: "plan = concat (map (file_plan fs override) paths)"
    and a: "apps = map (\<lambda>p. app_id_from p override) paths"
    and e: "\<forall>p \<in> set paths. fs p \<noteq> None"
    using plan_files [OF plan] by simp_all
  have c: "check_conflicts fs apps app_fps = Inr ()"
    using assms plan by (simp add: cmd_apply_def split: sum.splits)
  have m: "concat (map (missing_in_file fs) (group_by_file plan)) = []"
    using assms plan c by (simp add: cmd_apply_def Let_def split: if_splits)
  have "write_files disk app_fps (set apps) False fs (group_by_file plan) fs [] = (Inr out, fs')"
    using assms plan c m by (simp add: cmd_apply_def Let_def)
  then show ?thesis
    using that [OF p plan [unfolded a] c [unfolded a] m _ e] by (simp only: a set_map)
qed

lemma group_by_file_mem:
  "(f, items) \<in> set (group_by_file plan) \<longleftrightarrow> f \<in> fst ` set plan \<and> items = items_for plan f"
  by (auto simp: group_by_file_def)

lemma group_by_file_distinct: "distinct (map fst (group_by_file plan))"
  by (simp add: group_by_file_def o_def)

lemma items_for_ne: "f \<in> fst ` set plan \<Longrightarrow> items_for plan f \<noteq> []"
  by (force simp: items_for_def filter_empty_conv)

text \<open>The plan of the batch, item by item.\<close>

lemma plan_item:
  assumes "(f, anchor, app, code) \<in> set (concat (map (file_plan fs override) paths))"
    and "\<forall>p \<in> set paths. fs p \<noteq> None"
  obtains p where "p \<in> set paths" "app = app_id_from p override"
    "(f, anchor, code) \<in> set (parse_blocks (text_of fs p))" "f \<in> set (target_files fs p)"
proof -
  obtain p where p: "p \<in> set paths" "(f, anchor, app, code) \<in> set (file_plan fs override p)"
    using assms(1) by auto
  then have "app = app_id_from p override" "(f, anchor, code) \<in> set (parse_blocks (text_of fs p))"
    using assms(2) by (auto simp: file_plan_def text_of_def)
  then show ?thesis using that p by (force simp: target_files_def)
qed

lemma plan_targets:
  assumes "\<forall>p \<in> set paths. fs p \<noteq> None"
  shows "fst ` set (concat (map (file_plan fs override) paths))
    = (\<Union>p \<in> set paths. set (target_files fs p))"
  using assms by (force simp: file_plan_def target_files_def text_of_def)

lemma items_clean:
  assumes "revertible fs paths override" and "\<forall>p \<in> set paths. fs p \<noteq> None"
    and "(anchor, app, code) \<in> set (items_for (concat (map (file_plan fs override) paths)) f)"
  shows "clean_item (anchor, app, code)" "app \<in> (\<lambda>p. app_id_from p override) ` set paths"
    "\<forall>l \<in> set code. plain_line l"
proof -
  have "(f, anchor, app, code) \<in> set (concat (map (file_plan fs override) paths))"
    using assms(3) by (auto simp: items_for_def)
  then obtain p where p: "p \<in> set paths" "app = app_id_from p override"
    and b: "(f, anchor, code) \<in> set (parse_blocks (text_of fs p))"
    using assms(2) by (rule plan_item)
  show "clean_item (anchor, app, code)"
    using parse_blocks_ok [OF b] assms(1) p by (auto simp: clean_item_def revertible_def list_all_iff)
  show "app \<in> (\<lambda>p. app_id_from p override) ` set paths" using p by blast
  show "\<forall>l \<in> set code. plain_line l"
    using parse_blocks_ok(3) [OF b] splitlines_plain by blast
qed

lemma apply_revert_file:
  assumes ap: "cmd_apply disk fs paths override False = (Inr out, fs')"
    and rev: "revertible fs paths override"
    and f: "f \<in> (\<Union>p \<in> set paths. set (target_files fs p))"
  shows "reverted (Some ((\<lambda>p. app_id_from p override) ` set paths)) f fs' f
    = reverted (Some ((\<lambda>p. app_id_from p override) ` set paths)) f fs f"
proof -
  obtain plan app_fps where plan: "plan = concat (map (file_plan fs override) paths)"
    and fold: "foldE (plan_file fs override) paths ([], [], \<lambda>_. [])
       = Inr (plan, map (\<lambda>p. app_id_from p override) paths, app_fps)"
    and w: "write_files disk app_fps ((\<lambda>p. app_id_from p override) ` set paths) False fs
       (group_by_file plan) fs [] = (Inr out, fs')"
    and ex: "\<forall>p \<in> set paths. fs p \<noteq> None"
    using ap by (rule cmd_apply_Inr)
  let ?items = "items_for plan f"
  have fp: "f \<in> fst ` set plan" using f plan_targets [OF ex] plan by simp
  obtain t ls where t: "fs f = Some t" "fs' f = Some (unlines ls)"
    and patch: "patch_lines app_fps ((\<lambda>p. app_id_from p override) ` set paths) ?items (splitlines t) = Inr ls"
    using write_files_result [OF w group_by_file_distinct, of f] fp by (auto simp: group_by_file_mem)
  have clean: "\<forall>it \<in> set ?items. clean_item it \<and> fst (snd it) \<in> (\<lambda>p. app_id_from p override) ` set paths
      \<and> (\<forall>l \<in> set (snd (snd it)). plain_line l)"
    using items_clean [OF rev ex] plan by auto
  have "token fl \<and> token sub" if "(fl, sub, lay) \<in> set (app_fps app)" for app fl sub lay
    using plan_footprints_token [OF fold _ that] by simp
  moreover have "\<forall>it \<in> set ?items. token (fst it) \<and> token (fst (snd it))
      \<and> (\<forall>l \<in> set (snd (snd it)). plain_line l)"
    using clean by (simp add: clean_item_def case_prod_unfold)
  ultimately have "\<forall>l \<in> set ls. plain_line l"
    using patch_lines_plain [OF patch] by blast
  moreover have "canonical t"
    using f t(1) rev by (fastforce simp: revertible_def list_all_iff)
  ultimately show ?thesis
    using clean by (intro revert_patched [where fs = fs and fs' = fs' and f = f, OF patch items_for_ne [OF fp] _ _ _ t]) simp_all
qed

text \<open>Only target files change, so the synthesized files are read back as they were.\<close>

lemma cmd_apply_other:
  assumes "cmd_apply disk fs paths override False = (Inr out, fs')"
    and "f \<notin> (\<Union>p \<in> set paths. set (target_files fs p))"
  shows "fs' f = fs f"
proof -
  obtain plan app_fps where plan: "plan = concat (map (file_plan fs override) paths)"
    and w: "write_files disk app_fps ((\<lambda>p. app_id_from p override) ` set paths) False fs
       (group_by_file plan) fs [] = (Inr out, fs')"
    and ex: "\<forall>p \<in> set paths. fs p \<noteq> None"
    using assms(1) by (rule cmd_apply_Inr)
  have "f \<notin> fst ` set (group_by_file plan)"
    using assms(2) plan_targets [OF ex] plan by (auto simp: group_by_file_def)
  then show ?thesis using write_files_result [OF w group_by_file_distinct, of f] by blast
qed

lemma cmd_apply_written:
  assumes "cmd_apply disk fs paths override False = (Inr out, fs')" and "f \<in> (\<Union>p \<in> set paths. set (target_files fs p))"
  shows "disk f = Written"
proof -
  obtain plan app_fps where plan: "plan = concat (map (file_plan fs override) paths)"
    and w: "write_files disk app_fps ((\<lambda>p. app_id_from p override) ` set paths) False fs
       (group_by_file plan) fs [] = (Inr out, fs')"
    and ex: "\<forall>p \<in> set paths. fs p \<noteq> None"
    using assms(1) by (rule cmd_apply_Inr)
  have "(f, items_for plan f) \<in> set (group_by_file plan)"
    using assms(2) plan_targets [OF ex] plan by (simp add: group_by_file_mem)
  then show ?thesis using write_files_result [OF w group_by_file_distinct, of f] by blast
qed

lemma cmd_revert_result:
  assumes "paths \<noteq> []" and "\<forall>p \<in> set paths. fs p \<noteq> None"
    and d: "\<forall>f \<in> (\<Union>p \<in> set paths. set (target_files fs p)). disk f = Written"
  shows "cmd_revert disk fs paths override =
    (Inr [], fold (reverted (Some ((\<lambda>p. app_id_from p override) ` set paths)))
       (sorted_list_of_set (\<Union>p \<in> set paths. set (target_files fs p))) fs)"
proof -
  have "mapE (\<lambda>p. of_option (ApplyUncaught (OSError p)) (fs p)) paths = Inr (map (text_of fs) paths)"
    using assms(2) by (induction paths) (auto simp: text_of_def of_option_def)
  moreover have "set (concat (map (\<lambda>t. map fst (parse_blocks t)) (map (text_of fs) paths)))
      = (\<Union>p \<in> set paths. set (target_files fs p))"
    by (auto simp: target_files_def)
  moreover have "\<forall>f \<in> set (sorted_list_of_set (\<Union>p \<in> set paths. set (target_files fs p))). disk f = Written" using d by simp
  ultimately show ?thesis using assms(1) revert_files_written by (simp add: cmd_revert_def del: set_concat)
qed

lemma revert_after_apply:
  assumes ap: "cmd_apply disk fs paths override False = (Inr out, fs')"
    and ne: "paths \<noteq> []" and rev: "revertible fs paths override"
  shows "cmd_revert disk fs' paths override = cmd_revert disk fs paths override"
proof -
  let ?T = "\<Union>p \<in> set paths. set (target_files fs p)"
  let ?ids = "Some ((\<lambda>p. app_id_from p override) ` set paths)"
  have ex: "\<forall>p \<in> set paths. fs p \<noteq> None" using ap by (rule cmd_apply_Inr)
  have same: "fs' p = fs p" if "p \<in> set paths" for p
    using rev that by (intro cmd_apply_other [OF ap]) (auto simp: revertible_def list_all_iff)
  then have T: "(\<Union>p \<in> set paths. set (target_files fs' p)) = ?T"
    by (simp add: target_files_def text_of_def)
  have ex': "\<forall>p \<in> set paths. fs' p \<noteq> None" using same ex by simp
  have "fold (reverted ?ids) (sorted_list_of_set ?T) fs' f
      = fold (reverted ?ids) (sorted_list_of_set ?T) fs f" for f
    using apply_revert_file [OF ap rev, of f] cmd_apply_other [OF ap, of f]
    by (simp add: fold_reverted)
  moreover have "\<forall>f \<in> ?T. disk f = Written" using cmd_apply_written [OF ap] by blast
  ultimately show ?thesis
    using cmd_revert_result [OF ne ex] cmd_revert_result [OF ne ex'] T by (simp add: fun_eq_iff)
qed

text \<open>Where no target holds a region of the batch, reverting changes nothing.\<close>

definition pristine :: "fs \<Rightarrow> string list \<Rightarrow> string option \<Rightarrow> bool" where
  "pristine fs paths override \<longleftrightarrow>
     list_all (\<lambda>p. list_all (\<lambda>f. list_all (\<lambda>l.
         \<not> opens (Some (set (map (\<lambda>p. app_id_from p override) paths))) l)
       (splitlines (text_of fs f))) (target_files fs p)) paths"

lemma revert_pristine:
  assumes "pristine fs paths override" and "paths \<noteq> []" and "\<forall>p \<in> set paths. fs p \<noteq> None"
    and "\<forall>f \<in> (\<Union>p \<in> set paths. set (target_files fs p)). disk f = Written"
  shows "cmd_revert disk fs paths override = (Inr [], fs)"
proof -
  let ?T = "\<Union>p \<in> set paths. set (target_files fs p)"
  let ?ids = "Some ((\<lambda>p. app_id_from p override) ` set paths)"
  have "reverted ?ids f fs f = fs f" if "f \<in> ?T" for f
  proof -
    have "\<forall>l \<in> set (splitlines (text_of fs f)). \<not> opens ?ids l"
      using assms(1) that by (auto simp: pristine_def list_all_iff)
    then show ?thesis
      by (simp add: reverted_def text_of_def strip_app_regions_def strip_loop_id
          split: option.splits)
  qed
  then have "fold (reverted ?ids) (sorted_list_of_set ?T) fs f = fs f" for f
    by (simp add: fold_reverted)
  then show ?thesis using cmd_revert_result [OF assms(2-4)] by (simp add: fun_eq_iff)
qed

section \<open>A sample overlay\<close>

text \<open>A target file with one anchor and a synthesized file with one block and one footprint.\<close>

definition sample_target :: string where
  "sample_target = unlines [''def load():'', ''    # xmix:anchor runner_postload'', ''    return 1'']"

definition sample_synth :: string where
  "sample_synth = unlines
     [''# >>> XMIX-FOOTPRINT flag=w submodule=decoder layers=3,4 <<<'',
      ''# >>> XMIX-APPLY file=runner.py anchor=runner_postload <<<'',
      ''install(3)'']"

definition sample_fs :: fs where
  "sample_fs = [''runner.py'' \<mapsto> sample_target, ''out/demo_synth.py'' \<mapsto> sample_synth]"

definition sample_disk :: disk where
  "sample_disk f = Written"

definition sample_applied :: string where
  "sample_applied = unlines
     [''def load():'', ''    # xmix:anchor runner_postload'',
      ''    # xmix:begin demo runner_postload'',
      ''    # xmix:footprint demo w decoder 3,4'',
      ''    install(3)'',
      ''    # xmix:end demo runner_postload'',
      ''    return 1'']"

lemma sample_revertible: "revertible sample_fs [''out/demo_synth.py''] None"
  by code_simp

lemma sample_pristine: "pristine sample_fs [''out/demo_synth.py''] None"
  by code_simp

lemma sample_apply_ok: "fst (cmd_apply sample_disk sample_fs [''out/demo_synth.py''] None False) = Inr []"
  by code_simp

lemma sample_apply_text:
  "snd (cmd_apply sample_disk sample_fs [''out/demo_synth.py''] None False) ''runner.py'' = Some sample_applied"
  by code_simp

lemma sample_applied_state:
  "cmd_apply sample_disk sample_fs [''out/demo_synth.py''] None False
     = (Inr [], sample_fs(''runner.py'' \<mapsto> sample_applied))"
proof -
  let ?r = "cmd_apply sample_disk sample_fs [''out/demo_synth.py''] None False"
  have r: "?r = (Inr [], snd ?r)" using sample_apply_ok by (metis prod.collapse)
  have "target_files sample_fs ''out/demo_synth.py'' = [''runner.py'']" by code_simp
  then have "snd ?r f = sample_fs f" if "f \<noteq> ''runner.py''" for f
    using that by (intro cmd_apply_other [OF r]) simp
  then have "snd ?r = sample_fs(''runner.py'' \<mapsto> sample_applied)"
    using sample_apply_text by (simp add: fun_eq_iff)
  then show ?thesis using r by simp
qed

section \<open>Reverting an application\<close>

text \<open>C1.  Round trip of the overlay tool, for app ids that are single words, synthesized files without
  marker or anchor comments in their code, and targets that close every line with a newline and are
  not among the inputs: after a successful \<open>apply\<close> of a batch of synthesized files, \<open>--revert\<close> of
  the same files gives exactly the file system that reverting before the application gives.  Where
  no target held a region of these apps, that is the file system before the application, byte for
  byte.\<close>

theorem apply_revert_roundtrip:
  assumes "cmd_apply disk fs paths override False = (Inr out, fs')"
    and "paths \<noteq> []" and "revertible fs paths override"
  shows "cmd_revert disk fs' paths override = cmd_revert disk fs paths override
    \<and> (pristine fs paths override \<longrightarrow> cmd_revert disk fs' paths override = (Inr [], fs))"
proof -
  have "\<forall>p \<in> set paths. fs p \<noteq> None" using assms(1) by (rule cmd_apply_Inr)
  moreover have "\<forall>f \<in> (\<Union>p \<in> set paths. set (target_files fs p)). disk f = Written"
    using cmd_apply_written [OF assms(1)] by blast
  ultimately show ?thesis
    using revert_after_apply [OF assms] revert_pristine [OF _ assms(2)] by simp
qed

theorem apply_revert_roundtrip_witness:
  "cmd_revert sample_disk (sample_fs(''runner.py'' \<mapsto> sample_applied)) [''out/demo_synth.py''] None
     = (Inr [], sample_fs)"
  using apply_revert_roundtrip [OF sample_applied_state _ sample_revertible] sample_pristine
  by blast

section \<open>Failing leaves the files alone\<close>

text \<open>An anchor once found is found again after any insertion.\<close>

lemma find_anchor_from_None:
  "find_anchor_from n ls a = None \<longleftrightarrow> (\<forall>l \<in> set ls. strip l \<noteq> anchor_comment a)"
  by (induction n ls a rule: find_anchor_from.induct) auto

lemma find_anchor_None: "find_anchor ls a = None \<longleftrightarrow> (\<forall>l \<in> set ls. strip l \<noteq> anchor_comment a)"
  by (simp add: find_anchor_def find_anchor_from_None)

lemma insert_stacked_Inr:
  assumes "find_anchor ls anchor \<noteq> None"
  obtains ls' where "insert_stacked ls anchor app code = Inr ls'" "set ls \<subseteq> set ls'"
proof -
  obtain i where i: "find_anchor ls anchor = Some i" using assms by auto
  let ?at = "insertion_point ls i"
  have "set ls = set (take ?at ls) \<union> set (drop ?at ls)"
    by (metis append_take_drop_id set_append)
  then show ?thesis
    using that i by (fastforce simp: insert_stacked_def Let_def)
qed

lemma foldE_insert_stacked:
  assumes "\<forall>it \<in> set items. find_anchor ls (fst it) \<noteq> None"
  shows "\<exists>ls'. foldE (\<lambda>item ls. insert_stacked ls (fst item) (fst (snd item)) (item_code app_fps item))
    items ls = Inr ls'"
  using assms
proof (induction items arbitrary: ls)
  case (Cons it items)
  obtain ls1 where ls1: "insert_stacked ls (fst it) (fst (snd it)) (item_code app_fps it) = Inr ls1"
    and sub: "set ls \<subseteq> set ls1"
    using Cons.prems insert_stacked_Inr [of ls "fst it"] by (metis list.set_intros(1))
  have "\<forall>it \<in> set items. find_anchor ls1 (fst it) \<noteq> None"
    using Cons.prems sub unfolding find_anchor_None list.set by blast
  then show ?case using Cons.IH ls1 by simp
qed simp

lemma write_files_Inr:
  assumes "\<forall>(f, items) \<in> set groups. \<exists>t. rd f = Some t
      \<and> (\<forall>it \<in> set items. find_anchor (strip_app_regions (splitlines t) (Some batch)) (fst it) \<noteq> None)"
    and "\<forall>f \<in> fst ` set groups. disk f = Written"
  shows "\<exists>out'. fst (write_files disk app_fps batch dry rd groups fs out) = Inr out'"
  using assms
proof (induction groups arbitrary: fs out)
  case (Cons g groups)
  obtain f items where g: "g = (f, items)" by (cases g)
  obtain t where t: "rd f = Some t"
    and a: "\<forall>it \<in> set items. find_anchor (strip_app_regions (splitlines t) (Some batch)) (fst it) \<noteq> None"
    using Cons.prems g by auto
  obtain ls where "patch_lines app_fps batch items (splitlines t) = Inr ls"
    using foldE_insert_stacked [OF a] unfolding patch_lines_def by blast
  then show ?case using Cons.IH Cons.prems t g by (cases dry) (simp_all add: write_text_def)
qed simp

lemma write_files_ApplyError:
  "fst (write_files disk app_fps batch dry rd groups fs out) \<noteq> Inl (ApplyError m)"
proof (induction disk app_fps batch dry rd groups fs out rule: write_files.induct)
  case (2 disk app_fps batch dry rd f items rest fs out)
  have "patch_lines app_fps batch items ls \<noteq> Inl (ApplyError m)" for ls
  proof -
    have "foldE (\<lambda>item ls. insert_stacked ls (fst item) (fst (snd item)) (item_code app_fps item)) its s
        \<noteq> Inl (ApplyError m)" for its s
      by (induction its arbitrary: s) (auto simp: bindE_Inl_iff insert_stacked_def Let_def split: option.splits)
    then show ?thesis by (simp add: patch_lines_def)
  qed
  then show ?case
    using 2 by (auto simp: write_text_def simp del: fun_upd_apply split: option.split sum.split write_outcome.split)
qed simp

lemma write_files_dry: "snd (write_files disk app_fps batch True rd groups fs out) = fs"
  by (induction disk app_fps batch True rd groups fs out rule: write_files.induct)
    (auto split: option.split sum.split)

lemma missing_none:
  assumes "concat (map (missing_in_file fs) (group_by_file plan)) = []"
    and "(f, items) \<in> set (group_by_file plan)"
  shows "\<exists>t. fs f = Some t \<and> (\<forall>it \<in> set items. find_anchor (splitlines t) (fst it) \<noteq> None)"
proof -
  have "missing_in_file fs (f, items) = []" using assms by auto
  then show ?thesis by (auto simp: missing_in_file_def filter_empty_conv split: option.splits)
qed

lemma write_pristine:
  assumes "pristine fs paths override" and ex: "\<forall>p \<in> set paths. fs p \<noteq> None"
    and plan: "plan = concat (map (file_plan fs override) paths)"
    and none: "concat (map (missing_in_file fs) (group_by_file plan)) = []"
    and d: "\<forall>f \<in> (\<Union>p \<in> set paths. set (target_files fs p)). disk f = Written"
  shows "\<exists>out'. fst (write_files disk app_fps (set (map (\<lambda>p. app_id_from p override) paths)) dry fs
    (group_by_file plan) fs out) = Inr out'"
proof (rule write_files_Inr, clarify)
  show "\<forall>f \<in> fst ` set (group_by_file plan). disk f = Written"
    using d plan_targets [OF ex] plan by (auto simp: group_by_file_mem)
next
  fix f items
  assume g: "(f, items) \<in> set (group_by_file plan)"
  then obtain t where t: "fs f = Some t" "\<forall>it \<in> set items. find_anchor (splitlines t) (fst it) \<noteq> None"
    using missing_none [OF none] by blast
  have "f \<in> (\<Union>p \<in> set paths. set (target_files fs p))"
    using g plan_targets [OF ex] plan by (simp add: group_by_file_mem)
  then have "\<forall>l \<in> set (splitlines t). \<not> opens (Some (set (map (\<lambda>p. app_id_from p override) paths))) l"
    using assms(1) t(1) by (fastforce simp: pristine_def list_all_iff text_of_def)
  then show "\<exists>t. fs f = Some t \<and> (\<forall>it \<in> set items. find_anchor (strip_app_regions (splitlines t)
      (Some (set (map (\<lambda>p. app_id_from p override) paths)))) (fst it) \<noteq> None)"
    using t by (simp add: strip_app_regions_def strip_loop_id)
qed

lemma apply_error_keeps:
  "fst (cmd_apply disk fs paths override dry) = Inl (ApplyError m) \<Longrightarrow> snd (cmd_apply disk fs paths override dry) = fs"
  by (auto simp: cmd_apply_def Let_def write_files_ApplyError split: sum.splits prod.splits if_splits)

lemma apply_pristine_keeps:
  assumes "pristine fs paths override" and e: "cmd_apply disk fs paths override dry = (Inl e, fs')"
    and d: "\<forall>f \<in> (\<Union>p \<in> set paths. set (target_files fs p)). disk f = Written"
  shows "fs' = fs"
proof (cases "foldE (plan_file fs override) paths ([], [], \<lambda>_. [])")
  case (Inr r)
  obtain plan apps app_fps where r: "r = (plan, apps, app_fps)" by (cases r)
  have "\<exists>out'. fst (write_files disk app_fps (set apps) dry fs (group_by_file plan) fs []) = Inr out'"
    if "concat (map (missing_in_file fs) (group_by_file plan)) = []"
    using write_pristine [OF assms(1) _ _ that d] plan_files [OF Inr [unfolded r]] by simp
  then show ?thesis using e Inr r by (auto simp: cmd_apply_def Let_def split: sum.splits if_splits)
qed (use e in \<open>simp add: cmd_apply_def\<close>)

lemma write_files_others:
  "f \<notin> fst ` set groups \<Longrightarrow> snd (write_files disk app_fps batch dry rd groups fs out) f = fs f"
  by (induction disk app_fps batch dry rd groups fs out rule: write_files.induct)
    (auto simp: write_text_def split: option.split sum.split write_outcome.split)

lemma apply_others_keep:
  assumes "cmd_apply disk fs paths override dry = (r, fs')" and "f \<notin> (\<Union>p \<in> set paths. set (target_files fs p))"
  shows "fs' f = fs f"
proof (cases "foldE (plan_file fs override) paths ([], [], \<lambda>_. [])")
  case (Inr x)
  obtain plan apps app_fps where x: "x = (plan, apps, app_fps)" by (cases x)
  have "f \<notin> fst ` set (group_by_file plan)"
    using assms(2) plan_files [OF Inr [unfolded x]] plan_targets [of paths fs override] by (auto simp: group_by_file_def)
  from write_files_others [OF this] have "snd (cmd_apply disk fs paths override dry) f = fs f"
    using Inr x by (simp add: cmd_apply_def Let_def split: sum.split)
  then show ?thesis using assms(1) by simp
qed (use assms(1) in \<open>simp add: cmd_apply_def\<close>)

text \<open>C2.  Application is all or nothing as far as the tool controls it: a dry run never changes a file;
  an \<open>ApplyError\<close> (duplicate id, no blocks, conflict, missing file or anchor) leaves every file as it
  was; and on targets without regions of the batch, when every write succeeds, any exception does.
  Whatever happens, also when a write fails half way through the batch, only target files change.\<close>

theorem apply_all_or_nothing:
  assumes "cmd_apply disk fs paths override dry = (r, fs')"
  shows "(dry \<or> (\<exists>m. r = Inl (ApplyError m))
      \<or> (\<exists>e. r = Inl e) \<and> pristine fs paths override \<and> (\<forall>p \<in> set paths. \<forall>f \<in> set (target_files fs p). disk f = Written)
      \<longrightarrow> fs' = fs)
    \<and> (\<forall>f. (\<forall>p \<in> set paths. f \<notin> set (target_files fs p)) \<longrightarrow> fs' f = fs f)"
proof -
  have "snd (cmd_apply disk fs paths override True) = fs"
    by (simp add: cmd_apply_def Let_def write_files_dry split: sum.split prod.split)
  then have "dry \<longrightarrow> fs' = fs" using assms by auto
  moreover have "r = Inl (ApplyError m) \<longrightarrow> fs' = fs" for m
    using apply_error_keeps [of disk fs paths override dry m] assms by simp
  moreover have "r = Inl e \<and> pristine fs paths override
      \<and> (\<forall>p \<in> set paths. \<forall>f \<in> set (target_files fs p). disk f = Written) \<longrightarrow> fs' = fs" for e
    using apply_pristine_keeps assms by blast
  moreover have "(\<forall>p \<in> set paths. f \<notin> set (target_files fs p)) \<longrightarrow> fs' f = fs f" for f
    using apply_others_keep [OF assms, of f] by blast
  ultimately show ?thesis by blast
qed

text \<open>The sample with an anchor that the target lacks.\<close>

theorem apply_all_or_nothing_witness:
  "snd (cmd_apply sample_disk (sample_fs(''runner.py'' \<mapsto> ''pass'')) [''out/demo_synth.py''] None False)
     = sample_fs(''runner.py'' \<mapsto> ''pass'')"
proof -
  let ?r = "cmd_apply sample_disk (sample_fs(''runner.py'' \<mapsto> ''pass'')) [''out/demo_synth.py''] None False"
  have e: "fst ?r = Inl (ApplyError (''aborting (nothing written) '' @ em_dash @ '' missing: '' @
        q1 (anchor_comment ''runner_postload'') @ '' in runner.py''))"
    by code_simp
  have "?r = (fst ?r, snd ?r)" by simp
  from apply_all_or_nothing [OF this] show ?thesis unfolding e by blast
qed

end
