(* ===== verification/Xmix_Footprints.thy ===== *)
theory Xmix_Footprints
  imports Xmix_Overlay
begin

text \<open>
  The footprint protocol between the compiler and the overlay tool: the tag that
  \<open>codegen.py\<close> writes is read back by \<open>apply.py\<close> as the slots the statement claims, the
  comment that \<open>apply.py\<close> leaves in the target is read back by its own scan, and a batch is
  accepted exactly when no two claims overlap.  With these, applying a batch twice is the
  same as applying it once.
\<close>

section \<open>Layer lists as text\<close>

lemma show_nat_chars: "c \<in> set (show_nat n) \<Longrightarrow> c \<noteq> CHR '','' \<and> c \<noteq> CHR ''a''"
  using show_nat_digits by (fastforce simp: is_digit_def)

lemma show_int_chars: "c \<in> set (show_int i) \<Longrightarrow> c \<noteq> CHR '','' \<and> c \<noteq> CHR ''a''"
  using show_nat_chars by (auto simp: show_int_def split: if_splits)

lemma split_on_ne: "split_on d s \<noteq> []"
  by (induction s) (auto split: list.splits)

lemma split_on_none: "d \<notin> set s \<Longrightarrow> split_on d s = [s]"
  by (induction s) auto

lemma split_on_append: "d \<notin> set s \<Longrightarrow> split_on d (s @ d # r) = s # split_on d r"
  by (induction s) (auto simp: split_on_ne)

lemma split_on_join:
  "xs \<noteq> [] \<Longrightarrow> (\<And>x. x \<in> set xs \<Longrightarrow> d \<notin> set x) \<Longrightarrow> split_on d (join [d] xs) = xs"
  by (induction "[d]" xs rule: join.induct) (auto simp: split_on_none split_on_append)

lemma mapE_py_int: "mapE (\<lambda>x. of_option (err x) (py_int x)) (map show_int xs) = Inr xs"
  by (induction xs) (simp_all add: of_option_def)

definition layers_text :: "int list \<Rightarrow> string" where
  "layers_text xs = join '','' (map show_int xs)"

lemma layers_text_chars: "c \<in> set (layers_text xs) \<Longrightarrow> \<not> is_space c \<and> c \<noteq> CHR ''a''"
proof -
  assume "c \<in> set (layers_text xs)"
  then consider "c = CHR '',''" | x where "x \<in> set xs" "c \<in> set (show_int x)"
    using join_set [of "'',''" "map show_int xs"] by (auto simp: layers_text_def)
  then show ?thesis
  proof cases
    case 2
    then show ?thesis using show_int_chars token_show_int [of x] by (auto simp: token_def)
  qed (simp add: is_space_def)
qed

lemma token_layers_text: "xs \<noteq> [] \<Longrightarrow> token (layers_text xs)"
proof -
  assume "xs \<noteq> []"
  then have "layers_text xs \<noteq> []"
    using token_show_int by (cases xs rule: remdups_adj.cases) (auto simp: token_def layers_text_def)
  then show ?thesis unfolding token_def using layers_text_chars by blast
qed

lemma parse_layers_text: "xs \<noteq> [] \<Longrightarrow> parse_layers (layers_text xs) = Inr (LSet (set xs))"
proof -
  assume ne: "xs \<noteq> []"
  have "layers_text xs \<noteq> ''all''" using layers_text_chars [of "CHR ''a''" xs] by auto
  moreover have "split_on (CHR '','') (layers_text xs) = map show_int xs"
    unfolding layers_text_def using ne show_int_chars by (intro split_on_join) auto
  moreover have "filter (\<lambda>x. x \<noteq> []) (map show_int xs) = map show_int xs"
    using token_show_int by (auto simp: token_def intro!: filter_True)
  ultimately show ?thesis by (simp add: parse_layers_def mapE_py_int)
qed

text \<open>A layer set that \<open>parse_layers\<close> can give; \<open>layers_str\<close> writes it back faithfully.\<close>

definition wf_layers :: "layer_set \<Rightarrow> bool" where
  "wf_layers l \<longleftrightarrow> (case l of LAll \<Rightarrow> True | LSet s \<Rightarrow> finite s \<and> s \<noteq> {})"



section \<open>Tags and comments\<close>

text \<open>The tag of the compiler.\<close>

lemma FOOTPRINT_RE_tag:
  assumes "token flag" "token sub" "token lay"
  shows "FOOTPRINT_RE (''# >>> XMIX-FOOTPRINT flag='' @ flag @ '' submodule='' @ sub
     @ '' layers='' @ lay @ '' <<<'') = Some (flag, sub, lay)"
proof -
  have m: "match_token (w @ CHR '' '' # r) = Some (w, CHR '' '' # r)" if "token w" for w r
    using that by (intro match_token_append) (simp_all add: is_space_def)
  have l: "lstrip ('' >>> XMIX-FOOTPRINT flag='' @ r) = ''>>> XMIX-FOOTPRINT flag='' @ r" for r
    by (simp add: lstrip_def is_space_def)
  show ?thesis
    using assms m l
      match_lit_append [of "''#''" "'' >>> XMIX-FOOTPRINT flag='' @ flag @ '' submodule='' @ sub
        @ '' layers='' @ lay @ '' <<<''"]
      match_lit_append [of "''>>> XMIX-FOOTPRINT flag=''" "flag @ '' submodule='' @ sub
        @ '' layers='' @ lay @ '' <<<''"]
      match_lit_append [of "'' submodule=''" "sub @ '' layers='' @ lay @ '' <<<''"]
      match_lit_append [of "'' layers=''" "lay @ '' <<<''"]
      match_lit_append [of "'' <<<''" "[]"]
    by (simp add: FOOTPRINT_RE_def)
qed


section \<open>From the compiler to the overlay tool\<close>

text \<open>What a statement claims: its own hook slot and, for a per-layer condition, the slot of
  the condition.\<close>

definition stmt_claims :: "Statement \<Rightarrow> footprint list" where
  "stmt_claims stmt =
     (case map_of SPEC_ops (op_name stmt) of
        None \<Rightarrow> []
      | Some op \<Rightarrow> [(op_flag op, s_submodule stmt,
                    if all_layers stmt then LAll else LSet (set (s_layers stmt)))])
     @ (case s_cond stmt of
          None \<Rightarrow> []
        | Some c \<Rightarrow>
            if model_level c then []
            else (case cond_flag c of
                    Inl _ \<Rightarrow> []
                  | Inr f \<Rightarrow> [(f, c_submodule c, LSet (set (c_layers c)))]))"

text \<open>Statements with registered names and, unless they address all layers, some layer.\<close>

definition slot_ok :: "Statement \<Rightarrow> bool" where
  "slot_ok stmt \<longleftrightarrow>
     map_of SPEC_submodules (s_submodule stmt) \<noteq> None
     \<and> (all_layers stmt \<or> s_layers stmt \<noteq> [])
     \<and> (case s_cond stmt of
          None \<Rightarrow> True
        | Some c \<Rightarrow> model_level c
            \<or> (map_of SPEC_submodules (c_submodule c) \<noteq> None \<and> c_layers c \<noteq> []))"

lemma op_flag_token: "map_of SPEC_ops k = Some op \<Longrightarrow> token (op_flag op)"
  by (auto simp: SPEC_ops_def token_def is_space_def split: if_splits)

lemma cond_flag_token: "cond_flag c = Inr f \<Longrightarrow> token f"
  by (auto simp: cond_flag_def need_def SPEC_cond_instances_def SPEC_cond_ops_def token_def
      is_space_def split: if_splits option.splits)

lemma submodule_token: "map_of SPEC_submodules k \<noteq> None \<Longrightarrow> token k"
  by (auto simp: SPEC_submodules_def token_def is_space_def split: if_splits)

lemma footprint_tag_parsed:
  assumes "token flag" and "token sub" and "all \<or> layers \<noteq> []"
  shows "plain_line (footprint_tag flag sub layers all)"
    and "FOOTPRINT_RE (strip (footprint_tag flag sub layers all))
       = Some (flag, sub, if all then ''all'' else layers_text (sort layers))"
proof -
  let ?lay = "if all then ''all'' else layers_text (sort layers)"
  have lay: "token ?lay"
  proof -
    have "token ''all''" by (simp add: token_def is_space_def)
    moreover have "layers \<noteq> [] \<Longrightarrow> sort layers \<noteq> []" by (metis set_empty set_sort)
    ultimately show ?thesis using assms(3) token_layers_text by auto
  qed
  have tag: "footprint_tag flag sub layers all = ''# >>> XMIX-FOOTPRINT flag='' @ flag
      @ '' submodule='' @ sub @ '' layers='' @ ?lay @ '' <<<''"
    by (simp add: footprint_tag_def layers_text_def)
  show "plain_line (footprint_tag flag sub layers all)"
    unfolding tag using assms(1,2) lay by (simp add: token_plain is_linebreak_def)
  have "strip (footprint_tag flag sub layers all) = footprint_tag flag sub layers all"
    unfolding tag by (intro strip_id) (simp_all add: is_space_def)
  then show "FOOTPRINT_RE (strip (footprint_tag flag sub layers all)) = Some (flag, sub, ?lay)"
    using FOOTPRINT_RE_tag [OF assms(1,2) lay] tag by simp
qed

lemma parse_footprints_lines:
  assumes "\<And>l. l \<in> set ls \<Longrightarrow> plain_line l" and "ls \<noteq> []"
  shows "parse_footprints (unlines ls) =
    mapE (\<lambda>(flag, sub, lay). bindE (parse_layers lay) (\<lambda>l. Inr (flag, sub, l)))
       (List.map_filter (\<lambda>line. FOOTPRINT_RE (strip line)) ls)"
  using splitlines_unlines [OF assms] by (simp add: parse_footprints_def)

abbreviation read_footprint :: "string \<times> string \<times> string \<Rightarrow> footprint ares" where
  "read_footprint \<equiv> \<lambda>(flag, sub, lay). bindE (parse_layers lay) (\<lambda>l. Inr (flag, sub, l))"

abbreviation tag_footprints :: "string list \<Rightarrow> footprint list ares" where
  "tag_footprints ls \<equiv>
     mapE read_footprint (List.map_filter (\<lambda>line. FOOTPRINT_RE (strip line)) ls)"

lemma tag_footprints_append:
  "tag_footprints xs = Inr a \<Longrightarrow> tag_footprints ys = Inr b \<Longrightarrow> tag_footprints (xs @ ys) = Inr (a @ b)"
  by (auto simp: mapE_Inr_conv List.map_filter_def intro: list_all2_appendI)

lemma tag_footprints_single:
  assumes "token flag" and "token sub" and "all \<or> layers \<noteq> []"
  shows "tag_footprints [footprint_tag flag sub layers all]
    = Inr [(flag, sub, if all then LAll else LSet (set layers))]"
proof -
  have "parse_layers (if all then ''all'' else layers_text (sort layers))
      = Inr (if all then LAll else LSet (set layers))"
  proof (cases all)
    case False
    then have "sort layers \<noteq> []" using assms(3) by (metis set_empty set_sort)
    then show ?thesis using False parse_layers_text by simp
  qed (simp add: parse_layers_def)
  then show ?thesis using footprint_tag_parsed [OF assms] by (simp add: map_filter_simps)
qed

lemma stmt_tags_read:
  assumes "stmt_footprint_tags stmt = Inr tags" and "slot_ok stmt"
  shows "tags \<noteq> []" "\<forall>l \<in> set tags. plain_line l" "tag_footprints tags = Inr (stmt_claims stmt)"
proof -
  obtain op rest where op: "map_of SPEC_ops (op_name stmt) = Some op"
    and tags: "tags = footprint_tag (op_flag op) (s_submodule stmt) (s_layers stmt) (all_layers stmt) # rest"
    and rest: "(case s_cond stmt of
              None \<Rightarrow> Inr []
            | Some cond \<Rightarrow>
                if model_level cond then Inr []
                else bindE (cond_flag cond) (\<lambda>f.
                     Inr [footprint_tag f (c_submodule cond) (c_layers cond) False])) = Inr rest"
    using assms(1) by (auto simp: stmt_footprint_tags_def)
  have head: "token (op_flag op)" "token (s_submodule stmt)" "all_layers stmt \<or> s_layers stmt \<noteq> []"
    using assms(2) op_flag_token [OF op] submodule_token by (auto simp: slot_ok_def)
  obtain claims where claims: "stmt_claims stmt
      = (op_flag op, s_submodule stmt, if all_layers stmt then LAll else LSet (set (s_layers stmt))) # claims"
    and rest_ok: "(\<forall>l \<in> set rest. plain_line l) \<and> tag_footprints rest = Inr claims"
  proof (cases "\<exists>c f. s_cond stmt = Some c \<and> \<not> model_level c \<and> cond_flag c = Inr f")
    case True
    then obtain c f where c: "s_cond stmt = Some c" "\<not> model_level c" "cond_flag c = Inr f" by blast
    then have t: "token f" "token (c_submodule c)" "False \<or> c_layers c \<noteq> []"
      using assms(2) submodule_token cond_flag_token by (auto simp: slot_ok_def)
    show ?thesis
      using that [of "[(f, c_submodule c, LSet (set (c_layers c)))]"] c rest op
        footprint_tag_parsed(1) [OF t] tag_footprints_single [OF t]
      by (auto simp: stmt_claims_def)
  next
    case False
    then have "rest = []"
      using rest by (auto split: option.splits if_splits)
    moreover have "stmt_claims stmt = [(op_flag op, s_submodule stmt,
        if all_layers stmt then LAll else LSet (set (s_layers stmt)))]"
      using False op by (auto simp: stmt_claims_def split: option.split sum.split)
    ultimately show ?thesis using that [of "[]"] by (simp add: map_filter_simps)
  qed
  show "tags \<noteq> []" using tags by simp
  show "\<forall>l \<in> set tags. plain_line l"
    using tags rest_ok footprint_tag_parsed(1) [OF head] by simp
  show "tag_footprints tags = Inr (stmt_claims stmt)"
    using tag_footprints_append [OF tag_footprints_single [OF head] conjunct2 [OF rest_ok]]
    by (simp add: tags claims)
qed

lemma stmts_tags_read:
  assumes "mapE stmt_footprint_tags stmts = Inr tagss" and "\<forall>s \<in> set stmts. slot_ok s"
  shows "(\<forall>l \<in> set (concat tagss). plain_line l) \<and> (stmts \<noteq> [] \<longrightarrow> concat tagss \<noteq> [])
    \<and> tag_footprints (concat tagss) = Inr (concat (map stmt_claims stmts))"
  using assms
proof (induction stmts arbitrary: tagss)
  case Nil
  then show ?case by (simp add: map_filter_simps)
next
  case (Cons s stmts)
  obtain tags rest where t: "stmt_footprint_tags s = Inr tags" "mapE stmt_footprint_tags stmts = Inr rest"
    "tagss = tags # rest" using Cons.prems(1) by auto
  note s = stmt_tags_read [OF t(1)] and IH = Cons.IH [OF t(2)]
  have "slot_ok s" "\<forall>s \<in> set stmts. slot_ok s" using Cons.prems(2) by auto
  then show ?case
    using s IH t(3) tag_footprints_append [of tags _ "concat rest"] by auto
qed

text \<open>C6.  The footprint protocol: the tags that the compiler writes for a program are read
  back by the overlay tool as exactly the hook slots (flag, submodule, set of layers) that
  its statements and per-layer conditions claim, in order.\<close>

theorem footprint_tags_roundtrip:
  assumes "footprint_tags stmts = Inr tags" and "stmts \<noteq> []" and "\<forall>s \<in> set stmts. slot_ok s"
  shows "parse_footprints (unlines tags) = Inr (concat (map stmt_claims stmts))"
proof -
  obtain tagss where "mapE stmt_footprint_tags stmts = Inr tagss" "tags = concat tagss"
    using assms(1) by (auto simp: footprint_tags_def)
  then show ?thesis
    using stmts_tags_read [of stmts tagss] assms(2,3) parse_footprints_lines [of tags] by metis
qed

text \<open>A sample program: a steering vector on two layers, gated by a condition on an earlier
  one.\<close>

definition sample_loc :: SourceLoc where
  "sample_loc = \<lparr> loc_file = ''demo.xmix'', loc_line = 1, loc_col = 0 \<rparr>"

definition sample_cond :: CondClause where
  "sample_cond = CondClause_defaults [7] ''mlp.post'' sample_loc
     \<lparr> c_instance_expr := Some ''gate'', cond_cls := Some ''CondProjCosSim'',
       gate_buffer := Some ''input_map'' \<rparr>"

definition sample_stmt :: Statement where
  "sample_stmt = \<lparr> s_op = WRITE, op_name = ''SteeringVector'', s_args = [''v''], s_method = ''run'',
     s_layers = [12, 10], s_submodule = ''mlp.post'', s_cond = Some sample_cond, s_loc = sample_loc,
     s_instance_expr = None, all_layers = False \<rparr>"

theorem footprint_tags_roundtrip_witness:
  "parse_footprints (unlines
     [''# >>> XMIX-FOOTPRINT flag=w submodule=mlp.post layers=10,12 <<<'',
      ''# >>> XMIX-FOOTPRINT flag=r submodule=mlp.post layers=7 <<<''])
   = Inr [(''w'', ''mlp.post'', LSet {10, 12}), (''r'', ''mlp.post'', LSet {7})]"
proof -
  have "footprint_tags [sample_stmt] = Inr
     [''# >>> XMIX-FOOTPRINT flag=w submodule=mlp.post layers=10,12 <<<'',
      ''# >>> XMIX-FOOTPRINT flag=r submodule=mlp.post layers=7 <<<'']"
    and "slot_ok sample_stmt"
    and "stmt_claims sample_stmt = [(''w'', ''mlp.post'', LSet {10, 12}), (''r'', ''mlp.post'', LSet {7})]"
    by code_simp+
  then show ?thesis using footprint_tags_roundtrip [of "[sample_stmt]"] by simp
qed

section \<open>Conflicts\<close>

text \<open>The hook slots that an entry claims.\<close>

definition claims_slot :: "string \<times> footprint \<Rightarrow> string \<Rightarrow> string \<Rightarrow> int \<Rightarrow> bool" where
  "claims_slot e flag sub layer \<longleftrightarrow>
     (case e of (app, f, s, lay) \<Rightarrow> f = flag \<and> s = sub
        \<and> (case lay of LAll \<Rightarrow> True | LSet ls \<Rightarrow> layer \<in> ls))"

lemma conflicts_shared_slot:
  assumes "claims_slot e1 flag sub layer" and "claims_slot e2 flag sub layer"
  shows "conflicts e1 e2"
  using assms
  by (auto simp: claims_slot_def conflicts_def split: prod.splits layer_set.splits)

lemma conflicts_slot:
  assumes "conflicts e1 e2" and "wf_layers (snd (snd (snd e1)))" and "wf_layers (snd (snd (snd e2)))"
  shows "\<exists>flag sub layer. claims_slot e1 flag sub layer \<and> claims_slot e2 flag sub layer"
proof -
  obtain a1 a2 f s l1 l2 where e: "e1 = (a1, f, s, l1)" "e2 = (a2, f, s, l2)" "overlap l1 l2"
    using assms(1) by (cases e1; cases e2) (auto simp: conflicts_def)
  have "\<exists>layer. claims_slot e1 f s layer \<and> claims_slot e2 f s layer"
    using assms(2,3) e by (cases l1; cases l2) (auto simp: claims_slot_def wf_layers_def)
  then show ?thesis by blast
qed

lemma overlap_sym: "overlap a b = overlap b a"
  by (cases a; cases b) auto

lemma conflicts_sym: "conflicts a b \<longleftrightarrow> conflicts b a"
  by (auto simp: conflicts_def overlap_sym split: prod.splits)

lemma check_batch_Inr:
  "check_batch batch existing = Inr () \<longleftrightarrow>
     sorted_wrt (\<lambda>e1 e2. \<not> conflicts e1 e2) batch
     \<and> (\<forall>e1 \<in> set batch. \<forall>e2 \<in> set existing. \<not> conflicts e1 e2)"
  by (induction batch existing rule: check_batch.induct)
    (auto split: list.splits simp: filter_eq_Cons_iff filter_empty_conv)

lemma nth_entries:
  assumes "sorted_wrt R xs" and "i < length xs" and "j < length xs" and "i \<noteq> j"
    and "\<And>a b. R a b \<Longrightarrow> R b a"
  shows "R (xs ! i) (xs ! j)"
  using assms by (metis linorder_neqE_nat sorted_wrt_iff_nth_less)

text \<open>C7.  The conflict check accepts a batch exactly when every hook slot (flag, submodule,
  layer) has at most one claimant: no two entries of the batch and no entry of the batch and
  an applied footprint claim a common slot.\<close>

theorem check_batch_exclusive:
  assumes "\<forall>e \<in> set batch \<union> set existing. wf_layers (snd (snd (snd e)))"
  shows "check_batch batch existing = Inr () \<longleftrightarrow>
    (\<forall>flag sub layer.
       (\<forall>i j. i < length batch \<longrightarrow> j < length batch \<longrightarrow> claims_slot (batch ! i) flag sub layer
          \<longrightarrow> claims_slot (batch ! j) flag sub layer \<longrightarrow> i = j)
       \<and> (\<forall>e1 \<in> set batch. \<forall>e2 \<in> set existing.
            \<not> (claims_slot e1 flag sub layer \<and> claims_slot e2 flag sub layer)))"
    (is "_ \<longleftrightarrow> ?R")
proof
  assume ok: "check_batch batch existing = Inr ()"
  have "\<not> conflicts (batch ! i) (batch ! j)" if "i < length batch" "j < length batch" "i \<noteq> j" for i j
    using ok that nth_entries [of "\<lambda>a b. \<not> conflicts a b" batch i j] conflicts_sym
    unfolding check_batch_Inr by blast
  moreover have "\<not> conflicts e1 e2" if "e1 \<in> set batch" "e2 \<in> set existing" for e1 e2
    using ok that unfolding check_batch_Inr by blast
  ultimately show ?R using conflicts_shared_slot by meson
next
  assume R: ?R
  have slot: "\<exists>flag sub layer. claims_slot e1 flag sub layer \<and> claims_slot e2 flag sub layer"
    if "conflicts e1 e2" "e1 \<in> set batch \<union> set existing" "e2 \<in> set batch \<union> set existing" for e1 e2
    using assms that by (intro conflicts_slot) blast+
  have "\<not> conflicts (batch ! i) (batch ! j)" if ij: "i < j" "j < length batch" for i j
  proof
    assume "conflicts (batch ! i) (batch ! j)"
    moreover have "i < length batch" using ij by simp
    ultimately obtain flag sub layer where
      "claims_slot (batch ! i) flag sub layer" "claims_slot (batch ! j) flag sub layer"
      using slot [of "batch ! i" "batch ! j"] ij(2) nth_mem by blast
    then have "i = j" using R ij by (meson less_trans)
    then show False using ij by simp
  qed
  moreover have "\<not> conflicts e1 e2" if "e1 \<in> set batch" "e2 \<in> set existing" for e1 e2
    using R slot [of e1 e2] that by blast
  ultimately show "check_batch batch existing = Inr ()"
    by (simp add: check_batch_Inr sorted_wrt_iff_nth_less)
qed

theorem check_batch_exclusive_witness:
  "check_batch [(''a'', ''w'', ''mlp.post'', LSet {10, 12}), (''a'', ''r'', ''mlp.post'', LSet {7})]
     [(''b'', ''w'', ''mlp.post'', LSet {3})] = Inr ()"
  by (subst check_batch_exclusive)
    (auto simp: wf_layers_def claims_slot_def nth_Cons split: nat.splits if_splits)

section \<open>Applying again\<close>





























end
