(* ===== verification/Xmix_Compiler.thy ===== *)
theory Xmix_Compiler
  imports Xmix_Codegen
begin

text \<open>
  Correctness of the compiler: what the parser has accepted is well formed (registered
  names, arities, non-empty layer lists, the scope of a condition agreeing with its class),
  the generator never fails on well-formed statements except for its documented ordering
  error, and the command ends with an exit code except in three cases that are named.  It also states
  which layer ranges and which init blocks the parser accepts.
\<close>

section \<open>Well-formed programs\<close>

text \<open>What a \<open>.cond(...)\<close> clause satisfies: at model scope no layers, no submodule and a
  model-scope class; per layer some layers, a registered submodule, and either a per-layer
  class or a probe with a registered comparison and its number of arguments.\<close>

definition wf_cond :: "CondClause \<Rightarrow> bool" where
  "wf_cond c \<longleftrightarrow>
     (if model_level c then
        c_layers c = [] \<and> c_submodule c = [] \<and> c_instance_expr c \<noteq> None
        \<and> (case cond_cls c of None \<Rightarrow> False | Some cls \<Rightarrow> model_scope cls)
      else
        c_layers c \<noteq> [] \<and> map_of SPEC_submodules (c_submodule c) \<noteq> None
        \<and> (case c_instance_expr c of
             Some _ \<Rightarrow>
               (case cond_cls c of None \<Rightarrow> False
                | Some cls \<Rightarrow> map_of SPEC_cond_instances cls \<noteq> None \<and> \<not> model_scope cls)
           | None \<Rightarrow>
               (case (probe_op c, compare_op c) of
                  (Some p, Some cmp) \<Rightarrow>
                    (case map_of SPEC_cond_ops p of None \<Rightarrow> False
                     | Some cs \<Rightarrow>
                         (case map_of (compares cs) cmp of None \<Rightarrow> False
                          | Some ms \<Rightarrow> length (c_args c) = cmp_arity ms))
                | _ \<Rightarrow> False)))"

definition wf_stmt :: "Statement \<Rightarrow> bool" where
  "wf_stmt s \<longleftrightarrow>
     (case map_of SPEC_ops (op_name s) of None \<Rightarrow> False
      | Some op \<Rightarrow>
          s_method s = op_method op
          \<and> length (s_args s) = (if s_instance_expr s = None then op_arity op else 0))
     \<and> map_of SPEC_submodules (s_submodule s) \<noteq> None
     \<and> (all_layers s \<longleftrightarrow> s_layers s = [])
     \<and> (case s_cond s of None \<Rightarrow> True | Some c \<Rightarrow> wf_cond c)"

text \<open>A preamble segment of an init block names a model-scope class.\<close>

definition wf_segment :: "PreambleSegment \<Rightarrow> bool" where
  "wf_segment seg \<longleftrightarrow> (case block_cls seg of None \<Rightarrow> True | Some cls \<Rightarrow> model_scope cls)"

definition wf_program :: "ParseResult \<Rightarrow> bool" where
  "wf_program r \<longleftrightarrow>
     list_all wf_stmt (statements r) \<and> list_all wf_segment (preamble r)
     \<and> map_of SPEC_models (model r) \<noteq> None"

section \<open>Layers\<close>

lemma py_range_upto:
  assumes "0 < step"
  shows "set (py_range lo (hi + 1) step) = {x. lo \<le> x \<and> x \<le> hi \<and> (x - lo) mod step = 0}"
proof (cases "hi < lo")
  case False
  let ?n = "nat ((hi - lo) div step + 1)"
  have "x \<in> (\<lambda>k. lo + int k * step) ` {0..<?n} \<longleftrightarrow> lo \<le> x \<and> x \<le> hi \<and> (x - lo) mod step = 0" for x
  proof
    assume "x \<in> (\<lambda>k. lo + int k * step) ` {0..<?n}"
    then obtain k where k: "k < ?n" "x = lo + int k * step" by auto
    then have "int k \<le> (hi - lo) div step" by linarith
    then have "int k * step \<le> (hi - lo) div step * step" using assms by simp
    also have "\<dots> \<le> hi - lo" using assms by (metis div_mult_mod_eq pos_mod_sign le_add_same_cancel1)
    finally show "lo \<le> x \<and> x \<le> hi \<and> (x - lo) mod step = 0" using k(2) assms by simp
  next
    assume x: "lo \<le> x \<and> x \<le> hi \<and> (x - lo) mod step = 0"
    let ?k = "(x - lo) div step"
    have k: "x = lo + ?k * step" using x by (metis add.commute diff_add_cancel mult_div_mod_eq add.right_neutral mult.commute)
    have "0 \<le> ?k" using x assms by (simp add: pos_imp_zdiv_nonneg_iff)
    moreover have "?k \<le> (hi - lo) div step" using x assms by (simp add: zdiv_mono1)
    ultimately have "nat ?k \<in> {0..<?n}" "x = lo + int (nat ?k) * step" using k by auto
    then show "x \<in> (\<lambda>k. lo + int k * step) ` {0..<?n}" by blast
  qed
  then show ?thesis using False by (auto simp: py_range_def)
qed (auto simp: py_range_def)

lemma py_range_sorted: "0 < step \<Longrightarrow> sorted_wrt (<) (py_range lo stop step)"
  by (auto simp: py_range_def sorted_wrt_map sorted_wrt_iff_nth_less)

lemma layers_from_slice_Inr:
  assumes "layers_from_slice path sub sl what = Inr ls"
  obtains lo hi step where "lo \<le> hi" "0 < step" "ls = py_range lo (hi + 1) step"
proof -
  have "\<exists>lo hi step. lo \<le> hi \<and> 0 < step \<and> ls = py_range lo (hi + 1) step"
    using assms
    by (auto simp: layers_from_slice_def raise_if_def not_less
        split: expr.split_asm option.split_asm if_split_asm)
      (metis linorder_not_less zero_less_one)+
  then show ?thesis using that by blast
qed

lemma layers_from_slice_ne: "layers_from_slice path sub sl what = Inr ls \<Longrightarrow> ls \<noteq> []"
proof -
  assume "layers_from_slice path sub sl what = Inr ls"
  then obtain lo hi step where "lo \<le> hi" "0 < step" and ls: "ls = py_range lo (hi + 1) step"
    by (rule layers_from_slice_Inr)
  then have "lo \<in> set ls" unfolding ls by (subst py_range_upto) simp_all
  then show ?thesis by auto
qed

lemma expect_int_list_ne: "expect_int_list path call what = Inr ls \<Longrightarrow> ls \<noteq> []"
  unfolding expect_int_list_def
  by (auto simp: raise_if_def simp del: bindE_Inr_iff elim!: bindE_InrE
      split: list.split_asm expr.split_asm if_split_asm)

lemma expect_layers_Inr: "expect_layers path link what = Inr (ls, all) \<Longrightarrow> all \<longleftrightarrow> ls = []"
  by (auto simp: expect_layers_def dest: layers_from_slice_ne expect_int_list_ne
      split: expr.splits list.splits option.splits if_splits)

lemma validate_submodule_Inr: "validate_submodule path call = Inr s \<Longrightarrow> map_of SPEC_submodules s \<noteq> None"
  by (auto simp: validate_submodule_def map_of_eq_None_iff split: if_splits)

section \<open>The parser accepts well-formed statements only\<close>

lemma expect_name_args_length:
  "expect_name_args path call what = Inr args \<Longrightarrow> \<exists>p f as kws. call = Call p f as kws"
  by (cases call) (auto simp: expect_name_args_def)

lemma parse_op_arg_Inr:
  assumes "parse_op_arg path op_call class_map = Inr (name, args, meth, inst)"
  shows "\<exists>op. map_of SPEC_ops name = Some op \<and> meth = op_method op
    \<and> length args = (if inst = None then op_arity op else 0)"
  using assms
  unfolding parse_op_arg_def
  by (auto simp: lookup_op_def check_method_def raise_if_def of_option_def
      simp del: bindE_Inr_iff elim!: bindE_InrE
      split: list.split_asm expr.split_asm option.split_asm if_split_asm)

text \<open>The state of the loop over a condition's tail.\<close>

definition tail_ok :: "int list option \<Rightarrow> string option \<Rightarrow> bool" where
  "tail_ok layers submodule \<longleftrightarrow> layers \<noteq> Some []
     \<and> (case submodule of None \<Rightarrow> True | Some s \<Rightarrow> map_of SPEC_submodules s \<noteq> None)"

lemma cond_tail_link_ok:
  "cond_tail_link path lnk (ls, sub) = Inr (ls', sub') \<Longrightarrow> tail_ok ls sub \<Longrightarrow> tail_ok ls' sub'"
  by (auto simp: cond_tail_link_def tail_ok_def raise_if_def dest: expect_layers_Inr validate_submodule_Inr
      split: prod.split_asm if_split_asm)

lemma parse_cond_tail_Inr:
  assumes "parse_cond_tail path cond_call links = Inr (ls, sub)"
  shows "ls \<noteq> [] \<and> map_of SPEC_submodules sub \<noteq> None"
proof -
  have "foldE (cond_tail_link path) links (None, None) = Inr (Some ls, Some sub)"
    using assms by (auto simp: parse_cond_tail_def of_option_def split: option.split_asm)
  then have "(\<lambda>(l, s). tail_ok l s) (Some ls, Some sub)"
  proof (rule foldE_invariant)
    show "(\<lambda>(l, s). tail_ok l s) (None, None)" by (simp add: tail_ok_def)
  qed (auto dest: cond_tail_link_ok)
  then show ?thesis by (auto simp: tail_ok_def)
qed

lemma parse_cond_probe_wf: "parse_cond_probe path cond_call p links = Inr c \<Longrightarrow> wf_cond c"
  unfolding parse_cond_probe_def
  by (auto simp: wf_cond_def CondClause_defaults_def raise_if_def of_option_def
      simp del: bindE_Inr_iff elim!: bindE_InrE dest!: parse_cond_tail_Inr
      split: list.split_asm option.split_asm if_split_asm)

lemma inst_tail_link_ok:
  "inst_tail_link path lnk (ls, sub, ml) = Inr (ls', sub', ml') \<Longrightarrow> ml \<or> tail_ok ls sub \<Longrightarrow>
     ml' \<or> tail_ok ls' sub'"
  by (auto simp: inst_tail_link_def tail_ok_def raise_if_def dest: expect_layers_Inr validate_submodule_Inr
      split: prod.split_asm if_split_asm)

lemma parse_cond_instance_tail_Inr:
  assumes "parse_cond_instance_tail path cond_call links = Inr (ls, sub, ml)"
  shows "if ml then ls = [] \<and> sub = [] else ls \<noteq> [] \<and> map_of SPEC_submodules sub \<noteq> None"
proof (cases ml)
  case True
  then show ?thesis
    using assms by (auto simp: parse_cond_instance_tail_def of_option_def
        split: option.split_asm if_split_asm prod.split_asm)
next
  case False
  then have "foldE (inst_tail_link path) links (None, None, False) = Inr (Some ls, Some sub, False)"
    using assms by (auto simp: parse_cond_instance_tail_def of_option_def
        split: option.split_asm if_split_asm prod.split_asm)
  then have "(\<lambda>(l, s, ml). ml \<or> tail_ok l s) (Some ls, Some sub, False)"
  proof (rule foldE_invariant)
    show "(\<lambda>(l, s, ml). ml \<or> tail_ok l s) (None, None, False)" by (simp add: tail_ok_def)
  qed (auto dest: inst_tail_link_ok)
  then show ?thesis using False by (auto simp: tail_ok_def)
qed

lemma parse_cond_instance_wf: "parse_cond_instance path cond_call inst links cls = Inr c \<Longrightarrow> wf_cond c"
  unfolding parse_cond_instance_def
  by (auto simp: wf_cond_def CondClause_defaults_def raise_if_def of_option_def model_scope_def
      simp del: bindE_Inr_iff elim!: bindE_InrE dest!: parse_cond_instance_tail_Inr
      split: list.split_asm option.split_asm if_split_asm)

lemma parse_cond_wf: "parse_cond path cond_call class_map = Inr c \<Longrightarrow> wf_cond c"
  unfolding parse_cond_def
  by (auto simp del: bindE_Inr_iff elim!: bindE_InrE
      dest: parse_cond_probe_wf parse_cond_instance_wf
      split: list.split_asm option.split_asm if_split_asm prod.split_asm expr.split_asm)

text \<open>The state of the loop over a statement's links.\<close>

definition stmt_state_ok :: "stmt_state \<Rightarrow> bool" where
  "stmt_state_ok st \<longleftrightarrow>
     (case st of (layers, all, seen, submodule, cond) \<Rightarrow>
        (seen \<longrightarrow> (all \<longleftrightarrow> layers = []))
        \<and> (case submodule of None \<Rightarrow> True | Some s \<Rightarrow> map_of SPEC_submodules s \<noteq> None)
        \<and> (case cond of None \<Rightarrow> True | Some c \<Rightarrow> wf_cond c))"

lemma stmt_link_ok:
  assumes "stmt_link path class_map lnk st = Inr st'" and "stmt_state_ok st"
  shows "stmt_state_ok st'"
  using assms unfolding stmt_link_def
  by (auto simp: stmt_state_ok_def simp del: bindE_Inr_iff elim!: bindE_InrE
      dest: expect_layers_Inr validate_submodule_Inr parse_cond_wf
      split: prod.split_asm if_split_asm)

lemma parse_statement_wf:
  assumes "parse_statement path call class_map = Inr s"
  shows "wf_stmt s"
proof -
  obtain links verb op_call rest kind name args meth inst layers all sub cond where
    op: "parse_op_arg path op_call class_map = Inr (name, args, meth, inst)"
    and fold: "foldE (stmt_link path class_map) rest ([], False, False, None, None)
      = Inr (layers, all, True, Some sub, cond)"
    and s: "s = \<lparr> s_op = kind, op_name = name, s_args = args, s_method = meth,
      s_layers = layers, s_submodule = sub, s_cond = cond,
      s_loc = loc path call, s_instance_expr = inst, all_layers = all \<rparr>"
    using assms unfolding parse_statement_def
    by (auto simp: raise_if_def of_option_def simp del: bindE_Inr_iff elim!: bindE_InrE
        split: prod.split_asm list.split_asm if_split_asm option.split_asm)
  have "stmt_state_ok (layers, all, True, Some sub, cond)"
    using fold by (rule foldE_invariant) (auto simp: stmt_state_ok_def dest: stmt_link_ok)
  then show ?thesis
    using parse_op_arg_Inr [OF op] by (auto simp: s wf_stmt_def stmt_state_ok_def split: option.splits)
qed

section \<open>The parser accepts well-formed programs only\<close>

lemma scan_model_Inr:
  assumes "scan_model src path = Inr m"
  shows "map_of SPEC_models m \<noteq> None"
proof -
  obtain found where f: "foldE (scan_model_line path) (numbered_lines src) None = Inr found"
    and m: "m = (case found of None \<Rightarrow> SPEC_default_model
                      | Some f \<Rightarrow> if f = [] then SPEC_default_model else f)"
    using assms by (auto simp: scan_model_def)
  have "\<forall>n. found = Some n \<longrightarrow> map_of SPEC_models n \<noteq> None"
    using f
  proof (rule foldE_invariant)
    fix ln s t
    assume "scan_model_line path ln s = Inr t"
    then show "\<forall>n. t = Some n \<longrightarrow> map_of SPEC_models n \<noteq> None"
      if "\<forall>n. s = Some n \<longrightarrow> map_of SPEC_models n \<noteq> None"
      using that by (auto simp: scan_model_line_def map_of_eq_None_iff intro: rev_image_eqI
          split: option.split_asm if_split_asm)
  qed simp
  moreover have "map_of SPEC_models SPEC_default_model \<noteq> None"
    by (simp add: SPEC_models_def SPEC_default_model_def)
  ultimately show ?thesis using m by (auto split: option.splits if_splits)
qed

lemma block_owners_model_scope: "c \<in> set (block_owners rng nodes cm) \<Longrightarrow> model_scope c"
  by (auto simp: block_owners_def split: if_splits option.splits)

lemma resolve_init_block_Inr:
  "resolve_init_block path nodes cm rng = Inr (b, e, c) \<Longrightarrow> rng = (b, e) \<and> model_scope c"
  using block_owners_model_scope [of c rng nodes cm]
  by (cases rng) (auto simp: resolve_init_block_def split: list.split_asm)

lemma owner_cls_mem: "owner_cls n rs = Some c \<Longrightarrow> \<exists>b e. (b, e, c) \<in> set rs \<and> b < n \<and> n < e"
  by (induction n rs rule: owner_cls.induct) (auto split: if_splits)

lemma parse_tree_Inr:
  assumes "parse_tree path src body = Inr r"
  shows "wf_program r"
proof -
  obtain cm nodes pre ranges rc stmts m where
    rc: "resolve_init_blocks path ranges pre cm = Inr rc"
    and stmts: "mapE (\<lambda>call. parse_statement path call cm) nodes = Inr stmts"
    and m: "scan_model src path = Inr m"
    and r: "r = \<lparr> preamble = map (\<lambda>(node, text, targets).
              \<lparr> seg_text = text, seg_targets = targets,
                block_cls = owner_cls (lineno (stmt_pos node)) rc \<rparr>) pre,
            statements = stmts, model = m \<rparr>"
    using assms by (auto simp: parse_tree_def)
  have "\<forall>s \<in> set stmts. wf_stmt s" using mapE_Inr_set [OF stmts] parse_statement_wf by blast
  moreover have "model_scope c" if "(b, e, c) \<in> set rc" for b e c
    using mapE_Inr_set [OF rc [unfolded resolve_init_blocks_def] that] resolve_init_block_Inr by blast
  then have "\<forall>seg \<in> set (preamble r). wf_segment seg"
    by (auto simp: r wf_segment_def dest!: owner_cls_mem split: option.splits)
  ultimately show ?thesis using scan_model_Inr [OF m] by (simp add: wf_program_def list_all_iff r)
qed

lemma parse_and_validate_Inr:
  "parse_and_validate ast_parse fs path = Inr r \<Longrightarrow> wf_program r"
  by (auto simp: parse_and_validate_def dest: parse_tree_Inr split: file_text.split_asm option.split_asm sum.split_asm)

section \<open>Crashes of the parser\<close>

text \<open>The parser's only uncaught exception: the \<open>args\<close> of a subscripted \<open>.gates\<close> link.\<close>

definition parse_crash :: "xmix_exn" where
  "parse_crash = Uncaught (AttributeError ''args'')"

definition safe :: "'a xres \<Rightarrow> bool" where
  "safe r \<longleftrightarrow> (\<forall>e. r = Inl (Uncaught e) \<longrightarrow> Uncaught e = parse_crash)"

lemma no_crash_safe: "no_crash r \<Longrightarrow> safe r"
  by (simp add: no_crash_def safe_def)

lemma safe_simps [simp]:
  "safe (Inr v)" "safe (Inl (xmix_error l m))" "safe (Inl (xmix_error_alts l m as))"
  "safe (Inl (Uncaught (AttributeError ''args'')))"
  by (auto simp: safe_def xmix_error_def xmix_error_alts_def parse_crash_def)

lemma safe_bindE:
  assumes "safe m" and "\<And>x. m = Inr x \<Longrightarrow> safe (f x)"
  shows "safe (bindE m f)"
  using assms by (cases m) (auto simp: safe_def)

lemma safe_foldE: "(\<And>x s. x \<in> set xs \<Longrightarrow> safe (f x s)) \<Longrightarrow> safe (foldE f xs s)"
  by (induction xs arbitrary: s) (auto intro!: safe_bindE)

lemma safe_mapE: "(\<And>x. x \<in> set xs \<Longrightarrow> safe (f x)) \<Longrightarrow> safe (mapE f xs)"
  by (induction xs) (auto intro!: safe_bindE)

lemma safe_raise_if [simp]:
  "safe (raise_if c (xmix_error l m))" "safe (raise_if c (xmix_error_alts l m as))"
  by (simp_all add: no_crash_safe)

lemma safe_of_option [simp]:
  "safe (of_option (xmix_error l m) r)" "safe (of_option (xmix_error_alts l m as) r)"
  by (simp_all add: no_crash_safe)

lemmas safe_intros = safe_bindE safe_foldE safe_mapE

lemma no_keywords_safe [simp]: "safe (no_keywords path call what)"
  by (auto simp: no_keywords_def split: expr.split)

lemma attr_args_safe [simp]: "safe (attr_args e)"
  by (cases e) simp_all

lemma attr_keywords_safe: "\<exists>as. attr_args e = Inr as \<Longrightarrow> safe (attr_keywords e)"
  by (cases e) simp_all

lemma expect_name_list_safe [simp]: "safe (expect_name_list path what as)"
  by (induction path what as rule: expect_name_list.induct) (auto intro!: safe_bindE)

lemma expect_name_args_safe [simp]: "safe (expect_name_args path call what)"
  by (auto simp: expect_name_args_def intro!: safe_intros)

lemma expect_int_list_safe [simp]: "safe (expect_int_list path call what)"
  by (auto simp: expect_int_list_def expect_int_elts_def intro!: safe_intros
      split: list.split expr.split)

lemma layers_from_slice_safe [simp]: "safe (layers_from_slice path sub sl what)"
  by (auto simp: layers_from_slice_def intro!: safe_intros split: expr.split option.split)

lemma expect_layers_safe [simp]: "safe (expect_layers path link what)"
  by (auto simp: expect_layers_def intro!: safe_intros split: expr.split list.split option.split)

lemma validate_submodule_safe [simp]: "safe (validate_submodule path call)"
  by (auto simp: validate_submodule_def expect_str_def intro!: safe_intros
      split: list.split expr.split const.split)

lemma parse_op_arg_safe [simp]: "safe (parse_op_arg path op_call cm)"
  by (auto simp: parse_op_arg_def lookup_op_def check_method_def intro!: safe_intros
      split: list.split expr.split option.split)

lemma cond_tail_link_safe [simp]: "safe (cond_tail_link path lnk st)"
  by (auto simp: cond_tail_link_def intro!: safe_intros split: prod.split)

lemma parse_cond_probe_safe:
  "p = ''LinearProbe'' \<Longrightarrow> links \<noteq> [] \<Longrightarrow> safe (parse_cond_probe path cond_call p links)"
  by (auto simp: parse_cond_probe_def parse_cond_tail_def dict_index_def of_option_def SPEC_cond_ops_def
      intro!: safe_intros split: list.split option.split)

lemma inst_tail_link_safe [simp]: "safe (inst_tail_link path lnk st)"
  by (auto simp: inst_tail_link_def intro!: safe_intros split: prod.split)

lemma gates_keyword_safe [simp]: "safe (gates_keyword path g kw st)"
  by (auto simp: gates_keyword_def split: prod.split keyword.split)

lemma parse_cond_instance_safe:
  "links \<noteq> [] \<Longrightarrow> safe (parse_cond_instance path cond_call inst links cls)"
  by (auto simp: parse_cond_instance_def parse_cond_instance_tail_def intro!: safe_intros
      attr_keywords_safe split: list.split expr.split const.split option.split)

lemma parse_cond_safe [simp]: "safe (parse_cond path cond_call cm)"
  by (auto simp: parse_cond_def SPEC_keys
      intro!: safe_intros parse_cond_probe_safe parse_cond_instance_safe
      split: list.split expr.split option.split prod.split)

lemma stmt_link_safe [simp]: "safe (stmt_link path cm lnk st)"
  by (cases lnk; cases st) (simp add: stmt_link_def case_prod_unfold safe_bindE)

lemma parse_statement_safe [simp]: "safe (parse_statement path call cm)"
  by (auto simp: parse_statement_def resolve_verb_def intro!: safe_intros
      split: prod.split list.split)

lemma scan_model_safe [simp]: "safe (scan_model src path)"
  by (auto simp: scan_model_def scan_model_line_def intro!: safe_intros split: option.split)

lemma scan_init_blocks_safe [simp]: "safe (scan_init_blocks src path)"
  by (auto simp: scan_init_blocks_def scan_init_line_def intro!: safe_intros split: option.split prod.split)

lemma resolve_init_blocks_safe [simp]: "safe (resolve_init_blocks path ranges pre cm)"
  by (auto simp: resolve_init_blocks_def resolve_init_block_def intro!: safe_intros split: list.split)

lemma provide_keyword_safe [simp]: "safe (provide_keyword path src call cls schema kw provided)"
  by (auto simp: provide_keyword_def split: keyword.split option.split)

lemma validate_construction_safe [simp]: "safe (validate_construction path node src)"
  by (auto simp: validate_construction_def check_construction_def intro!: safe_intros
      split: stmt.split expr.split schema_lookup.split option.split list.split)

lemma first_pass_node_safe [simp]: "safe (first_pass_node path src node st)"
  by (auto simp: first_pass_node_def intro!: safe_intros split: prod.split)



section \<open>The generator succeeds on well-formed programs\<close>

text \<open>The ordering check: a per-layer condition on a statement with explicit layers must precede all
  of them; a statement on all layers is exempt.\<close>

definition order_ok :: "Statement \<Rightarrow> bool" where
  "order_ok s \<longleftrightarrow>
     (case s_cond s of
        None \<Rightarrow> True
      | Some c \<Rightarrow> model_level c \<or> all_layers s
          \<or> (\<forall>a \<in> set (c_layers c). \<forall>b \<in> set (s_layers s). a < b))"

lemma dest_of_ok:
  assumes "map_of SPEC_models m \<noteq> None" and "a = ''runner_setup'' \<or> a = ''runner_postload''"
  obtains d where "dest_of a m = Inr d"
proof -
  obtain ms where ms: "map_of SPEC_models m = Some ms" using assms(1) by auto
  moreover have "map_of (anchors ms) a \<noteq> None"
    using model_anchor_resolves [OF ms, of a] assms(2) by (auto simp: anchor_names_def)
  moreover have "map_of SPEC_destinations a \<noteq> None"
    using assms(2) by (auto simp: SPEC_destinations_def)
  ultimately show ?thesis using that by (auto simp: dest_of_def anchor_file_def dict_index_def)
qed

lemma anchor_file_ok:
  assumes "map_of SPEC_models m \<noteq> None" and "a \<in> set anchor_names"
  obtains f where "anchor_file m a = Inr f"
  using assms model_anchor_resolves [of m _ a] that by (fastforce simp: anchor_file_def dict_index_def)

text \<open>Model-scope classes: one entry of the registry.\<close>

lemma model_scope_iff: "model_scope cls \<longleftrightarrow> cls = ''EOLTokenDetector''"
  by (simp add: model_scope_def SPEC_cond_instances_def)

lemma layer_scope_iff:
  "map_of SPEC_cond_instances cls \<noteq> None \<and> \<not> model_scope cls \<longleftrightarrow> cls = ''CondProjCosSim''"
  by (auto simp: model_scope_iff) (auto simp: SPEC_cond_instances_def split: if_splits)

text \<open>The registered methods have exactly the arity of their hook sites, and every op has a
  builder.\<close>

definition op_entry_ok :: "string \<times> OpSpec \<Rightarrow> bool" where
  "op_entry_ok e =
     (case e of (k, op) \<Rightarrow>
        method_arity k (op_method op) = Inr (if op_flag op = ''w'' then 3 else 1)
        \<and> (case build_kind op of None \<Rightarrow> True
           | Some b \<Rightarrow> b = ''steering_vector_adder'' \<and> op_arity op = 1))"

lemma SPEC_ops_entries: "list_all op_entry_ok SPEC_ops"
  by code_simp

lemma op_entry: "map_of SPEC_ops k = Some op \<Longrightarrow> op_entry_ok (k, op)"
  using SPEC_ops_entries by (auto simp: list_all_iff dest: map_of_SomeD)

lemma submodule_arity:
  "map_of SPEC_submodules k = Some ss \<Longrightarrow> write_arity ss = 3 \<and> read_arity ss = 1"
  by (auto simp: SPEC_submodules_def split: if_splits)

lemma arity_agrees:
  assumes "map_of SPEC_ops k = Some op" and "map_of SPEC_submodules sub = Some ss"
  shows "method_arity k (op_method op)
    = Inr (if op_flag op = ''w'' then write_arity ss else read_arity ss)"
  using op_entry [OF assms(1)] submodule_arity [OF assms(2)] by (simp add: op_entry_ok_def)

lemma emit_steerer_ok:
  assumes "map_of SPEC_ops (op_name s) = Some op" and "map_of SPEC_models m \<noteq> None"
    and "length (s_args s) = (if s_instance_expr s = None then op_arity op else 0)"
  obtains v st' where "emit_steerer i s op st m = Inr (v, st')"
proof (cases "s_instance_expr s")
  case None
  obtain d where d: "dest_of ''runner_setup'' m = Inr d" using dest_of_ok [OF assms(2)] by blast
  have "\<exists>b. emit_op_build op (cls_name_of (op_cls_path op)) v (s_args s) i = Inr b" for v
  proof (cases "build_kind op")
    case (Some k)
    then have k: "k = ''steering_vector_adder''" and "op_arity op = 1"
      using op_entry [OF assms(1)] by (simp_all add: op_entry_ok_def)
    then obtain a as where "s_args s = a # as" using assms(3) None by (cases "s_args s") auto
    then show ?thesis using Some k by (simp add: emit_op_build_def emit_steering_vector_adder_def Let_def)
  qed (simp add: emit_op_build_def)
  then show ?thesis using that None d by (fastforce simp: emit_steerer_def Let_def)
qed (use that in \<open>simp add: emit_steerer_def\<close>)

lemma Max_less_Min_iff:
  fixes A B :: "int set"
  assumes "finite A" "A \<noteq> {}" "finite B" "B \<noteq> {}"
  shows "Max A < Min B \<longleftrightarrow> (\<forall>a \<in> A. \<forall>b \<in> B. a < b)"
  using assms by auto

lemma order_ok_iff:
  assumes "wf_stmt s" and "s_cond s = Some c" and "\<not> model_level c"
  shows "order_ok s \<longleftrightarrow> s_layers s = [] \<or> Max (set (c_layers c)) < Min (set (s_layers s))"
proof (cases "s_layers s = []")
  case False
  then show ?thesis
    using assms Max_less_Min_iff [of "set (c_layers c)" "set (s_layers s)"]
    by (simp add: order_ok_def wf_stmt_def wf_cond_def)
qed (use assms in \<open>simp add: order_ok_def wf_stmt_def\<close>)

lemma emit_cond_instance_ok:
  assumes "wf_cond c" and "\<not> model_level c" and "c_instance_expr c \<noteq> None"
    and "map_of SPEC_models m \<noteq> None"
  shows "\<exists>r. emit_cond_instance_setup c v st m = Inr r"
proof -
  obtain d where "dest_of ''runner_setup'' m = Inr d" using dest_of_ok [OF assms(4)] by blast
  moreover obtain cls cs where "cond_cls c = Some cls" "map_of SPEC_cond_instances cls = Some cs"
    using assms(1-3) by (auto simp: wf_cond_def split: option.splits)
  ultimately show ?thesis
    by (simp add: emit_cond_instance_setup_def need_def dict_index_def of_option_def Let_def)
qed

lemma emit_cond_probe_ok:
  assumes "wf_cond c" and "\<not> model_level c" and "c_instance_expr c = None"
    and "map_of SPEC_models m \<noteq> None"
  shows "\<exists>r. emit_cond_probe_setup i c st m = Inr r"
proof -
  obtain d where d: "dest_of ''runner_setup'' m = Inr d" using dest_of_ok [OF assms(4)] by blast
  obtain p cs cmp ms where p: "probe_op c = Some p" "map_of SPEC_cond_ops p = Some cs"
    and ms: "map_of (compares cs) cmp = Some ms" "length (c_args c) = cmp_arity ms"
    using assms(1-3) by (auto simp: wf_cond_def split: option.splits)
  have "length (c_args c) = 2"
    using p ms by (auto simp: SPEC_cond_ops_def split: if_splits)
  then obtain w t where "c_args c = [w, t]" by (auto simp: length_Suc_conv numeral_2_eq_2)
  then show ?thesis
    using d p by (simp add: emit_cond_probe_setup_def need_def dict_index_def of_option_def Let_def)
qed

lemma emit_cond_setup_result:
  assumes wf: "wf_stmt s" and c: "s_cond s = Some c" "\<not> model_level c"
    and m: "map_of SPEC_models m \<noteq> None"
  shows "if order_ok s then \<exists>r. emit_cond_setup i s c v st m = Inr r
    else emit_cond_setup i s c v st m = Inl (order_error c s)"
proof -
  have wc: "wf_cond c" and ne: "c_layers c \<noteq> []" using wf c by (auto simp: wf_stmt_def wf_cond_def)
  have "\<exists>r. (if c_instance_expr c \<noteq> None then emit_cond_instance_setup c v st m
      else emit_cond_probe_setup i c st m) = Inr r"
    using emit_cond_instance_ok [OF wc c(2) _ m] emit_cond_probe_ok [OF wc c(2) _ m] by simp
  then show ?thesis
    using order_ok_iff [OF wf c] ne
    by (auto simp: emit_cond_setup_def raise_if_def not_le simp del: Max_less_iff Min_gr_iff)
qed

lemma model_cond_cls:
  "wf_cond c \<Longrightarrow> model_level c \<Longrightarrow> cond_cls c = Some ''EOLTokenDetector''"
  by (auto simp: wf_cond_def model_scope_iff split: option.splits)

lemma emit_model_run_ok:
  assumes "wf_cond c" and "model_level c" and "map_of SPEC_models m \<noteq> None"
  shows "\<exists>r. emit_model_run c setup m = Inr r"
proof -
  obtain f where "anchor_file m ''model_forward'' = Inr f"
    using anchor_file_ok [OF assms(3), of "''model_forward''"] by (auto simp: anchor_names_def)
  then show ?thesis
    using model_cond_cls [OF assms(1,2)]
    by (simp add: emit_model_run_def need_def dict_index_def of_option_def SPEC_cond_instances_def)
qed

lemma emit_model_cond_install_ok:
  assumes "wf_cond c" and "model_level c" and "map_of SPEC_models m \<noteq> None"
  shows "\<exists>r. emit_model_cond_install c v install m = Inr r"
proof -
  obtain d where "dest_of ''runner_postload'' m = Inr d" using dest_of_ok [OF assms(3)] by blast
  then show ?thesis
    using model_cond_cls [OF assms(1,2)]
    by (simp add: emit_model_cond_install_def need_def dict_index_def of_option_def Let_def
        SPEC_cond_instances_def)
qed

lemma cond_flags_read:
  "map_of SPEC_cond_instances k = Some cs \<Longrightarrow> ci_flag cs = ''r''"
  "map_of SPEC_cond_ops k = Some co \<Longrightarrow> co_flag co = ''r''"
proof -
  have "list_all (\<lambda>e. ci_flag (snd e) = ''r'') SPEC_cond_instances"
    and "list_all (\<lambda>e. co_flag (snd e) = ''r'') SPEC_cond_ops" by code_simp+
  then show "map_of SPEC_cond_instances k = Some cs \<Longrightarrow> ci_flag cs = ''r''"
    and "map_of SPEC_cond_ops k = Some co \<Longrightarrow> co_flag co = ''r''"
    by (auto simp: list_all_iff dest!: map_of_SomeD)
qed

lemma cond_flag_ok:
  assumes "wf_cond c" and "\<not> model_level c"
  shows "cond_flag c = Inr ''r''"
proof (cases "c_instance_expr c")
  case None
  then obtain p cs where "probe_op c = Some p" "map_of SPEC_cond_ops p = Some cs"
    using assms by (auto simp: wf_cond_def split: option.splits)
  then show ?thesis
    using None cond_flags_read by (simp add: cond_flag_def need_def dict_index_def of_option_def)
next
  case (Some ie)
  then obtain cls cs where "cond_cls c = Some cls" "map_of SPEC_cond_instances cls = Some cs"
    using assms by (auto simp: wf_cond_def split: option.splits)
  then show ?thesis
    using Some cond_flags_read by (simp add: cond_flag_def need_def dict_index_def of_option_def)
qed

lemma emit_statement_result:
  assumes wf: "wf_stmt s" and m: "map_of SPEC_models m \<noteq> None"
  shows "if order_ok s then \<exists>st'. emit_statement i s st m = Inr st'
    else emit_statement i s st m = Inl (order_error (the (s_cond s)) s)"
proof -
  obtain op ss where op: "map_of SPEC_ops (op_name s) = Some op"
    and ss: "map_of SPEC_submodules (s_submodule s) = Some ss"
    and args: "length (s_args s) = (if s_instance_expr s = None then op_arity op else 0)"
    using wf by (auto simp: wf_stmt_def split: option.splits)
  obtain v st1 where v: "emit_steerer i s op st m = Inr (v, st1)"
    using emit_steerer_ok [OF op m args] by blast
  obtain d where d: "dest_of ''runner_postload'' m = Inr d" using dest_of_ok [OF m] by blast
  note facts = op ss v d arity_agrees [OF op ss] dict_index_def of_option_def Let_def reconcile_expr_def
  show ?thesis
  proof (cases "s_cond s")
    case None
    then show ?thesis by (simp add: emit_statement_def facts order_ok_def)
  next
    case (Some c)
    then have wc: "wf_cond c" using wf by (simp add: wf_stmt_def)
    show ?thesis
    proof (cases "model_level c")
      case True
      then show ?thesis
        using Some emit_model_run_ok [OF wc True m, of "es_setup st1"] emit_model_cond_install_ok [OF wc True m]
        by (auto simp: emit_statement_def facts order_ok_def)
    next
      case False
      then obtain cs where cs: "map_of SPEC_submodules (c_submodule c) = Some cs"
        using wc by (auto simp: wf_cond_def)
      then show ?thesis
        using Some False emit_cond_setup_result [OF wf Some False m, of i v st1] cond_flag_ok [OF wc False]
        by (auto simp: emit_statement_def facts split: if_splits)
    qed
  qed
qed

section \<open>Whole programs\<close>

lemma model_bound_scope:
  assumes "\<forall>s \<in> set stmts. wf_stmt s" and "model_bound stmts t = Some v"
  shows "\<exists>cls. v = Some cls \<and> model_scope cls"
proof -
  let ?step = "\<lambda>s m. case s_cond s of
                   None \<Rightarrow> m
                 | Some c \<Rightarrow>
                     (case c_instance_expr c of
                        None \<Rightarrow> m
                      | Some ie \<Rightarrow> if model_level c \<and> ie \<noteq> [] then m(ie \<mapsto> cond_cls c) else m)"
  have "\<forall>t v. fold ?step stmts m t = Some v \<longrightarrow> (\<exists>cls. v = Some cls \<and> model_scope cls)"
    if "\<forall>t v. m t = Some v \<longrightarrow> (\<exists>cls. v = Some cls \<and> model_scope cls)" for m
    using assms(1) that
  proof (induction stmts arbitrary: m)
    case (Cons s stmts)
    have c: "\<exists>cls. cond_cls c = Some cls \<and> model_scope cls" if "s_cond s = Some c" "model_level c" for c
      using Cons.prems(1) that model_cond_cls [of c] by (simp add: wf_stmt_def model_scope_iff)
    have "\<forall>t v. ?step s m t = Some v \<longrightarrow> (\<exists>cls. v = Some cls \<and> model_scope cls)"
    proof (cases "\<exists>c ie. s_cond s = Some c \<and> c_instance_expr c = Some ie \<and> model_level c \<and> ie \<noteq> []")
      case True
      then obtain c' ie where c': "s_cond s = Some c'" "c_instance_expr c' = Some ie" "model_level c'" "ie \<noteq> []"
        by blast
      obtain cls where "cond_cls c' = Some cls" "model_scope cls" using c [OF c'(1,3)] by blast
      then show ?thesis using c' Cons.prems(2) by simp
    next
      case False
      then have "?step s m = m" by (auto split: option.split)
      then show ?thesis using Cons.prems(2) by simp
    qed
    then show ?case using Cons.IH [of "?step s m"] Cons.prems(1) by simp
  qed simp
  from this [of Map.empty] show ?thesis using assms(2) unfolding model_bound_def by simp
qed

lemma segment_cls_scope:
  assumes "\<forall>s \<in> set stmts. wf_stmt s" and "wf_segment seg"
    and "segment_cls (model_bound stmts) seg = Some cls"
  shows "model_scope cls"
proof (cases "\<exists>b. block_cls seg = Some b \<and> b \<noteq> []")
  case True
  then show ?thesis using assms(2,3) by (auto simp: segment_cls_def or_opt_def wf_segment_def)
next
  case False
  then have "(case filter (\<lambda>t. model_bound stmts t \<noteq> None) (seg_targets seg) of
      [] \<Rightarrow> None | t # _ \<Rightarrow> the (model_bound stmts t)) = Some cls"
    using assms(3) by (auto simp: segment_cls_def or_opt_def split: option.splits if_splits)
  then obtain t where "model_bound stmts t \<noteq> None" "the (model_bound stmts t) = Some cls"
    by (auto simp: filter_eq_Cons_iff split: list.split_asm)
  then show ?thesis using model_bound_scope [OF assms(1)] by fastforce
qed

lemma emit_segment_ok:
  assumes "\<forall>s \<in> set stmts. wf_stmt s" and "wf_segment seg" and m: "map_of SPEC_models m \<noteq> None"
  shows "\<exists>r. emit_segment (model_bound stmts) m seg setup = Inr r"
proof (cases "segment_cls (model_bound stmts) seg")
  case None
  obtain d where "dest_of ''runner_setup'' m = Inr d" using dest_of_ok [OF m] by blast
  then show ?thesis using None by (simp add: emit_segment_def)
next
  case (Some cls)
  then have "cls = ''EOLTokenDetector''"
    using segment_cls_scope [OF assms(1,2)] by (simp add: model_scope_iff)
  moreover obtain f where "anchor_file m ''model_construct'' = Inr f"
    using anchor_file_ok [OF m, of "''model_construct''"] by (auto simp: anchor_names_def)
  ultimately show ?thesis
    using Some by (simp add: emit_segment_def model_dest_def need_def dict_index_def of_option_def
        SPEC_cond_instances_def)
qed

lemma foldE_total:
  assumes "\<And>x s. x \<in> set xs \<Longrightarrow> \<exists>s'. f x s = Inr s'"
  shows "\<exists>s'. foldE f xs s = Inr s'"
  using assms
proof (induction xs arbitrary: s)
  case (Cons x xs)
  then obtain s1 where "f x s = Inr s1" by (meson list.set_intros(1))
  then show ?case using Cons by simp
qed simp

lemma emit_preamble_ok:
  assumes "\<forall>s \<in> set stmts. wf_stmt s" and "\<forall>seg \<in> set segs. wf_segment seg"
    and "map_of SPEC_models m \<noteq> None"
  shows "\<exists>r. emit_preamble segs stmts m = Inr r"
  using foldE_total [of segs "emit_segment (model_bound stmts) m"] emit_segment_ok assms
  by (simp add: emit_preamble_def)

lemma footprint_tags_ok:
  assumes "\<forall>s \<in> set stmts. wf_stmt s"
  shows "\<exists>tags. footprint_tags stmts = Inr tags"
proof -
  have "\<exists>t. stmt_footprint_tags s = Inr t" if "wf_stmt s" for s
    using that cond_flag_ok
    by (auto simp: stmt_footprint_tags_def wf_stmt_def dict_index_def of_option_def split: option.splits)
  then have "\<exists>ts. mapE stmt_footprint_tags stmts = Inr ts"
    using assms by (induction stmts) fastforce+
  then show ?thesis by (auto simp: footprint_tags_def)
qed

text \<open>A loop whose steps succeed or raise a known error raises that of the first offender.\<close>

lemma foldE_first_error:
  assumes "\<And>x s. x \<in> set xs \<Longrightarrow> if P x then \<exists>s'. f x s = Inr s' else f x s = Inl (err x)"
  shows "if \<forall>x \<in> set xs. P x then \<exists>s'. foldE f xs s = Inr s'
    else \<exists>x \<in> set xs. \<not> P x \<and> foldE f xs s = Inl (err x)"
  using assms
proof (induction xs arbitrary: s)
  case (Cons x xs)
  have x: "if P x then \<exists>s'. f x s = Inr s' else f x s = Inl (err x)" using Cons.prems by simp
  show ?case
  proof (cases "P x")
    case True
    then obtain s1 where s1: "f x s = Inr s1" using x by auto
    have "if \<forall>x \<in> set xs. P x then \<exists>s'. foldE f xs s1 = Inr s'
        else \<exists>x \<in> set xs. \<not> P x \<and> foldE f xs s1 = Inl (err x)"
      using Cons.IH Cons.prems by simp
    then show ?thesis using True s1 by (simp split: if_splits)
  next
    case False
    then show ?thesis using x by simp
  qed
qed simp

text \<open>Emission of all statements: success, or the ordering error of the first offender.\<close>

lemma emit_statements_result:
  assumes wf: "\<forall>s \<in> set stmts. wf_stmt s" and m: "map_of SPEC_models m \<noteq> None"
  shows "if \<forall>s \<in> set stmts. order_ok s then \<exists>st'. emit_statements stmts st m = Inr st'
    else \<exists>s \<in> set stmts. \<not> order_ok s
      \<and> emit_statements stmts st m = Inl (order_error (the (s_cond s)) s)"
proof -
  let ?xs = "zip [0..<length stmts] stmts"
  have img: "snd ` set ?xs = set stmts" by (metis length_upt map_snd_zip minus_nat.diff_0 set_map)
  have "if \<forall>x \<in> set ?xs. order_ok (snd x)
    then \<exists>st'. foldE (\<lambda>(i, s) st. emit_statement i s st m) ?xs st = Inr st'
    else \<exists>x \<in> set ?xs. \<not> order_ok (snd x)
      \<and> foldE (\<lambda>(i, s) st. emit_statement i s st m) ?xs st
          = Inl (order_error (the (s_cond (snd x))) (snd x))"
  proof (rule foldE_first_error [where P = "\<lambda>x. order_ok (snd x)"])
    fix x st
    assume "x \<in> set ?xs"
    then have "wf_stmt (snd x)" using wf img by blast
    then show "if order_ok (snd x) then \<exists>st'. (case x of (i, s) \<Rightarrow> \<lambda>st. emit_statement i s st m) st = Inr st'
        else (case x of (i, s) \<Rightarrow> \<lambda>st. emit_statement i s st m) st
          = Inl (order_error (the (s_cond (snd x))) (snd x))"
      using emit_statement_result [OF _ m] by (cases x) simp
  qed
  then show ?thesis unfolding emit_statements_def img [symmetric] by (simp add: ball_simps bex_simps)
qed

lemma generate_result:
  assumes "wf_program r"
  shows "if \<forall>s \<in> set (statements r). order_ok s
    then \<exists>code. generate (statements r) path (preamble r) (Some (model r)) = Inr code
    else \<exists>s \<in> set (statements r). \<not> order_ok s
      \<and> generate (statements r) path (preamble r) (Some (model r)) = Inl (order_error (the (s_cond s)) s)"
proof -
  have wf: "\<forall>s \<in> set (statements r). wf_stmt s" "\<forall>seg \<in> set (preamble r). wf_segment seg"
    and m: "map_of SPEC_models (model r) \<noteq> None"
    using assms by (simp_all add: wf_program_def list_all_iff)
  then have "model r \<noteq> []" by (auto simp: SPEC_models_def)
  then have mdl: "or_str (Some (model r)) SPEC_default_model = model r" by (simp add: or_str_def)
  obtain su where s: "emit_preamble (preamble r) (statements r) (model r) = Inr su"
    using emit_preamble_ok [OF wf m] by blast
  obtain tags where t: "footprint_tags (statements r) = Inr tags" using footprint_tags_ok [OF wf(1)] by blast
  show ?thesis
    using emit_statements_result [OF wf(1) m,
        of "\<lparr> es_setup = su, es_install = new_sink, es_assumed = {''torch''} \<rparr>"]
    by (auto simp: generate_def generate_lines_def mdl s t split: if_splits)
qed

text \<open>C4.  What the parser accepts is well formed: every statement names a registered op with
  its method and number of arguments and a registered submodule, has a non-empty layer list
  unless it addresses all layers, and carries a condition whose scope agrees with its class;
  every init-block segment belongs to a model-scope class; the model is registered.\<close>

theorem parse_well_formed:
  "parse_and_validate ast_parse fs path = Inr r \<Longrightarrow> wf_program r"
  by (rule parse_and_validate_Inr)

text \<open>C3.  On a parsed program the generator succeeds exactly when, in every statement with explicit
  layers, a per-layer condition reads layers that all precede the layers it gates; model-level
  conditions and statements on all layers are not checked.  Otherwise it raises the ordering
  error of an offending statement, and no other.\<close>

theorem compile_succeeds_iff:
  assumes "parse_and_validate ast_parse fs path = Inr r"
  shows "((\<exists>code. compile_xmix ast_parse fs path = Inr code) \<longleftrightarrow> (\<forall>s \<in> set (statements r). order_ok s))
    \<and> (\<forall>e. compile_xmix ast_parse fs path = Inl e \<longrightarrow>
         (\<exists>s \<in> set (statements r). \<not> order_ok s \<and> e = order_error (the (s_cond s)) s))"
proof -
  have "wf_program r" using assms by (rule parse_and_validate_Inr)
  from generate_result [OF this, of path] show ?thesis
    using assms by (auto simp: compile_xmix_def split: if_splits)
qed



section \<open>A sample program\<close>

text \<open>The tree of \<open>m.write(SteeringVector(v).run).layers([10, 12]).submodule("mlp.post")\<close> with
  \<open>.cond(LinearProbe.biggerThan(w, t).layer([k]).submodule("mlp.post"))\<close>.\<close>

definition pos0 :: npos where
  "pos0 = \<lparr> lineno = 1, col_offset = 0, end_lineno = 1, end_col_offset = 0 \<rparr>"

definition link :: "expr \<Rightarrow> string \<Rightarrow> expr list \<Rightarrow> expr" where
  "link e a args = Call pos0 (Attribute pos0 e a) args []"

definition sample_call :: "int \<Rightarrow> expr" where
  "sample_call k =
     (let nm = Name pos0; str = (\<lambda>s. Constant pos0 (CStr s));
          ints = (\<lambda>is. ListE pos0 (map (\<lambda>i. Constant pos0 (CInt i)) is));
          op = Attribute pos0 (Call pos0 (nm ''SteeringVector'') [nm ''v''] []) ''run'';
          cond = link (link (link (nm ''LinearProbe'') ''biggerThan'' [nm ''w'', nm ''t''])
                   ''layer'' [ints [k]]) ''submodule'' [str ''mlp.post'']
      in link (link (link (link (nm ''m'') ''write'' [op]) ''layers'' [ints [10, 12]])
           ''submodule'' [str ''mlp.post'']) ''cond'' [cond])"

definition sample_parser :: "int \<Rightarrow> ast_parser" where
  "sample_parser k src = Inr [ExprStmt pos0 (sample_call k)]"

definition sample_src :: files where
  "sample_src = [''demo.xmix'' \<mapsto> Decoded ''m.write'', ''bin.xmix'' \<mapsto> Undecodable]"

definition sample_result :: "int \<Rightarrow> ParseResult" where
  "sample_result k =
     (case parse_and_validate (sample_parser k) sample_src ''demo.xmix'' of
        Inr r \<Rightarrow> r | Inl _ \<Rightarrow> \<lparr> preamble = [], statements = [], model = [] \<rparr>)"

lemma sample_parsed:
  "parse_and_validate (sample_parser 7) sample_src ''demo.xmix'' = Inr (sample_result 7)"
  "parse_and_validate (sample_parser 11) sample_src ''demo.xmix'' = Inr (sample_result 11)"
proof -
  have "\<not> isl (parse_and_validate (sample_parser 7) sample_src ''demo.xmix'')"
    and "\<not> isl (parse_and_validate (sample_parser 11) sample_src ''demo.xmix'')" by code_simp+
  then show "parse_and_validate (sample_parser 7) sample_src ''demo.xmix'' = Inr (sample_result 7)"
    and "parse_and_validate (sample_parser 11) sample_src ''demo.xmix'' = Inr (sample_result 11)"
    by (auto simp: sample_result_def isl_def split: sum.splits)
qed

theorem parse_well_formed_witness: "wf_program (sample_result 7) \<and> length (statements (sample_result 7)) = 1"
proof
  show "wf_program (sample_result 7)" by (rule parse_well_formed [OF sample_parsed(1)])
  show "length (statements (sample_result 7)) = 1" by code_simp
qed

text \<open>The condition on layer 7 precedes layers 10 and 12; on layer 11 it does not.\<close>

theorem compile_succeeds_iff_witness:
  "(\<exists>code. compile_xmix (sample_parser 7) sample_src ''demo.xmix'' = Inr code)
   \<and> \<not> (\<exists>code. compile_xmix (sample_parser 11) sample_src ''demo.xmix'' = Inr code)"
proof
  have "list_all order_ok (statements (sample_result 7))" by code_simp
  then show "\<exists>code. compile_xmix (sample_parser 7) sample_src ''demo.xmix'' = Inr code"
    using compile_succeeds_iff [OF sample_parsed(1)] by (simp add: list_all_iff)
  have "\<not> list_all order_ok (statements (sample_result 11))" by code_simp
  then show "\<not> (\<exists>code. compile_xmix (sample_parser 11) sample_src ''demo.xmix'' = Inr code)"
    using compile_succeeds_iff [OF sample_parsed(2)] by (simp add: list_all_iff)
qed



section \<open>Layer ranges and init blocks\<close>

text \<open>C9.  The range form \<open>.layer[lo:hi:k]\<close> is inclusive.  It is accepted exactly when both bounds
  are integer literals with \<open>lo \<le> hi\<close> and the step is absent, and then 1, or a positive integer
  literal; it then gives, in ascending order and without repetition, the layers from \<open>lo\<close> to \<open>hi\<close> in
  steps of \<open>k\<close>.  Everything else is refused with the compiler's own error.\<close>

theorem slice_layers:
  "(layers_from_slice path sub sl what = Inr ls \<longleftrightarrow>
      (\<exists>p l u st lo hi k. sl = Slice p (Some l) (Some u) st
         \<and> int_const l = Some lo \<and> int_const u = Some hi \<and> lo \<le> hi
         \<and> (case st of None \<Rightarrow> k = 1 | Some s \<Rightarrow> int_const s = Some k) \<and> 0 < k
         \<and> sorted_wrt (<) ls \<and> set ls = {x. lo \<le> x \<and> x \<le> hi \<and> (x - lo) mod k = 0}))
   \<and> (\<forall>e. layers_from_slice path sub sl what = Inl e \<longrightarrow> (\<exists>err. e = Xmix err))"
proof -
  have list: "sorted_wrt (<) ls \<and> set ls = {x. lo \<le> x \<and> x \<le> hi \<and> (x - lo) mod k = 0}
      \<longleftrightarrow> py_range lo (hi + 1) k = ls" if "0 < k" for lo hi k
    using py_range_upto [OF that, of lo hi] py_range_sorted [OF that, of lo "hi + 1"] strict_sorted_equal [of "py_range lo (hi + 1) k" ls]
    by auto
  show ?thesis
  proof (cases "\<exists>p l u st. sl = Slice p (Some l) (Some u) st")
    case True
    then obtain p l u st where sl: "sl = Slice p (Some l) (Some u) st" by blast
    show ?thesis
      by (cases st) (auto simp: sl layers_from_slice_def raise_if_def xmix_error_def list
          list [of 1, simplified] split: option.splits)
  qed (auto simp: layers_from_slice_def xmix_error_def split: expr.split option.split)
qed

theorem slice_layers_witness:
  "layers_from_slice ''f'' (Name pos0 ''x'')
     (Slice pos0 (Some (Constant pos0 (CInt 3))) (Some (Constant pos0 (CInt 8))) (Some (Constant pos0 (CInt 2))))
     ''layer'' = Inr [3, 5, 7]"
proof -
  have "set [3, 5, 7] = {x::int. 3 \<le> x \<and> x \<le> 8 \<and> (x - 3) mod 2 = 0}"
  proof (intro set_eqI iffI)
    fix x :: int
    assume "x \<in> {x. 3 \<le> x \<and> x \<le> 8 \<and> (x - 3) mod 2 = 0}"
    then show "x \<in> set [3, 5, 7]" by simp presburger
  qed auto
  then show ?thesis
    using slice_layers [of "''f''" "Name pos0 ''x''"] by simp
qed

text \<open>The scan for init blocks, on lines numbered in ascending order.\<close>

definition ranges_ok :: "(nat \<times> nat) list \<Rightarrow> bool" where
  "ranges_ok rs \<longleftrightarrow> sorted_wrt (\<lambda>r1 r2. snd r1 < fst r2) rs \<and> (\<forall>r \<in> set rs. fst r < snd r)"

lemma scan_init_fold:
  assumes "foldE (scan_init_line path) xs (rs, op) = Inr (rs', op')"
    and "sorted_wrt (\<lambda>a b. fst a < fst b) xs" and "ranges_ok rs"
    and "\<forall>r \<in> set rs. \<forall>x \<in> set xs. snd r < fst x"
    and "case op of None \<Rightarrow> True
         | Some b \<Rightarrow> (\<forall>x \<in> set xs. b < fst x) \<and> (\<forall>r \<in> set rs. snd r < b)"
  shows "ranges_ok rs'"
  using assms
proof (induction xs arbitrary: rs op)
  case (Cons x xs)
  obtain rs1 op1 where s: "scan_init_line path x (rs, op) = Inr (rs1, op1)"
    and rest: "foldE (scan_init_line path) xs (rs1, op1) = Inr (rs', op')" using Cons.prems(1) by auto
  consider "rs1 = rs" "op1 = Some (fst x)" "op = None" | "rs1 = rs" "op1 = op"
    | b where "op = Some b" "rs1 = rs @ [(b, fst x)]" "op1 = None"
    using s by (auto simp: scan_init_line_def split: if_splits option.splits)
  then show ?case
  proof cases
    case 3
    then have "ranges_ok rs1" using Cons.prems by (auto simp: ranges_ok_def sorted_wrt_append)
    then show ?thesis using Cons.IH [OF rest] Cons.prems 3 by auto
  qed (use Cons.IH [OF rest] Cons.prems in \<open>auto split: option.splits\<close>)
qed simp

lemma numbered_lines_sorted: "sorted_wrt (\<lambda>a b. fst a < fst b) (numbered_lines src)"
  by (simp add: numbered_lines_def Let_def sorted_wrt_iff_nth_less del: upt_Suc)

text \<open>The marker lines of a file, with whether the marker opens a block; and the marker lines a list of
  blocks stands for.\<close>

definition markers :: "(nat \<times> string) list \<Rightarrow> (nat \<times> bool) list" where
  "markers ls = map (\<lambda>l. (fst l, INIT_RE (snd l))) (filter (\<lambda>l. INIT_RE (snd l) \<or> END_RE (snd l)) ls)"

fun block_markers :: "(nat \<times> nat) list \<Rightarrow> (nat \<times> bool) list" where
  "block_markers [] = []"
| "block_markers ((b, e) # rs) = (b, True) # (e, False) # block_markers rs"

lemma block_markers_append [simp]: "block_markers (rs @ rs') = block_markers rs @ block_markers rs'"
  by (induction rs rule: block_markers.induct) auto

lemma block_markers_prefix:
  "block_markers rs0 @ ms = block_markers rs \<longleftrightarrow> (\<exists>rs1. rs = rs0 @ rs1 \<and> ms = block_markers rs1)"
proof (induction rs0 arbitrary: rs rule: block_markers.induct)
  case (2 b e rs0)
  then show ?case by (cases rs rule: block_markers.cases) auto
qed auto

lemma block_markers_inject: "block_markers rs0 = block_markers rs \<longleftrightarrow> rs0 = rs"
  using block_markers_prefix [of rs0 "[]" rs] by (auto elim: block_markers.elims dest: sym)

lemma block_markers_Cons:
  "(b, o1) # ms = block_markers rs \<longleftrightarrow>
     o1 \<and> (\<exists>e rs1 ms1. rs = (b, e) # rs1 \<and> ms = (e, False) # ms1 \<and> ms1 = block_markers rs1)"
  by (cases rs rule: block_markers.cases) auto

lemma scan_init_iff:
  "foldE (scan_init_line path) xs (rs0, op) = Inr (rs, None) \<longleftrightarrow>
     block_markers rs0 @ (case op of None \<Rightarrow> [] | Some b \<Rightarrow> [(b, True)]) @ markers xs = block_markers rs"
proof (induction xs arbitrary: rs0 op)
  case Nil
  show ?case
    by (cases op) (auto simp: markers_def block_markers_prefix block_markers_Cons
        block_markers_inject)
next
  case (Cons x xs)
  show ?case
  proof (cases "INIT_RE (snd x) \<or> END_RE (snd x)")
    case True
    then show ?thesis
      using Cons.IH [of rs0 "Some (fst x)"] Cons.IH [of "rs0 @ [(the op, fst x)]" None]
      by (cases op) (auto simp: scan_init_line_def markers_def block_markers_prefix block_markers_Cons)
  qed (use Cons.IH [of rs0 op] in \<open>simp add: scan_init_line_def markers_def\<close>)
qed

lemma scan_init_error:
  "foldE (scan_init_line path) xs st = Inl e \<Longrightarrow> \<exists>err. e = Xmix err"
  by (induction xs arbitrary: st)
    (auto simp: scan_init_line_def xmix_error_def split: if_splits option.splits prod.splits sum.splits)

text \<open>C10.  The scan returns the init blocks exactly when the marker lines of the file alternate, opening
  first and closing last, and the blocks are then the consecutive pairs of marker lines: a nested
  opening, a closing line with nothing open and a block left open are all refused, with the compiler's
  own error.  The blocks it returns are proper and disjoint: each closes after it opens and before the
  next one opens, so that a preamble line belongs to at most one block.\<close>

theorem init_blocks_paired:
  "(scan_init_blocks src path = Inr rs \<longleftrightarrow> markers (numbered_lines src) = block_markers rs)
   \<and> (scan_init_blocks src path = Inr rs \<longrightarrow>
        sorted_wrt (\<lambda>r1 r2. snd r1 < fst r2) rs \<and> (\<forall>r \<in> set rs. fst r < snd r))
   \<and> (\<forall>e. scan_init_blocks src path = Inl e \<longrightarrow> (\<exists>err. e = Xmix err))"
proof -
  have fold: "scan_init_blocks src path = Inr rs \<longleftrightarrow>
      foldE (scan_init_line path) (numbered_lines src) ([], None) = Inr (rs, None)"
    by (auto simp: scan_init_blocks_def split: option.splits sum.splits)
  have "ranges_ok rs" if "scan_init_blocks src path = Inr rs"
    using scan_init_fold [OF that [unfolded fold] numbered_lines_sorted] by (simp add: ranges_ok_def)
  moreover have "\<exists>err. e = Xmix err" if "scan_init_blocks src path = Inl e" for e
    using that scan_init_error [of path "numbered_lines src" "([], None)"]
    by (auto simp: scan_init_blocks_def xmix_error_def bindE_Inl_iff split: option.splits)
  ultimately show ?thesis
    using fold scan_init_iff [of path "numbered_lines src" "[]" None rs] by (auto simp: ranges_ok_def)
qed

theorem init_blocks_paired_witness:
  "scan_init_blocks (join [LF] [''#token_detector: init'', ''x = 1'', ''#token_detector: end'',
      ''# token_detector : init'', ''#token_detector: end'']) ''f'' = Inr [(1, 3), (4, 5)]
   \<and> sorted_wrt (\<lambda>r1 r2. snd r1 < fst r2) [(1::nat, 3), (4::nat, 5::nat)]
   \<and> scan_init_blocks (join [LF] [''#token_detector: init'', ''#token_detector: init'',
      ''#token_detector: end'']) ''f'' \<noteq> Inr [(2, 3)]"
proof -
  have "markers (numbered_lines (join [LF] [''#token_detector: init'', ''x = 1'', ''#token_detector: end'',
      ''# token_detector : init'', ''#token_detector: end''])) = block_markers [(1, 3), (4, 5)]"
    "markers (numbered_lines (join [LF] [''#token_detector: init'', ''#token_detector: init'',
      ''#token_detector: end''])) \<noteq> block_markers [(2, 3)]"
    by code_simp+
  then show ?thesis
    using init_blocks_paired [of "join [LF] [''#token_detector: init'', ''x = 1'', ''#token_detector: end'',
        ''# token_detector : init'', ''#token_detector: end'']" "''f''" "[(1, 3), (4, 5)]"]
      init_blocks_paired [of "join [LF] [''#token_detector: init'', ''#token_detector: init'',
        ''#token_detector: end'']" "''f''" "[(2, 3)]"] by blast
qed

end
