(* ===== verification/KV_Block.thy ===== *)
theory KV_Block
  imports Prelude "HOL-Library.Word"
begin

text \<open>
  KV-cache blocks and their hash keys (\<open>vllm/v1/core/kv_cache_utils.py\<close>): the block
  metadata object, the packing of a block hash and a group id into one key, and the
  conversion of a hash to its 64-bit external form.  Bytes are 8-bit words.
\<close>

section \<open>Bytes\<close>

unbundle bit_operations_syntax

type_synonym bytes = "8 word list"

text \<open>\<open>n.to_bytes(len, "big", signed=False)\<close>: \<open>OverflowError\<close> when the number does not fit.\<close>

fun be_bytes :: "nat \<Rightarrow> nat \<Rightarrow> bytes" where
  "be_bytes 0 n = []"
| "be_bytes (Suc k) n = be_bytes k (n div 256) @ [of_nat n]"

definition to_bytes :: "nat \<Rightarrow> nat \<Rightarrow> py_exn + bytes" where
  "to_bytes len n = (if n < 256 ^ len then Inr (be_bytes len n) else Inl OverflowError)"

text \<open>\<open>int.from_bytes(b, "big", signed=False)\<close>.\<close>

definition from_bytes :: "bytes \<Rightarrow> nat" where
  "from_bytes b = foldl (\<lambda>acc w. acc * 256 + unat w) 0 b"

lemma length_be_bytes [simp]: "length (be_bytes k n) = k"
  by (induction k arbitrary: n) simp_all

lemma from_bytes_snoc [simp]: "from_bytes (b @ [w]) = from_bytes b * 256 + unat w"
  by (simp add: from_bytes_def)

lemma from_be_bytes: "n < 256 ^ k \<Longrightarrow> from_bytes (be_bytes k n) = n"
proof (induction k arbitrary: n)
  case (Suc k)
  then have "n div 256 < 256 ^ k" by (simp add: less_mult_imp_div_less mult.commute)
  moreover have "unat (of_nat n :: 8 word) = n mod 256" by (simp add: unat_of_nat)
  ultimately show ?case using Suc.IH by simp
qed (simp add: from_bytes_def)

section \<open>Hash keys\<close>

definition make_block_hash_with_group_id :: "bytes \<Rightarrow> nat \<Rightarrow> py_exn + bytes" where
  "make_block_hash_with_group_id block_hash group_id =
     bindE (to_bytes 4 group_id) (\<lambda>g. Inr (block_hash @ g))"

text \<open>The slices \<open>key[:-4]\<close> and \<open>key[-4:]\<close>.\<close>

definition get_block_hash :: "bytes \<Rightarrow> bytes" where
  "get_block_hash key = take (length key - 4) key"

definition get_group_id :: "bytes \<Rightarrow> nat" where
  "get_group_id key = from_bytes (drop (length key - 4) key)"

datatype external_hash = HashBytes bytes | HashInt "64 word"

text \<open>\<open>maybe_convert_block_hash\<close>; \<open>use_int\<close> is \<open>envs.VLLM_KV_EVENTS_USE_INT_BLOCK_HASHES\<close>.\<close>

definition maybe_convert_block_hash :: "bool \<Rightarrow> bytes \<Rightarrow> external_hash" where
  "maybe_convert_block_hash use_int hash_bytes =
     (if \<not> use_int then HashBytes hash_bytes else HashInt (of_nat (from_bytes hash_bytes)))"

lemma key_roundtrip:
  assumes "make_block_hash_with_group_id h g = Inr key"
  shows "get_block_hash key = h" "get_group_id key = g"
  using assms from_be_bytes [of g 4]
  by (auto simp: make_block_hash_with_group_id_def to_bytes_def get_block_hash_def get_group_id_def
      split: if_splits)

lemma make_key_Inr: "g < 2 ^ 32 \<Longrightarrow> make_block_hash_with_group_id h g = Inr (h @ be_bytes 4 g)"
  by (simp add: make_block_hash_with_group_id_def to_bytes_def)

text \<open>C11.  Hash keys pack without loss: for a group id below 2 to the 32 the key is built and
  both components are recovered from it, hence keys of different pairs differ; a larger group
  id is refused.\<close>

theorem block_hash_key_roundtrip:
  "case make_block_hash_with_group_id h g of
     Inr key \<Rightarrow> g < 2 ^ 32 \<and> get_block_hash key = h \<and> get_group_id key = g
   | Inl e \<Rightarrow> 2 ^ 32 \<le> g \<and> e = OverflowError"
  using key_roundtrip [of h g]
  by (auto simp: make_block_hash_with_group_id_def to_bytes_def split: sum.split)

section \<open>Blocks\<close>

text \<open>A reference to a block: the two sentinels of the free list or a block of the pool, by
  its position.  The attributes of a block live in a store indexed by references.\<close>

datatype ref = FakeHead | FakeTail | Blk nat

record KVCacheBlock =
  block_id :: int
  ref_cnt :: int
  block_hash :: "bytes option"
  prev_free_block :: "ref option"
  next_free_block :: "ref option"
  is_null :: bool

definition new_block :: "int \<Rightarrow> KVCacheBlock" where
  "new_block i = \<lparr> block_id = i, ref_cnt = 0, block_hash = None, prev_free_block = None,
                    next_free_block = None, is_null = False \<rparr>"

type_synonym heap = "ref \<Rightarrow> KVCacheBlock"

text \<open>The blocks as \<open>BlockPool\<close> creates them, before any free list exists.\<close>

definition fresh_heap :: heap where
  "fresh_heap r = new_block (case r of Blk i \<Rightarrow> int i | _ \<Rightarrow> -1)"

lemma fresh_heap_simps [simp]:
  "next_free_block (fresh_heap r) = None" "prev_free_block (fresh_heap r) = None"
  "ref_cnt (fresh_heap r) = 0" "block_hash (fresh_heap r) = None" "\<not> is_null (fresh_heap r)"
  "block_id (fresh_heap (Blk i)) = int i"
  by (simp_all add: fresh_heap_def new_block_def)

text \<open>The setter of \<open>block_hash\<close> asserts that no hash is set; \<open>reset_hash\<close> clears it.\<close>

definition set_block_hash :: "ref \<Rightarrow> bytes \<Rightarrow> heap \<Rightarrow> py_exn + heap" where
  "set_block_hash b k h =
     (if block_hash (h b) \<noteq> None then Inl (AssertionError ''The block already has a hash'')
      else Inr (h(b := (h b)\<lparr> block_hash := Some k \<rparr>)))"

definition reset_hash :: "ref \<Rightarrow> heap \<Rightarrow> heap" where
  "reset_hash b h = h(b := (h b)\<lparr> block_hash := None \<rparr>)"

definition set_next :: "ref \<Rightarrow> ref option \<Rightarrow> heap \<Rightarrow> heap" where
  "set_next b r h = h(b := (h b)\<lparr> next_free_block := r \<rparr>)"

definition set_prev :: "ref \<Rightarrow> ref option \<Rightarrow> heap \<Rightarrow> heap" where
  "set_prev b r h = h(b := (h b)\<lparr> prev_free_block := r \<rparr>)"

definition set_ref_cnt :: "ref \<Rightarrow> int \<Rightarrow> heap \<Rightarrow> heap" where
  "set_ref_cnt b n h = h(b := (h b)\<lparr> ref_cnt := n \<rparr>)"

end
