(* ===== verification/Free_Block_Queue.thy ===== *)
theory Free_Block_Queue
  imports KV_Block
begin

text \<open>
  The free list of KV-cache blocks (\<open>FreeKVCacheBlockQueue\<close> in
  \<open>vllm/v1/core/kv_cache_utils.py\<close>): an intrusive doubly linked list with a fake head and a
  fake tail, threaded through the blocks themselves.  The operations are translated with
  every pointer write in the order of the source, on an explicit store.  The theory proves
  that they implement a plain sequence of blocks.
\<close>

section \<open>The queue\<close>

record free_queue =
  fq_heap :: heap
  num_free_blocks :: int

text \<open>The constructor: consecutive blocks are linked, then the sentinels.\<close>

definition link_step :: "ref list \<Rightarrow> nat \<Rightarrow> heap \<Rightarrow> heap" where
  "link_step blocks i h =
     (let h1 = (if i > 0 then set_prev (blocks ! i) (Some (blocks ! (i - 1))) h else h)
      in if i < length blocks - 1 then set_next (blocks ! i) (Some (blocks ! (i + 1))) h1 else h1)"

definition init_queue :: "ref list \<Rightarrow> heap \<Rightarrow> free_queue" where
  "init_queue blocks h0 =
     (let h1 = fold (link_step blocks) [0..<length blocks] h0;
          h2 = h1(FakeHead := new_block (-1), FakeTail := new_block (-1));
          h3 = (if blocks \<noteq> []
                then set_next (last blocks) (Some FakeTail)
                       (set_prev FakeTail (Some (last blocks))
                         (set_prev (hd blocks) (Some FakeHead)
                           (set_next FakeHead (Some (hd blocks)) h2)))
                else set_prev FakeTail (Some FakeHead) (set_next FakeHead (Some FakeTail) h2))
      in \<lparr> fq_heap = h3, num_free_blocks = int (length blocks) \<rparr>)"

definition popleft :: "free_queue \<Rightarrow> py_exn + (ref \<times> free_queue)" where
  "popleft q =
     (let h = fq_heap q; first = next_free_block (h FakeHead)
      in if first = Some FakeTail \<or> first = None then
           bindE (raise_if (num_free_blocks q \<noteq> 0)
             (AssertionError ''num_free_blocks is out of sync with the free list'')) (\<lambda>_.
           Inl (ValueError ''No free blocks available''))
         else
           (let first_block = the first
            in case next_free_block (h first_block) of
                 None \<Rightarrow> Inl (RuntimeError ''Invalid block found in popleft()'')
               | Some nxt \<Rightarrow>
                   (let h1 = set_next FakeHead (Some nxt) h;
                        h2 = set_prev nxt (Some FakeHead) h1;
                        h3 = set_prev first_block None (set_next first_block None h2)
                    in Inr (first_block,
                            \<lparr> fq_heap = h3, num_free_blocks = num_free_blocks q - 1 \<rparr>))))"

text \<open>The loop of \<open>popleft_n\<close>: \<open>(curr_block, heap, ret)\<close>.\<close>

fun popleft_loop ::
  "nat \<Rightarrow> ref option \<Rightarrow> heap \<Rightarrow> ref list \<Rightarrow> py_exn + (ref option \<times> heap \<times> ref list)" where
  "popleft_loop 0 cur h ret = Inr (cur, h, ret)"
| "popleft_loop (Suc n) cur h ret =
     (case cur of
        None \<Rightarrow> Inl (AssertionError [])
      | Some c \<Rightarrow>
          popleft_loop n (next_free_block (h c)) (set_next c None (set_prev c None h)) (ret @ [c]))"

definition popleft_n :: "nat \<Rightarrow> free_queue \<Rightarrow> py_exn + (ref list \<times> free_queue)" where
  "popleft_n n q =
     (if n = 0 then Inr ([], q)
      else
        bindE (raise_if (num_free_blocks q < int n) (AssertionError [])) (\<lambda>_.
        bindE (popleft_loop n (next_free_block (fq_heap q FakeHead)) (fq_heap q) [])
          (\<lambda>(cur, h, ret).
        Inr (ret,
             \<lparr> fq_heap = (case cur of
                            None \<Rightarrow> h
                          | Some c \<Rightarrow> set_prev c (Some FakeHead) (set_next FakeHead (Some c) h)),
                num_free_blocks = num_free_blocks q - int n \<rparr>))))"

definition remove_block :: "ref \<Rightarrow> free_queue \<Rightarrow> py_exn + free_queue" where
  "remove_block b q =
     (let h = fq_heap q
      in case (prev_free_block (h b), next_free_block (h b)) of
           (Some p, Some n) \<Rightarrow>
             (let h1 = set_next p (Some n) h;
                  h2 = set_prev n (Some p) h1;
                  h3 = set_prev b None (set_next b None h2)
              in Inr \<lparr> fq_heap = h3, num_free_blocks = num_free_blocks q - 1 \<rparr>)
         | _ \<Rightarrow> Inl (RuntimeError ''remove() called on an invalid block''))"

definition append_block :: "ref \<Rightarrow> free_queue \<Rightarrow> py_exn + free_queue" where
  "append_block b q =
     (case prev_free_block (fq_heap q FakeTail) of
        None \<Rightarrow> Inl (RuntimeError ''prev_free_block of fake_free_list_tail should always exist'')
      | Some l \<Rightarrow>
          (let h1 = set_next l (Some b) (fq_heap q);
               h2 = set_prev b (Some l) h1;
               h3 = set_next b (Some FakeTail) h2;
               h4 = set_prev FakeTail (Some b) h3
           in Inr \<lparr> fq_heap = h4, num_free_blocks = num_free_blocks q + 1 \<rparr>))"

text \<open>The loop of \<open>append_n\<close>: \<open>(last_block, heap)\<close>.\<close>

definition append_step :: "ref \<Rightarrow> ref \<times> heap \<Rightarrow> ref \<times> heap" where
  "append_step b st =
     (case st of (l, h) \<Rightarrow> (b, set_next l (Some b) (set_prev b (Some l) h)))"

definition append_n :: "ref list \<Rightarrow> free_queue \<Rightarrow> py_exn + free_queue" where
  "append_n bs q =
     (if bs = [] then Inr q
      else
        (case prev_free_block (fq_heap q FakeTail) of
           None \<Rightarrow> Inl (AssertionError ''prev_free_block of fake_free_list_tail should always exist'')
         | Some l0 \<Rightarrow>
             (case fold append_step bs (l0, fq_heap q) of
                (l, h) \<Rightarrow>
                  Inr \<lparr> fq_heap = set_prev FakeTail (Some l) (set_next l (Some FakeTail) h),
                         num_free_blocks = num_free_blocks q + int (length bs) \<rparr>)))"

text \<open>The walk of \<open>get_all_free_blocks\<close>, which on a cyclic list would not return.\<close>

partial_function (option) walk :: "heap \<Rightarrow> ref \<Rightarrow> ref list \<Rightarrow> ref list option" where
  "walk h cur ret =
     (case next_free_block (h cur) of
        None \<Rightarrow> Some ret
      | Some nxt \<Rightarrow> walk h nxt (ret @ [cur]))"

definition get_all_free_blocks :: "free_queue \<Rightarrow> (py_exn + ref list) option" where
  "get_all_free_blocks q =
     (case next_free_block (fq_heap q FakeHead) of
        None \<Rightarrow> Some (Inl (RuntimeError ''next_free_block of fake_free_list_head should always exist''))
      | Some c \<Rightarrow> map_option Inr (walk (fq_heap q) c []))"

section \<open>Chains\<close>

text \<open>\<open>chain h a xs\<close>: from \<open>a\<close> on, the next pointers run through \<open>xs\<close> and the previous
  pointers run back.\<close>

fun chain :: "heap \<Rightarrow> ref \<Rightarrow> ref list \<Rightarrow> bool" where
  "chain h a [] \<longleftrightarrow> True"
| "chain h a (b # bs) \<longleftrightarrow>
     next_free_block (h a) = Some b \<and> prev_free_block (h b) = Some a \<and> chain h b bs"

lemma chain_append: "chain h a (xs @ b # ys) \<longleftrightarrow> chain h a (xs @ [b]) \<and> chain h b ys"
  by (induction xs arbitrary: a) auto

lemma chain_cong:
  assumes "chain h a xs"
    and "\<And>r. r \<in> set (butlast (a # xs)) \<Longrightarrow> next_free_block (h' r) = next_free_block (h r)"
    and "\<And>r. r \<in> set xs \<Longrightarrow> prev_free_block (h' r) = prev_free_block (h r)"
  shows "chain h' a xs"
  using assms by (induction h a xs rule: chain.induct) auto

text \<open>Reads after writes.\<close>

lemma next_simps [simp]:
  "next_free_block (set_next b r h c) = (if c = b then r else next_free_block (h c))"
  "next_free_block (set_prev b r h c) = next_free_block (h c)"
  by (simp_all add: set_next_def set_prev_def)

lemma prev_simps [simp]:
  "prev_free_block (set_prev b r h c) = (if c = b then r else prev_free_block (h c))"
  "prev_free_block (set_next b r h c) = prev_free_block (h c)"
  by (simp_all add: set_next_def set_prev_def)

text \<open>Fields other than the links are left alone by the queue.\<close>

definition same_data :: "heap \<Rightarrow> heap \<Rightarrow> bool" where
  "same_data h h' \<longleftrightarrow>
     (\<forall>r. block_id (h' r) = block_id (h r) \<and> ref_cnt (h' r) = ref_cnt (h r)
        \<and> block_hash (h' r) = block_hash (h r) \<and> is_null (h' r) = is_null (h r))"

lemma same_data_refl [simp]: "same_data h h"
  by (simp add: same_data_def)

lemma same_data_sym: "same_data h h' \<Longrightarrow> same_data h' h"
  by (simp add: same_data_def)

lemma same_data_trans: "same_data h h' \<Longrightarrow> same_data h' h'' \<Longrightarrow> same_data h h''"
  by (simp add: same_data_def)

lemma same_data_set [simp]:
  "same_data h (set_next b r h') \<longleftrightarrow> same_data h h'"
  "same_data h (set_prev b r h') \<longleftrightarrow> same_data h h'"
  by (auto simp: same_data_def set_next_def set_prev_def)

section \<open>The abstract queue\<close>

text \<open>\<open>queue_repr q xs\<close>: the queue \<open>q\<close> holds exactly the blocks \<open>xs\<close>, in order; every other block
  has no links.\<close>

definition queue_repr :: "free_queue \<Rightarrow> ref list \<Rightarrow> bool" where
  "queue_repr q xs \<longleftrightarrow>
     chain (fq_heap q) FakeHead (xs @ [FakeTail])
     \<and> next_free_block (fq_heap q FakeTail) = None \<and> prev_free_block (fq_heap q FakeHead) = None
     \<and> distinct xs \<and> FakeHead \<notin> set xs \<and> FakeTail \<notin> set xs
     \<and> (\<forall>b. b \<notin> set xs \<longrightarrow> b \<noteq> FakeHead \<longrightarrow> b \<noteq> FakeTail \<longrightarrow>
          prev_free_block (fq_heap q b) = None \<and> next_free_block (fq_heap q b) = None)
     \<and> num_free_blocks q = int (length xs)"

lemma queue_reprD:
  assumes "queue_repr q xs"
  shows "chain (fq_heap q) FakeHead (xs @ [FakeTail])" "next_free_block (fq_heap q FakeTail) = None"
    "distinct xs" "FakeHead \<notin> set xs" "FakeTail \<notin> set xs" "num_free_blocks q = int (length xs)"
    "b \<notin> set xs \<Longrightarrow> b \<noteq> FakeHead \<Longrightarrow> b \<noteq> FakeTail \<Longrightarrow>
       prev_free_block (fq_heap q b) = None \<and> next_free_block (fq_heap q b) = None"
    "prev_free_block (fq_heap q FakeHead) = None"
  using assms by (auto simp: queue_repr_def)

lemma popleft_Cons:
  assumes "queue_repr q (x # xs)"
  shows "\<exists>q'. popleft q = Inr (x, q') \<and> queue_repr q' xs \<and> same_data (fq_heap q) (fq_heap q')"
proof -
  let ?h = "fq_heap q"
  note r = queue_reprD [OF assms]
  obtain n ns where n: "xs @ [FakeTail] = n # ns" by (cases xs) auto
  have x: "next_free_block (?h FakeHead) = Some x" "prev_free_block (?h x) = Some FakeHead"
    "next_free_block (?h x) = Some n" "chain ?h n ns" "x \<noteq> FakeTail" "x \<noteq> FakeHead"
    using r(1,4,5) n by auto
  let ?h' = "set_prev x None (set_next x None (set_prev n (Some FakeHead) (set_next FakeHead (Some n) ?h)))"
  have pop: "popleft q = Inr (x, \<lparr> fq_heap = ?h', num_free_blocks = num_free_blocks q - 1 \<rparr>)"
    using x by (simp add: popleft_def Let_def)
  have xn: "x \<notin> set (n # ns)" "FakeHead \<notin> set (n # ns)" using r(3-5) n [symmetric] by auto
  have dn: "n \<notin> set ns" using r(3,5) n by (cases xs) auto
  have "chain ?h' n ns"
    using x(4)
  proof (rule chain_cong)
    show "next_free_block (?h' r) = next_free_block (?h r)" if "r \<in> set (butlast (n # ns))" for r
      using that xn by (auto dest: in_set_butlastD split: if_splits)
    show "prev_free_block (?h' r) = prev_free_block (?h r)" if "r \<in> set ns" for r
      using that xn dn by auto
  qed
  then have "chain ?h' FakeHead (xs @ [FakeTail])" using n xn x(6) by auto
  moreover have "next_free_block (?h' FakeTail) = None" using r(2) x(5) by simp
  moreover have "prev_free_block (?h' b) = None \<and> next_free_block (?h' b) = None"
    if "b \<notin> set xs" "b \<noteq> FakeHead" "b \<noteq> FakeTail" for b
  proof -
    have "b \<noteq> n" using that n by (metis in_set_conv_decomp_first list.set_intros(1) set_ConsD set_append Un_iff empty_iff list.set(1))
    then show ?thesis using r(7) [of b] that by auto
  qed
  moreover have "prev_free_block (?h' FakeHead) = None" using r(8) xn by simp
  ultimately show ?thesis
    using pop r(3-6) by (auto simp: queue_repr_def)
qed

lemma popleft_Nil:
  "queue_repr q [] \<Longrightarrow> popleft q = Inl (ValueError ''No free blocks available'')"
  by (auto simp: queue_repr_def popleft_def Let_def raise_if_def)

text \<open>Popping several blocks at once.\<close>

abbreviation clear_links :: "ref \<Rightarrow> heap \<Rightarrow> heap" where
  "clear_links c h \<equiv> set_next c None (set_prev c None h)"

lemma fold_clear_links [simp]:
  "next_free_block (fold clear_links bs h r) = (if r \<in> set bs then None else next_free_block (h r))"
  "prev_free_block (fold clear_links bs h r) = (if r \<in> set bs then None else prev_free_block (h r))"
  "same_data h0 (fold clear_links bs h) \<longleftrightarrow> same_data h0 h"
  by (induction bs arbitrary: h) auto

lemma popleft_loop_chain:
  "chain h z ys \<Longrightarrow> distinct (z # ys) \<Longrightarrow> n \<le> length ys \<Longrightarrow>
     popleft_loop n (Some z) h ret
     = Inr (Some ((z # ys) ! n), fold clear_links (take n (z # ys)) h, ret @ take n (z # ys))"
proof (induction n arbitrary: z ys h ret)
  case (Suc n)
  then obtain y ys' where ys: "ys = y # ys'" by (cases ys) auto
  have "chain (clear_links z h) y ys'"
    by (rule chain_cong [of h]) (use Suc.prems ys in \<open>auto dest: in_set_butlastD split: if_splits\<close>)
  then show ?case using Suc.IH [of "clear_links z h" y ys'] Suc.prems ys by simp
qed simp

lemma popleft_n_repr:
  assumes "queue_repr q xs" and "n \<le> length xs"
  shows "\<exists>q'. popleft_n n q = Inr (take n xs, q') \<and> queue_repr q' (drop n xs)
    \<and> same_data (fq_heap q) (fq_heap q')"
proof (cases "n = 0")
  case True
  then show ?thesis using assms by (simp add: popleft_n_def)
next
  case False
  let ?h = "fq_heap q"
  note r = queue_reprD [OF assms(1)]
  let ?L = "xs @ [FakeTail]"
  obtain z ys where z: "?L = z # ys" by (cases xs) auto
  obtain c cs where c: "drop n xs @ [FakeTail] = c # cs" by (cases "drop n xs") auto
  have L: "?L = take n xs @ c # cs" using c by (metis append_assoc append_take_drop_id)
  have dL: "distinct ?L" "FakeHead \<notin> set ?L" using r(3-5) by auto
  have nth: "(z # ys) ! n = c" unfolding z [symmetric] L using assms(2) by (simp add: nth_append)
  have tk: "take n (z # ys) = take n xs" using assms(2) unfolding z [symmetric] by simp
  have ch: "chain ?h z ys" "next_free_block (?h FakeHead) = Some z" using r(1) z by auto
  have len: "n \<le> length ys" using assms(2) arg_cong [OF z, of length] by simp
  let ?h' = "set_prev c (Some FakeHead) (set_next FakeHead (Some c) (fold clear_links (take n xs) ?h))"
  have pop: "popleft_n n q = Inr (take n xs, \<lparr> fq_heap = ?h', num_free_blocks = num_free_blocks q - int n \<rparr>)"
    using False assms(2) r(6) ch popleft_loop_chain [OF ch(1) dL(1) [unfolded z] len, of "[]"] nth tk
    by (simp add: popleft_n_def raise_if_def)
  have dis: "set (take n xs) \<inter> set (c # cs) = {}" "c \<notin> set cs" "FakeHead \<notin> set (c # cs)" "FakeHead \<notin> set (take n xs)"
    using dL unfolding L by auto
  have "chain ?h c cs" using r(1) chain_append [of ?h FakeHead "take n xs" c cs] unfolding L by blast
  then have "chain ?h' c cs"
  proof (rule chain_cong)
    show "next_free_block (?h' r) = next_free_block (?h r)" if "r \<in> set (butlast (c # cs))" for r
      using in_set_butlastD [OF that] dis by auto
    show "prev_free_block (?h' r) = prev_free_block (?h r)" if "r \<in> set cs" for r
      using that dis by auto
  qed
  then have "chain ?h' FakeHead (drop n xs @ [FakeTail])" using c dis by simp
  moreover have "next_free_block (?h' FakeTail) = None" using r(2) by simp
  moreover have "prev_free_block (?h' b) = None \<and> next_free_block (?h' b) = None"
    if b: "b \<notin> set (drop n xs)" "b \<noteq> FakeHead" "b \<noteq> FakeTail" for b
  proof -
    have "c \<in> set (drop n xs @ [FakeTail])" unfolding c by simp
    then have "b \<noteq> c" using b by auto
    moreover have "b \<in> set (take n xs) \<or> b \<notin> set xs" using b(1) by (metis UnE append_take_drop_id set_append)
    ultimately show ?thesis using r(7) [of b] b by auto
  qed
  moreover have "prev_free_block (?h' FakeHead) = None" using r(8) dis by simp
  ultimately show ?thesis
    using pop r(3-6) assms(2) by (auto simp: queue_repr_def dest: in_set_dropD)
qed

lemma popleft_n_short:
  assumes "queue_repr q xs" and "length xs < n"
  shows "popleft_n n q = Inl (AssertionError [])"
  using assms queue_reprD(6) [OF assms(1)] by (simp add: popleft_n_def raise_if_def)

text \<open>Removing a block from the middle.\<close>

lemma chain_snoc:
  "chain h a (xs @ [b]) \<longleftrightarrow>
     chain h a xs \<and> next_free_block (h (last (a # xs))) = Some b \<and> prev_free_block (h b) = Some (last (a # xs))"
  by (induction xs arbitrary: a) auto

lemma remove_block_repr:
  assumes "queue_repr q (xs @ b # ys)"
  shows "\<exists>q'. remove_block b q = Inr q' \<and> queue_repr q' (xs @ ys) \<and> same_data (fq_heap q) (fq_heap q')"
proof -
  let ?h = "fq_heap q" and ?p = "last (FakeHead # xs)"
  note r = queue_reprD [OF assms]
  obtain n ns where n: "ys @ [FakeTail] = n # ns" by (cases ys) auto
  have ch: "chain ?h FakeHead (xs @ b # n # ns)" using r(1) n by simp
  then have "chain ?h FakeHead (xs @ [b])" and b: "chain ?h b (n # ns)"
    using chain_append [of ?h FakeHead xs b "n # ns"] by blast+
  then have p: "chain ?h FakeHead xs" "next_free_block (?h ?p) = Some b" "prev_free_block (?h b) = Some ?p"
    using chain_snoc [of ?h FakeHead xs b] by blast+
  have "distinct (xs @ b # n # ns)" "FakeHead \<notin> set (xs @ b # n # ns)" using r(3-5) n [symmetric] by auto
  moreover have "?p \<in> insert FakeHead (set xs)" by (cases xs) auto
  ultimately have dis: "b \<notin> set xs" "n \<notin> set xs" "b \<noteq> n" "b \<notin> set ns" "n \<notin> set ns" "?p \<noteq> b" "?p \<noteq> n"
    "?p \<notin> set ns" "set xs \<inter> set ns = {}" "FakeHead \<noteq> b" "FakeHead \<noteq> n" "FakeHead \<notin> set ns" "distinct xs"
    by auto
  have lastp: "r \<noteq> ?p" if "r \<in> set (butlast (FakeHead # xs))" for r
    using that \<open>distinct xs\<close> r(4) by (cases xs rule: rev_cases) (auto dest: in_set_butlastD)
  let ?h' = "set_prev b None (set_next b None (set_prev n (Some ?p) (set_next ?p (Some n) ?h)))"
  have rem: "remove_block b q = Inr \<lparr> fq_heap = ?h', num_free_blocks = num_free_blocks q - 1 \<rparr>"
    using p b by (simp add: remove_block_def Let_def)
  have "chain ?h' FakeHead xs"
    using p(1)
  proof (rule chain_cong)
    show "next_free_block (?h' r) = next_free_block (?h r)" if "r \<in> set (butlast (FakeHead # xs))" for r
      using lastp [OF that] in_set_butlastD [OF that] dis by auto
    show "prev_free_block (?h' r) = prev_free_block (?h r)" if "r \<in> set xs" for r
      using that dis by auto
  qed
  moreover have "chain ?h' n ns"
  proof (rule chain_cong [of ?h])
    show "chain ?h n ns" using b by simp
    show "next_free_block (?h' r) = next_free_block (?h r)" if "r \<in> set (butlast (n # ns))" for r
      using in_set_butlastD [OF that] dis by auto
    show "prev_free_block (?h' r) = prev_free_block (?h r)" if "r \<in> set ns" for r
      using that dis by auto
  qed
  ultimately have "chain ?h' FakeHead (xs @ n # ns)"
    using chain_append [of ?h' FakeHead xs n ns] chain_snoc [of ?h' FakeHead xs n] dis by simp
  then have "chain ?h' FakeHead ((xs @ ys) @ [FakeTail])" using n by simp
  moreover have "next_free_block (?h' FakeTail) = None"
  proof -
    have "FakeTail \<in> set (n # ns)" using n [symmetric] by simp
    then have "?p \<noteq> FakeTail" using dis by auto
    then show ?thesis using r(2) by simp
  qed
  moreover have "prev_free_block (?h' c) = None \<and> next_free_block (?h' c) = None"
    if c: "c \<notin> set (xs @ ys)" "c \<noteq> FakeHead" "c \<noteq> FakeTail" for c
  proof -
    have "n \<in> set (ys @ [FakeTail])" unfolding n by simp
    then have "c \<noteq> n" using c by auto
    moreover have "c \<noteq> ?p" using c by (cases xs rule: rev_cases) auto
    ultimately show ?thesis using r(7) [of c] c by auto
  qed
  moreover have "prev_free_block (?h' FakeHead) = None" using r(8) dis by simp
  ultimately show ?thesis
    using rem r(3-6) by (auto simp: queue_repr_def)
qed

lemma remove_block_absent:
  assumes "queue_repr q xs" and "b \<notin> set xs" and "b \<noteq> FakeHead" and "b \<noteq> FakeTail"
  shows "remove_block b q = Inl (RuntimeError ''remove() called on an invalid block'')"
  using queue_reprD(7) [OF assms] by (simp add: remove_block_def Let_def)

text \<open>Appending: a chain without its tail, extended block by block and closed at the end.\<close>

definition open_chain :: "heap \<Rightarrow> ref list \<Rightarrow> bool" where
  "open_chain h xs \<longleftrightarrow>
     chain h FakeHead xs \<and> next_free_block (h FakeTail) = None \<and> prev_free_block (h FakeHead) = None
     \<and> distinct xs \<and> FakeHead \<notin> set xs \<and> FakeTail \<notin> set xs
     \<and> (\<forall>b. b \<notin> set xs \<longrightarrow> b \<noteq> FakeHead \<longrightarrow> b \<noteq> FakeTail \<longrightarrow>
          prev_free_block (h b) = None \<and> next_free_block (h b) = None)"

lemma queue_repr_open:
  assumes "queue_repr q xs"
  shows "open_chain (fq_heap q) xs" "prev_free_block (fq_heap q FakeTail) = Some (last (FakeHead # xs))"
  using queue_reprD [OF assms] chain_snoc [of "fq_heap q" FakeHead xs FakeTail]
  by (auto simp: open_chain_def)

lemma open_chain_extend:
  assumes "open_chain h xs" and "b \<notin> set xs" and "b \<noteq> FakeHead" and "b \<noteq> FakeTail"
  shows "open_chain (set_next (last (FakeHead # xs)) (Some b) (set_prev b (Some (last (FakeHead # xs))) h)) (xs @ [b])"
proof -
  let ?l = "last (FakeHead # xs)"
  let ?h' = "set_next ?l (Some b) (set_prev b (Some ?l) h)"
  have l: "?l = FakeHead \<or> ?l \<in> set xs" by (cases xs) auto
  have lastl: "r \<noteq> ?l" if "r \<in> set (butlast (FakeHead # xs))" for r
    using that assms(1) unfolding open_chain_def
    by (cases xs rule: rev_cases) (auto dest: in_set_butlastD)
  have "chain ?h' FakeHead xs"
    by (rule chain_cong [of h]) (use assms(1,2) lastl in \<open>auto simp: open_chain_def\<close>)
  then show ?thesis
    using assms l chain_snoc [of ?h' FakeHead xs b] by (auto simp: open_chain_def)
qed

lemma open_chain_close:
  assumes "open_chain h xs"
  shows "queue_repr \<lparr> fq_heap = set_prev FakeTail (Some (last (FakeHead # xs)))
      (set_next (last (FakeHead # xs)) (Some FakeTail) h), num_free_blocks = int (length xs) \<rparr> xs"
proof -
  let ?l = "last (FakeHead # xs)"
  let ?h' = "set_prev FakeTail (Some ?l) (set_next ?l (Some FakeTail) h)"
  have l: "?l = FakeHead \<or> ?l \<in> set xs" by (cases xs) auto
  have lastl: "r \<noteq> ?l" if "r \<in> set (butlast (FakeHead # xs))" for r
    using that assms unfolding open_chain_def by (cases xs rule: rev_cases) (auto dest: in_set_butlastD)
  have "chain ?h' FakeHead xs"
    by (rule chain_cong [of h]) (use assms lastl in \<open>auto simp: open_chain_def\<close>)
  then show ?thesis
    using assms l chain_snoc [of ?h' FakeHead xs FakeTail] by (auto simp: open_chain_def queue_repr_def)
qed

lemma append_block_repr:
  assumes "queue_repr q xs" and "b \<notin> set xs" and "b \<noteq> FakeHead" and "b \<noteq> FakeTail"
  shows "\<exists>q'. append_block b q = Inr q' \<and> queue_repr q' (xs @ [b]) \<and> same_data (fq_heap q) (fq_heap q')"
proof -
  let ?l = "last (FakeHead # xs)"
  note o = queue_repr_open [OF assms(1)]
  have l: "?l \<noteq> b" using assms(2,3) by (cases xs rule: rev_cases) auto
  let ?h4 = "set_prev FakeTail (Some b) (set_next b (Some FakeTail) (set_prev b (Some ?l) (set_next ?l (Some b) (fq_heap q))))"
  have ap: "append_block b q = Inr \<lparr> fq_heap = ?h4, num_free_blocks = num_free_blocks q + 1 \<rparr>"
    using o(2) by (simp add: append_block_def Let_def)
  have "set_prev b (Some ?l) (set_next ?l (Some b) (fq_heap q))
      = set_next ?l (Some b) (set_prev b (Some ?l) (fq_heap q))"
    using l by (auto simp: set_next_def set_prev_def fun_upd_twist)
  then have "queue_repr \<lparr> fq_heap = ?h4, num_free_blocks = int (length (xs @ [b])) \<rparr> (xs @ [b])"
    using open_chain_close [OF open_chain_extend [OF o(1) assms(2-4)]] by simp
  then show ?thesis using ap queue_reprD(6) [OF assms(1)] by (simp add: add.commute)
qed

lemma fold_append_step:
  assumes "open_chain h xs" and "distinct bs" and "set bs \<inter> set xs = {}"
    and "FakeHead \<notin> set bs" and "FakeTail \<notin> set bs"
  shows "\<exists>h'. fold append_step bs (last (FakeHead # xs), h) = (last (FakeHead # xs @ bs), h')
    \<and> open_chain h' (xs @ bs) \<and> same_data h h'"
  using assms
proof (induction bs arbitrary: xs h)
  case (Cons b bs)
  let ?l = "last (FakeHead # xs)"
  let ?h = "set_next ?l (Some b) (set_prev b (Some ?l) h)"
  have "open_chain ?h (xs @ [b])" using Cons.prems by (intro open_chain_extend) auto
  then obtain h' where h': "fold append_step bs (last (FakeHead # xs @ [b]), ?h) = (last (FakeHead # (xs @ [b]) @ bs), h')"
    "open_chain h' ((xs @ [b]) @ bs)" "same_data ?h h'"
    using Cons.IH [of ?h "xs @ [b]"] Cons.prems by auto
  have "append_step b (?l, h) = (b, ?h)" by (simp add: append_step_def)
  moreover have "same_data h h'" by (rule same_data_trans [OF _ h'(3)]) simp
  ultimately show ?case using h'(1,2) by auto
qed simp

lemma append_n_repr:
  assumes "queue_repr q xs" and "distinct bs" and "set bs \<inter> set xs = {}"
    and "FakeHead \<notin> set bs" and "FakeTail \<notin> set bs"
  shows "\<exists>q'. append_n bs q = Inr q' \<and> queue_repr q' (xs @ bs) \<and> same_data (fq_heap q) (fq_heap q')"
proof (cases "bs = []")
  case False
  note o = queue_repr_open [OF assms(1)]
  obtain h' where h': "fold append_step bs (last (FakeHead # xs), fq_heap q) = (last (FakeHead # xs @ bs), h')"
    "open_chain h' (xs @ bs)" "same_data (fq_heap q) h'"
    using fold_append_step [OF o(1) assms(2-5)] by blast
  then show ?thesis
    using False o(2) open_chain_close [OF h'(2)] queue_reprD(6) [OF assms(1)]
    by (simp add: append_n_def)
qed (use assms in \<open>simp add: append_n_def\<close>)

text \<open>The walk returns, and returns the represented blocks.\<close>

lemma walk_chain:
  "chain h z ys \<Longrightarrow> next_free_block (h (last (z # ys))) = None \<Longrightarrow> walk h z ret = Some (ret @ butlast (z # ys))"
proof (induction ys arbitrary: z ret)
  case (Cons y ys)
  then show ?case by (subst walk.simps) auto
qed (simp add: walk.simps)

lemma get_all_repr:
  assumes "queue_repr q xs"
  shows "get_all_free_blocks q = Some (Inr xs)"
proof -
  note r = queue_reprD [OF assms]
  obtain z ys where z: "xs @ [FakeTail] = z # ys" by (cases xs) auto
  have "last (z # ys) = FakeTail" "butlast (z # ys) = xs" by (simp_all flip: z)
  then show ?thesis using r(1,2) walk_chain [of "fq_heap q" z ys "[]"] z by (simp add: get_all_free_blocks_def)
qed

text \<open>The constructor.\<close>

lemma chain_nth:
  "chain h a xs \<longleftrightarrow> (\<forall>i < length xs. next_free_block (h ((a # xs) ! i)) = Some (xs ! i)
     \<and> prev_free_block (h (xs ! i)) = Some ((a # xs) ! i))"
  by (induction xs arbitrary: a) (auto simp: All_less_Suc2 nth_Cons split: nat.splits)

lemma link_step_simps [simp]:
  "next_free_block (link_step bs i h r)
     = (if r = bs ! i \<and> i < length bs - 1 then Some (bs ! (i + 1)) else next_free_block (h r))"
  "prev_free_block (link_step bs i h r)
     = (if r = bs ! i \<and> 0 < i then Some (bs ! (i - 1)) else prev_free_block (h r))"
  "same_data h0 (link_step bs i h) \<longleftrightarrow> same_data h0 h"
  by (auto simp: link_step_def Let_def)

lemma fold_link_data: "same_data h0 (fold (link_step bs) is h) \<longleftrightarrow> same_data h0 h"
  by (induction "is" arbitrary: h) auto

lemma link_fold:
  assumes "distinct bs" and "k \<le> length bs" and "h = fold (link_step bs) [0..<k] h0"
  shows "(\<forall>i < k. 0 < i \<longrightarrow> prev_free_block (h (bs ! i)) = Some (bs ! (i - 1)))
      \<and> (\<forall>i < k. i < length bs - 1 \<longrightarrow> next_free_block (h (bs ! i)) = Some (bs ! (i + 1)))
      \<and> (\<forall>r. r \<notin> set bs \<longrightarrow> next_free_block (h r) = next_free_block (h0 r)
            \<and> prev_free_block (h r) = prev_free_block (h0 r))"
  using assms(2,3)
proof (induction k arbitrary: h)
  case (Suc k)
  have neq: "bs ! i \<noteq> bs ! k" if "i < k" for i
    using that Suc.prems(1) assms(1) by (simp add: nth_eq_iff_index_eq)
  have mem: "bs ! k \<in> set bs" using Suc.prems by simp
  define h1 where "h1 = fold (link_step bs) [0..<k] h0"
  have h: "h = link_step bs k h1" using Suc.prems(2) by (simp add: h1_def)
  have out: "r \<noteq> bs ! k" if "r \<notin> set bs" for r using mem that by blast
  have IH: "\<forall>i < k. 0 < i \<longrightarrow> prev_free_block (h1 (bs ! i)) = Some (bs ! (i - 1))"
    "\<forall>i < k. i < length bs - 1 \<longrightarrow> next_free_block (h1 (bs ! i)) = Some (bs ! (i + 1))"
    "\<forall>r. r \<notin> set bs \<longrightarrow> next_free_block (h1 r) = next_free_block (h0 r)
            \<and> prev_free_block (h1 r) = prev_free_block (h0 r)"
    using Suc.IH [OF _ h1_def] Suc.prems(1) by auto
  show ?case
    unfolding h link_step_simps using IH neq out by (auto simp: less_Suc_eq)
qed simp

lemma init_queue_repr:
  assumes "distinct bs" and "FakeHead \<notin> set bs" and "FakeTail \<notin> set bs"
    and "\<And>r. next_free_block (h0 r) = None \<and> prev_free_block (h0 r) = None"
  shows "queue_repr (init_queue bs h0) bs"
proof (cases "bs = []")
  case True
  then show ?thesis
    using assms(4) by (auto simp: init_queue_def queue_repr_def new_block_def Let_def)
next
  case False
  define h1 where "h1 = fold (link_step bs) [0..<length bs] h0"
  let ?h2 = "h1(FakeHead := new_block (-1), FakeTail := new_block (-1))"
  let ?h = "set_next (last bs) (Some FakeTail) (set_prev FakeTail (Some (last bs))
      (set_prev (hd bs) (Some FakeHead) (set_next FakeHead (Some (hd bs)) ?h2)))"
  have q: "init_queue bs h0 = \<lparr> fq_heap = ?h, num_free_blocks = int (length bs) \<rparr>"
    using False by (simp add: init_queue_def h1_def Let_def)
  note L = link_fold [OF assms(1) order_refl h1_def]
  have hd: "hd bs = bs ! 0" "last bs = bs ! (length bs - 1)" using False by (simp_all add: hd_conv_nth last_conv_nth)
  have nf: "bs ! i \<noteq> FakeHead" "bs ! i \<noteq> FakeTail" if "i < length bs" for i
    using assms(2,3) that nth_mem by metis+
  have inj: "bs ! i = bs ! j \<longleftrightarrow> i = j" if "i < length bs" "j < length bs" for i j
    using assms(1) that by (simp add: nth_eq_iff_index_eq)
  have "chain ?h FakeHead (bs @ [FakeTail])"
    unfolding chain_nth
  proof (intro allI impI)
    fix i
    assume i: "i < length (bs @ [FakeTail])"
    show "next_free_block (?h ((FakeHead # bs @ [FakeTail]) ! i)) = Some ((bs @ [FakeTail]) ! i)
        \<and> prev_free_block (?h ((bs @ [FakeTail]) ! i)) = Some ((FakeHead # bs @ [FakeTail]) ! i)"
    proof (cases i)
      case 0
      then show ?thesis
        using nf [of 0] nf [of "length bs - 1"] False unfolding hd by (simp add: nth_append)
    next
      case (Suc j)
      then have j: "j < length bs" using i by simp
      show ?thesis
      proof (cases "i < length bs")
        case True
        then have "prev_free_block (h1 (bs ! i)) = Some (bs ! j)" "next_free_block (h1 (bs ! j)) = Some (bs ! i)"
          using L Suc by auto
        moreover have ne: "bs ! j \<noteq> bs ! (length bs - 1)" "bs ! i \<noteq> bs ! 0"
          using inj [of j "length bs - 1"] inj [of i 0] True Suc \<open>bs \<noteq> []\<close> by auto
        ultimately show ?thesis
          using True Suc j nf [of i] nf [of j] ne unfolding hd
          by (simp add: nth_append)
      next
        case False
        then have "length bs = Suc j" using i Suc by simp
        then show ?thesis using Suc nf [of j] j unfolding hd by (simp add: nth_append)
      qed
    qed
  qed
  moreover have "next_free_block (?h r) = None \<and> prev_free_block (?h r) = None"
    if "r \<notin> set bs" "r \<noteq> FakeHead" "r \<noteq> FakeTail" for r
    using L assms(4) that False by auto
  moreover have "next_free_block (?h FakeTail) = None"
    using nf [of "length bs - 1"] False hd by (auto simp: new_block_def)
  moreover have "prev_free_block (?h FakeHead) = None"
    using nf [of 0] False hd by (auto simp: new_block_def)
  ultimately show ?thesis using assms q by (simp add: queue_repr_def)
qed

text \<open>The representation is canonical: the sequence fixes every link.\<close>

lemma chain_links:
  assumes "chain h a xs" and "chain h' a xs"
  shows "r \<in> set (butlast (a # xs)) \<Longrightarrow> next_free_block (h r) = next_free_block (h' r)"
    and "r \<in> set xs \<Longrightarrow> prev_free_block (h r) = prev_free_block (h' r)"
  using assms by (induction h a xs rule: chain.induct) (auto split: if_splits)

lemma queue_repr_unique:
  assumes "queue_repr q xs" and "queue_repr q' xs" and "same_data (fq_heap q) (fq_heap q')"
  shows "q = q'"
proof -
  note r = queue_reprD [OF assms(1)] and r' = queue_reprD [OF assms(2)]
  note links = chain_links [OF r(1) r'(1)]
  have "fq_heap q b = fq_heap q' b" for b
  proof -
    have "next_free_block (fq_heap q b) = next_free_block (fq_heap q' b)"
      using links(1) [of b] r(2) r'(2) r(7) [of b] r'(7) [of b]
      by (cases "b = FakeTail"; cases "b = FakeHead \<or> b \<in> set xs") (auto simp: butlast_append)
    moreover have "prev_free_block (fq_heap q b) = prev_free_block (fq_heap q' b)"
      using links(2) [of b] r(8) r'(8) r(7) [of b] r'(7) [of b]
      by (cases "b = FakeHead"; cases "b = FakeTail \<or> b \<in> set xs") auto
    ultimately show ?thesis using assms(3) by (simp add: same_data_def)
  qed
  then show ?thesis using r(6) r'(6) by (auto intro!: free_queue.equality)
qed

section \<open>The interface of the free list\<close>

text \<open>Popping one block at a time.\<close>

fun iter_pop :: "('q \<Rightarrow> 'e + ('a \<times> 'q)) \<Rightarrow> nat \<Rightarrow> 'q \<Rightarrow> 'e + ('a list \<times> 'q)" where
  "iter_pop pop 0 q = Inr ([], q)"
| "iter_pop pop (Suc n) q =
     bindE (pop q) (\<lambda>(x, q1). bindE (iter_pop pop n q1) (\<lambda>(xs, q2). Inr (x # xs, q2)))"

text \<open>What the block pool relies on: the operations act on the represented sequence, and leave
  the rest of the state alone (\<open>same\<close>).\<close>

locale free_list =
  fixes repr :: "'q \<Rightarrow> 'b list \<Rightarrow> bool"
    and same :: "'q \<Rightarrow> 'q \<Rightarrow> bool"
    and valid :: "'b \<Rightarrow> bool"
    and pop :: "'q \<Rightarrow> 'e + ('b \<times> 'q)"
    and pop_n :: "nat \<Rightarrow> 'q \<Rightarrow> 'e + ('b list \<times> 'q)"
    and rem :: "'b \<Rightarrow> 'q \<Rightarrow> 'e + 'q"
    and app :: "'b \<Rightarrow> 'q \<Rightarrow> 'e + 'q"
    and app_n :: "'b list \<Rightarrow> 'q \<Rightarrow> 'e + 'q"
  assumes same_refl: "same q q"
    and same_trans: "same q1 q2 \<Longrightarrow> same q2 q3 \<Longrightarrow> same q1 q3"
    and same_sym: "same q1 q2 \<Longrightarrow> same q2 q1"
    and repr_unique: "repr q xs \<Longrightarrow> repr q' xs \<Longrightarrow> same q q' \<Longrightarrow> q = q'"
    and repr_distinct: "repr q xs \<Longrightarrow> distinct xs \<and> (\<forall>b \<in> set xs. valid b)"
    and pop_law: "repr q (x # xs) \<Longrightarrow> \<exists>q'. pop q = Inr (x, q') \<and> repr q' xs \<and> same q q'"
    and pop_n_law: "repr q xs \<Longrightarrow> n \<le> length xs \<Longrightarrow>
          \<exists>q'. pop_n n q = Inr (take n xs, q') \<and> repr q' (drop n xs) \<and> same q q'"
    and rem_law: "repr q (xs @ b # ys) \<Longrightarrow> \<exists>q'. rem b q = Inr q' \<and> repr q' (xs @ ys) \<and> same q q'"
    and app_law: "repr q xs \<Longrightarrow> b \<notin> set xs \<Longrightarrow> valid b \<Longrightarrow>
          \<exists>q'. app b q = Inr q' \<and> repr q' (xs @ [b]) \<and> same q q'"
    and app_n_law: "repr q xs \<Longrightarrow> distinct bs \<Longrightarrow> set bs \<inter> set xs = {} \<Longrightarrow> \<forall>b \<in> set bs. valid b \<Longrightarrow>
          \<exists>q'. app_n bs q = Inr q' \<and> repr q' (xs @ bs) \<and> same q q'"
begin

lemma iter_pop_law:
  "repr q xs \<Longrightarrow> n \<le> length xs \<Longrightarrow>
     \<exists>q'. iter_pop pop n q = Inr (take n xs, q') \<and> repr q' (drop n xs) \<and> same q q'"
proof (induction n arbitrary: q xs)
  case (Suc n)
  then obtain x ys where xs: "xs = x # ys" by (cases xs) auto
  then obtain q1 where q1: "pop q = Inr (x, q1)" "repr q1 ys" "same q q1"
    using pop_law Suc.prems(1) by blast
  then obtain q2 where "iter_pop pop n q1 = Inr (take n ys, q2)" "repr q2 (drop n ys)" "same q1 q2"
    using Suc.IH [of q1 ys] Suc.prems(2) xs by auto
  then show ?case using q1 xs same_trans by auto
qed (auto intro: same_refl)

lemma pop_n_iterates:
  assumes "repr q xs" and "n \<le> length xs"
  shows "pop_n n q = iter_pop pop n q"
  using pop_n_law [OF assms] iter_pop_law [OF assms] repr_unique same_sym same_trans by metis

lemma iter_app_law:
  "repr q xs \<Longrightarrow> distinct bs \<Longrightarrow> set bs \<inter> set xs = {} \<Longrightarrow> \<forall>b \<in> set bs. valid b \<Longrightarrow>
     \<exists>q'. foldE app bs q = Inr q' \<and> repr q' (xs @ bs) \<and> same q q'"
proof (induction bs arbitrary: q xs)
  case (Cons b bs)
  then obtain q1 where q1: "app b q = Inr q1" "repr q1 (xs @ [b])" "same q q1"
    using app_law [of q xs b] by auto
  then obtain q2 where "foldE app bs q1 = Inr q2" "repr q2 ((xs @ [b]) @ bs)" "same q1 q2"
    using Cons.IH [of q1 "xs @ [b]"] Cons.prems by auto
  then show ?case using q1 same_trans by auto
qed (auto intro: same_refl)

lemma app_n_iterates:
  assumes "repr q xs" and "distinct bs" and "set bs \<inter> set xs = {}" and "\<forall>b \<in> set bs. valid b"
  shows "app_n bs q = foldE app bs q"
  using app_n_law [OF assms] iter_app_law [OF assms] repr_unique same_sym same_trans by metis

lemma refresh_law:
  assumes "repr q (xs @ b # ys)"
  shows "\<exists>q'. bindE (rem b q) (app b) = Inr q' \<and> repr q' (xs @ ys @ [b]) \<and> same q q'"
proof -
  have "b \<notin> set (xs @ ys)" "valid b" using repr_distinct [OF assms] by auto
  moreover obtain q1 where "rem b q = Inr q1" "repr q1 (xs @ ys)" "same q q1"
    using rem_law [OF assms] by blast
  ultimately show ?thesis using app_law [of q1 "xs @ ys" b] same_trans by auto
qed

end

abbreviation same_blocks :: "free_queue \<Rightarrow> free_queue \<Rightarrow> bool" where
  "same_blocks q q' \<equiv> same_data (fq_heap q) (fq_heap q')"

abbreviation real_block :: "ref \<Rightarrow> bool" where
  "real_block b \<equiv> b \<noteq> FakeHead \<and> b \<noteq> FakeTail"

interpretation fq: free_list queue_repr same_blocks real_block popleft popleft_n remove_block
  append_block append_n
proof (unfold_locales, goal_cases)
  case (5 q xs)
  then show ?case using queue_reprD(3-5) by blast
next
  case (10 q xs bs)
  then show ?case using append_n_repr [of q xs bs] by blast
qed (blast intro: same_data_refl same_data_sym same_data_trans queue_repr_unique popleft_Cons
    popleft_n_repr remove_block_repr append_block_repr)+

section \<open>Properties\<close>

lemma remove_block_mem:
  assumes "queue_repr q xs" and "b \<in> set xs"
  shows "\<exists>q'. remove_block b q = Inr q' \<and> queue_repr q' (remove1 b xs) \<and> same_blocks q q'"
proof -
  obtain ys zs where "xs = ys @ b # zs" "b \<notin> set ys" using assms(2) by (meson split_list_first)
  then show ?thesis using remove_block_repr [of q ys b zs] assms(1) by (simp add: remove1_append)
qed

text \<open>C12.  The linked free list implements a sequence of distinct blocks.  On a list that holds
  \<open>xs\<close>: \<open>popleft\<close> takes the first block and fails only when there is none; \<open>popleft_n\<close> takes the
  first \<open>n\<close> and fails exactly when there are fewer; \<open>remove\<close> deletes a block wherever it is, and
  refuses a block that is not in the list; \<open>append\<close> and \<open>append_n\<close> add blocks at the end.  No
  operation changes an attribute of a block other than its links.\<close>

theorem free_list_refines_sequence:
  assumes "queue_repr q xs"
  shows "(case xs of
            [] \<Rightarrow> popleft q = Inl (ValueError ''No free blocks available'')
          | x # ys \<Rightarrow> \<exists>q'. popleft q = Inr (x, q') \<and> queue_repr q' ys \<and> same_blocks q q')
    \<and> (if n \<le> length xs
       then \<exists>q'. popleft_n n q = Inr (take n xs, q') \<and> queue_repr q' (drop n xs) \<and> same_blocks q q'
       else popleft_n n q = Inl (AssertionError []))
    \<and> (real_block b \<longrightarrow>
         (if b \<in> set xs
          then \<exists>q'. remove_block b q = Inr q' \<and> queue_repr q' (remove1 b xs) \<and> same_blocks q q'
          else remove_block b q = Inl (RuntimeError ''remove() called on an invalid block'')
             \<and> (\<exists>q'. append_block b q = Inr q' \<and> queue_repr q' (xs @ [b]) \<and> same_blocks q q')))
    \<and> (distinct bs \<and> set bs \<inter> set xs = {} \<and> list_all real_block bs \<longrightarrow>
         (\<exists>q'. append_n bs q = Inr q' \<and> queue_repr q' (xs @ bs) \<and> same_blocks q q'))"
proof (intro conjI)
  show "case xs of
            [] \<Rightarrow> popleft q = Inl (ValueError ''No free blocks available'')
          | x # ys \<Rightarrow> \<exists>q'. popleft q = Inr (x, q') \<and> queue_repr q' ys \<and> same_blocks q q'"
    using assms popleft_Nil popleft_Cons by (cases xs) auto
  show "if n \<le> length xs
       then \<exists>q'. popleft_n n q = Inr (take n xs, q') \<and> queue_repr q' (drop n xs) \<and> same_blocks q q'
       else popleft_n n q = Inl (AssertionError [])"
    using popleft_n_repr [OF assms] popleft_n_short [OF assms] by simp
  show "real_block b \<longrightarrow>
         (if b \<in> set xs
          then \<exists>q'. remove_block b q = Inr q' \<and> queue_repr q' (remove1 b xs) \<and> same_blocks q q'
          else remove_block b q = Inl (RuntimeError ''remove() called on an invalid block'')
             \<and> (\<exists>q'. append_block b q = Inr q' \<and> queue_repr q' (xs @ [b]) \<and> same_blocks q q'))"
    using remove_block_mem [OF assms] remove_block_absent [OF assms] append_block_repr [OF assms] by simp
  show "distinct bs \<and> set bs \<inter> set xs = {} \<and> list_all real_block bs \<longrightarrow>
         (\<exists>q'. append_n bs q = Inr q' \<and> queue_repr q' (xs @ bs) \<and> same_blocks q q')"
    using fq.app_n_law [OF assms] by (simp add: list_all_iff)
qed

text \<open>C13.  The batched operations are the single ones iterated: \<open>popleft_n\<close> gives the result and
  the final state of \<open>n\<close> calls of \<open>popleft\<close>, and \<open>append_n\<close> the final state of appending the
  blocks one by one, link for link.\<close>

theorem batched_queue_operations:
  assumes "queue_repr q xs" and "n \<le> length xs"
    and "distinct bs" and "set bs \<inter> set xs = {}" and "list_all real_block bs"
  shows "popleft_n n q = iter_pop popleft n q \<and> append_n bs q = foldE append_block bs q"
  using fq.pop_n_iterates [OF assms(1,2)] fq.app_n_iterates [OF assms(1,3,4)] assms(5)
  by (simp add: list_all_iff)

text \<open>C14.  The walk over the free list returns, with exactly the blocks the list holds; on a
  list just constructed, the given blocks in their order.\<close>

theorem free_list_walk_returns:
  "(queue_repr q xs \<longrightarrow> get_all_free_blocks q = Some (Inr xs))
   \<and> (distinct bs \<and> list_all real_block bs \<longrightarrow>
        queue_repr (init_queue bs fresh_heap) bs
        \<and> get_all_free_blocks (init_queue bs fresh_heap) = Some (Inr bs))"
  using get_all_repr init_queue_repr [of bs fresh_heap] by (auto simp: list_all_iff)

text \<open>Three blocks: the list holds them, and the properties apply.\<close>

definition sample_queue :: free_queue where
  "sample_queue = init_queue [Blk 1, Blk 2, Blk 3] fresh_heap"

lemma sample_queue_repr: "queue_repr sample_queue [Blk 1, Blk 2, Blk 3]"
  unfolding sample_queue_def by (rule init_queue_repr) simp_all

theorem free_list_refines_sequence_witness:
  "(\<exists>q'. popleft_n 2 sample_queue = Inr ([Blk 1, Blk 2], q') \<and> queue_repr q' [Blk 3])
   \<and> popleft_n 4 sample_queue = Inl (AssertionError [])
   \<and> (\<exists>q'. remove_block (Blk 2) sample_queue = Inr q' \<and> queue_repr q' [Blk 1, Blk 3])
   \<and> (\<exists>q'. append_n [Blk 7] sample_queue = Inr q' \<and> queue_repr q' [Blk 1, Blk 2, Blk 3, Blk 7])"
  using free_list_refines_sequence [OF sample_queue_repr, of 2 "Blk 2" "[Blk 7]"]
    free_list_refines_sequence [OF sample_queue_repr, of 4 "Blk 2" "[Blk 7]"]
  by auto

theorem batched_queue_operations_witness:
  "popleft_n 2 sample_queue = iter_pop popleft 2 sample_queue
   \<and> append_n [Blk 0, Blk 7] sample_queue = foldE append_block [Blk 0, Blk 7] sample_queue"
  using batched_queue_operations [OF sample_queue_repr, of 2 "[Blk 0, Blk 7]"] by simp

theorem free_list_walk_returns_witness:
  "get_all_free_blocks sample_queue = Some (Inr [Blk 1, Blk 2, Blk 3])"
  using free_list_walk_returns [of sample_queue "[Blk 1, Blk 2, Blk 3]" "[]"] sample_queue_repr by blast

end
