(* ===== verification/Block_Map.thy ===== *)
theory Block_Map
  imports KV_Block "HOL-Library.AList"
begin

text \<open>
  The index of cached blocks (\<open>BlockHashToBlockMap\<close> in \<open>vllm/v1/core/block_pool.py\<close>): a hash key is
  mapped to one block or, when several blocks have the same content, to a dictionary of
  blocks by their number.  The theory proves that this union type implements a set of pairs of
  a key and a block, stated as the interface \<open>block_index\<close> that the block pool relies on.
\<close>

section \<open>Definitions\<close>

text \<open>A Python dictionary keeps insertion order: an association list.\<close>

datatype cached_blocks = Single ref | Multi "(int \<times> ref) list"

type_synonym block_map = "bytes \<Rightarrow> cached_blocks option"

definition get_one_block :: "bytes \<Rightarrow> block_map \<Rightarrow> py_exn + ref option" where
  "get_one_block key m =
     (case m key of
        None \<Rightarrow> Inr None
      | Some (Single b) \<Rightarrow> Inr (Some b)
      | Some (Multi []) \<Rightarrow> Inl StopIteration
      | Some (Multi (e # es)) \<Rightarrow> Inr (Some (snd e)))"

text \<open>\<open>num\<close> reads the \<open>block_id\<close> of a block.\<close>

definition insert_block :: "(ref \<Rightarrow> int) \<Rightarrow> bytes \<Rightarrow> ref \<Rightarrow> block_map \<Rightarrow> block_map" where
  "insert_block num key b m =
     (case m key of
        None \<Rightarrow> m(key \<mapsto> Single b)
      | Some (Single c) \<Rightarrow> m(key \<mapsto> Multi (AList.update (num b) b [(num c, c)]))
      | Some (Multi d) \<Rightarrow> m(key \<mapsto> Multi (AList.update (num b) b d)))"

definition pop_block :: "(ref \<Rightarrow> int) \<Rightarrow> bytes \<Rightarrow> int \<Rightarrow> block_map \<Rightarrow> ref option \<times> block_map" where
  "pop_block num key i m =
     (case m key of
        None \<Rightarrow> (None, m)
      | Some (Single c) \<Rightarrow> if num c = i then (Some c, m(key := None)) else (None, m)
      | Some (Multi d) \<Rightarrow>
          (let d' = AList.delete i d
           in (map_of d i, m(key := (if d' = [] then None else Some (Multi d'))))))"

section \<open>The interface\<close>

locale block_index =
  fixes pairs :: "'m \<Rightarrow> ('k \<times> 'b) set"
    and inv :: "'m \<Rightarrow> bool"
    and valid :: "'b \<Rightarrow> bool"
    and get :: "'k \<Rightarrow> 'm \<Rightarrow> 'e + 'b option"
    and ins :: "'k \<Rightarrow> 'b \<Rightarrow> 'm \<Rightarrow> 'm"
    and del :: "'k \<Rightarrow> 'b \<Rightarrow> 'm \<Rightarrow> 'b option \<times> 'm"
    and empty :: 'm
  assumes empty_law: "inv empty \<and> pairs empty = {}"
    and get_law: "inv m \<Longrightarrow> \<exists>r. get k m = Inr r \<and> (case r of Some b \<Rightarrow> (k, b) \<in> pairs m | None \<Rightarrow> \<forall>b. (k, b) \<notin> pairs m)"
    and ins_law: "inv m \<Longrightarrow> valid b \<Longrightarrow> inv (ins k b m) \<and> pairs (ins k b m) = insert (k, b) (pairs m)"
    and del_law: "inv m \<Longrightarrow> inv (snd (del k b m)) \<and> pairs (snd (del k b m)) = pairs m - {(k, b)}
          \<and> fst (del k b m) = (if (k, b) \<in> pairs m then Some b else None)"
begin

lemma get_hit: "inv m \<Longrightarrow> get k m = Inr (Some b) \<Longrightarrow> (k, b) \<in> pairs m"
  using get_law [of m k] by auto

lemma get_miss: "inv m \<Longrightarrow> get k m = Inr None \<longleftrightarrow> (\<forall>b. (k, b) \<notin> pairs m)"
  using get_law [of m k] by (auto split: option.splits)

lemma get_after_ins: "inv m \<Longrightarrow> valid b \<Longrightarrow> \<exists>c. get k (ins k b m) = Inr (Some c) \<and> (k, c) \<in> insert (k, b) (pairs m)"
  using ins_law [of m b k] get_law [of "ins k b m" k] by (auto split: option.splits)

lemma get_other_ins: "inv m \<Longrightarrow> valid b \<Longrightarrow> k \<noteq> k' \<Longrightarrow> get k' (ins k b m) = Inr None \<longleftrightarrow> get k' m = Inr None"
  using ins_law [of m b k] get_miss by auto

lemma del_after_ins:
  assumes "inv m" and "valid b" and "(k, b) \<notin> pairs m"
  shows "fst (del k b (ins k b m)) = Some b" "pairs (snd (del k b (ins k b m))) = pairs m"
  using ins_law [OF assms(1,2), of k] del_law [of "ins k b m" k b] assms(3) by auto

lemma get_after_del:
  assumes "inv m"
  shows "get k (snd (del k b m)) = Inr None \<longleftrightarrow> (\<forall>c. (k, c) \<in> pairs m \<longrightarrow> c = b)"
  using del_law [OF assms, of k b] get_miss [of "snd (del k b m)" k] by auto

end

section \<open>The map implements the interface\<close>

text \<open>The numbers of the blocks: the sentinels have -1.\<close>

fun block_number :: "ref \<Rightarrow> int" where
  "block_number (Blk i) = int i"
| "block_number FakeHead = -1"
| "block_number FakeTail = -1"

text \<open>The dictionaries in the map are not empty and hold each block under its number.\<close>

fun entry_ok :: "cached_blocks option \<Rightarrow> bool" where
  "entry_ok None \<longleftrightarrow> True"
| "entry_ok (Some (Single c)) \<longleftrightarrow> c \<in> range Blk"
| "entry_ok (Some (Multi d)) \<longleftrightarrow>
     d \<noteq> [] \<and> distinct (map fst d) \<and> (\<forall>(i, c) \<in> set d. c \<in> range Blk \<and> i = block_number c)"

definition map_ok :: "block_map \<Rightarrow> bool" where
  "map_ok m \<longleftrightarrow> (\<forall>k. entry_ok (m k))"

definition holders :: "cached_blocks option \<Rightarrow> ref set" where
  "holders e = (case e of None \<Rightarrow> {} | Some (Single c) \<Rightarrow> {c} | Some (Multi d) \<Rightarrow> snd ` set d)"

definition map_pairs :: "block_map \<Rightarrow> (bytes \<times> ref) set" where
  "map_pairs m = {(k, b). b \<in> holders (m k)}"

lemma block_number_inj: "c \<in> range Blk \<Longrightarrow> block_number b = block_number c \<longleftrightarrow> b = c"
  by (cases b) auto

lemma map_okD: "map_ok m \<Longrightarrow> m k = e \<Longrightarrow> entry_ok e"
  by (auto simp: map_ok_def)

lemma map_ok_upd: "map_ok m \<Longrightarrow> entry_ok e \<Longrightarrow> map_ok (m(k := e))"
  by (simp add: map_ok_def)

lemma map_pairs_upd: "map_pairs (m(k := e)) = {p \<in> map_pairs m. fst p \<noteq> k} \<union> Pair k ` holders e"
  by (auto simp: map_pairs_def split: if_splits)

lemma map_pairs_iff: "(k, b) \<in> map_pairs m \<longleftrightarrow> b \<in> holders (m k)"
  by (simp add: map_pairs_def)

lemma holders_simps [simp]:
  "holders None = {}" "holders (Some (Single c)) = {c}" "holders (Some (Multi d)) = snd ` set d"
  by (simp_all add: holders_def)

lemma get_block_law:
  assumes "map_ok m"
  shows "\<exists>r. get_one_block k m = Inr r
    \<and> (case r of Some b \<Rightarrow> (k, b) \<in> map_pairs m | None \<Rightarrow> \<forall>b. (k, b) \<notin> map_pairs m)"
proof (cases "m k")
  case (Some c)
  then have "c \<noteq> Multi []" using map_okD [OF assms Some] by auto
  then show ?thesis
    using Some by (auto simp: get_one_block_def map_pairs_iff split: cached_blocks.splits list.splits)
qed (simp add: get_one_block_def map_pairs_iff)

lemma numbered_key:
  assumes "\<forall>(i, c) \<in> set d. c \<in> range Blk \<and> i = block_number c" and "e \<in> set d"
  shows "fst e = block_number b \<longleftrightarrow> snd e = b"
proof -
  have "snd e \<in> range Blk" "fst e = block_number (snd e)" using assms by (auto simp: case_prod_beta)
  then show ?thesis using block_number_inj [of "snd e" b] by auto
qed

lemma update_numbered:
  assumes "distinct (map fst d)" and "\<forall>(i, c) \<in> set d. c \<in> range Blk \<and> i = block_number c" and "b \<in> range Blk"
  shows "distinct (map fst (AList.update (block_number b) b d))"
    and "set (AList.update (block_number b) b d) = insert (block_number b, b) (set d)"
proof -
  show "distinct (map fst (AList.update (block_number b) b d))" using assms(1) by (rule distinct_update)
  have "set (AList.update (block_number b) b d) = insert (block_number b, b) {e \<in> set d. fst e \<noteq> block_number b}"
    using assms(1) by (induction d) (force, force)
  also have "\<dots> = insert (block_number b, b) (set d)"
    using numbered_key [OF assms(2), of _ b] by (auto simp: prod_eq_iff)
  finally show "set (AList.update (block_number b) b d) = insert (block_number b, b) (set d)" .
qed

lemma insert_block_law:
  assumes "map_ok m" and "b \<in> range Blk"
  shows "map_ok (insert_block block_number k b m)
    \<and> map_pairs (insert_block block_number k b m) = insert (k, b) (map_pairs m)"
proof -
  have "\<exists>e. insert_block block_number k b m = m(k := e) \<and> entry_ok e \<and> holders e = insert b (holders (m k))"
  proof -
    consider "m k = None" | c where "m k = Some (Single c)" | d where "m k = Some (Multi d)"
      by (metis cached_blocks.exhaust option.exhaust)
    then show ?thesis
    proof cases
      case 1
      then show ?thesis using assms(2) by (auto simp: insert_block_def)
    next
      case (2 c)
      let ?d = "[(block_number c, c)]"
      have "c \<in> range Blk" using map_okD [OF assms(1) 2] by simp
      then have "distinct (map fst (AList.update (block_number b) b ?d))"
        "set (AList.update (block_number b) b ?d) = {(block_number b, b), (block_number c, c)}"
        using update_numbered [of ?d b] assms(2) by auto
      moreover from this have "AList.update (block_number b) b ?d \<noteq> []" by (metis empty_not_insert set_empty)
      ultimately show ?thesis
        using 2 assms(2) \<open>c \<in> range Blk\<close>
        by (intro exI [of _ "Some (Multi (AList.update (block_number b) b ?d))"])
          (simp add: insert_block_def del: AList.update.simps)
    next
      case (3 d)
      then have d: "distinct (map fst d)" "\<forall>(i, c) \<in> set d. c \<in> range Blk \<and> i = block_number c"
        using map_okD [OF assms(1) 3] by auto
      note u = update_numbered [OF d assms(2)]
      then have "AList.update (block_number b) b d \<noteq> []" by (metis empty_not_insert set_empty)
      then show ?thesis
        using u d 3 assms(2)
        by (intro exI [of _ "Some (Multi (AList.update (block_number b) b d))"]) (simp add: insert_block_def)
    qed
  qed
  then obtain e where "insert_block block_number k b m = m(k := e)" "entry_ok e" "holders e = insert b (holders (m k))"
    by blast
  then show ?thesis using assms(1) map_ok_upd by (auto simp: map_pairs_upd map_pairs_iff image_iff)
qed

lemma pop_block_law:
  assumes "map_ok m"
  shows "map_ok (snd (pop_block block_number k (block_number b) m))
    \<and> map_pairs (snd (pop_block block_number k (block_number b) m)) = map_pairs m - {(k, b)}
    \<and> fst (pop_block block_number k (block_number b) m) = (if (k, b) \<in> map_pairs m then Some b else None)"
proof -
  have "\<exists>e. pop_block block_number k (block_number b) m = (if b \<in> holders (m k) then Some b else None, m(k := e))
      \<and> entry_ok e \<and> holders e = holders (m k) - {b}"
  proof -
    consider "m k = None" | c where "m k = Some (Single c)" | d where "m k = Some (Multi d)"
      by (metis cached_blocks.exhaust option.exhaust)
    then show ?thesis
    proof cases
      case 1
      then show ?thesis by (auto simp: pop_block_def intro!: exI [of _ None])
    next
      case (2 c)
      then have "c \<in> range Blk" using map_okD [OF assms 2] by simp
      then have "block_number c = block_number b \<longleftrightarrow> b = c" using block_number_inj [of c b] by auto
      then show ?thesis
        using 2 \<open>c \<in> range Blk\<close>
        by (intro exI [of _ "if b = c then None else Some (Single c)"]) (auto simp: pop_block_def)
    next
      case (3 d)
      then have d: "distinct (map fst d)" "\<forall>(i, c) \<in> set d. c \<in> range Blk \<and> i = block_number c"
        using map_okD [OF assms 3] by auto
      let ?d = "AList.delete (block_number b) d"
      have "set ?d = {e \<in> set d. fst e \<noteq> block_number b}" by (auto simp: AList.delete_eq)
      then have del: "set ?d = {e \<in> set d. snd e \<noteq> b}" using numbered_key [OF d(2), of _ b] by blast
      have find: "map_of d (block_number b) = (if b \<in> snd ` set d then Some b else None)"
      proof (cases "b \<in> snd ` set d")
        case True
        then obtain e where "e \<in> set d" "snd e = b" by auto
        then have "(block_number b, b) \<in> set d" using numbered_key [OF d(2), of e b] by (metis prod.collapse)
        then show ?thesis using True d(1) by simp
      next
        case False
        then show ?thesis using numbered_key [OF d(2), of _ b] by (force simp: map_of_eq_None_iff)
      qed
      let ?e = "if ?d = [] then None else Some (Multi ?d)"
      have "snd ` set ?d = snd ` set d - {b}" unfolding del by auto
      then have "holders ?e = holders (m k) - {b}" using 3 by (cases "?d = []") auto
      moreover have "entry_ok ?e" using d(2) distinct_delete [OF d(1), of "block_number b"] del by auto
      moreover have "pop_block block_number k (block_number b) m = (if b \<in> holders (m k) then Some b else None, m(k := ?e))"
        using 3 find by (simp add: pop_block_def Let_def)
      ultimately show ?thesis by blast
    qed
  qed
  then obtain e where "pop_block block_number k (block_number b) m = (if b \<in> holders (m k) then Some b else None, m(k := e))"
    "entry_ok e" "holders e = holders (m k) - {b}" by blast
  then show ?thesis using assms map_ok_upd by (auto simp: map_pairs_upd map_pairs_iff image_iff)
qed

interpretation bm: block_index map_pairs map_ok "\<lambda>b. b \<in> range Blk" get_one_block
  "insert_block block_number" "\<lambda>k b. pop_block block_number k (block_number b)" "\<lambda>_. None"
proof (unfold_locales, goal_cases)
  case 1
  then show ?case by (simp add: map_ok_def map_pairs_def)
next
  case (2 m k)
  then show ?case by (rule get_block_law)
next
  case (3 m b k)
  then show ?case by (rule insert_block_law)
next
  case (4 m k b)
  then show ?case by (rule pop_block_law)
qed


section \<open>Property\<close>

text \<open>C21.  The index of cached blocks implements a set of pairs of a key and a block, however many
  blocks share a key: a lookup finds a block of the key exactly when there is one, and never raises;
  an insertion adds its pair and nothing else; a removal by number removes its pair and nothing else,
  and reports whether it was there.\<close>

theorem block_map_refines_pairs:
  assumes "map_ok m"
  shows "(\<exists>r. get_one_block k m = Inr r
        \<and> (case r of Some c \<Rightarrow> (k, c) \<in> map_pairs m | None \<Rightarrow> \<forall>c. (k, c) \<notin> map_pairs m))
    \<and> map_ok (insert_block block_number k (Blk i) m)
    \<and> map_pairs (insert_block block_number k (Blk i) m) = insert (k, Blk i) (map_pairs m)
    \<and> map_ok (snd (pop_block block_number k (int i) m))
    \<and> map_pairs (snd (pop_block block_number k (int i) m)) = map_pairs m - {(k, Blk i)}
    \<and> fst (pop_block block_number k (int i) m) = (if (k, Blk i) \<in> map_pairs m then Some (Blk i) else None)"
  using bm.get_law [OF assms, of k] bm.ins_law [OF assms, of "Blk i" k] bm.del_law [OF assms, of k "Blk i"]
  by simp

theorem block_map_refines_pairs_witness:
  "map_pairs (insert_block block_number [1] (Blk 4) (insert_block block_number [1] (Blk 3) (\<lambda>_. None)))
     = {([1], Blk 4), ([1], Blk 3)}"
proof -
  have 1: "map_ok (\<lambda>_. None)" "map_pairs (\<lambda>_. None) = {}" using bm.empty_law by auto
  then have 2: "map_ok (insert_block block_number [1] (Blk 3) (\<lambda>_. None))"
    "map_pairs (insert_block block_number [1] (Blk 3) (\<lambda>_. None)) = {([1], Blk 3)}"
    using block_map_refines_pairs [OF 1(1), of "[1]" 3] by auto
  then show ?thesis using block_map_refines_pairs [OF 2(1), of "[1]" 4] by auto
qed

end
