(* ===== verification/Request.thy ===== *)
theory Request
  imports KV_Block
begin

text \<open>
  Requests (\<open>vllm/v1/request.py\<close>) and the stop check of the scheduler
  (\<open>vllm/v1/core/sched/utils.py\<close>).  Time stamps are only compared and are modelled by
  integers.  A prompt embedding tensor is given by the bytes of its rows.  The hasher of a
  request is an argument; it returns \<open>None\<close> when its loop does not end.
\<close>

section \<open>Data\<close>

datatype RequestStatus =
    WAITING | WAITING_FOR_FSM | WAITING_FOR_REMOTE_KVS | RUNNING | PREEMPTED
  | FINISHED_STOPPED | FINISHED_LENGTH_CAPPED | FINISHED_ABORTED | FINISHED_IGNORED

text \<open>The values of the \<open>IntEnum\<close>, numbered from 1 by \<open>enum.auto\<close>.\<close>

fun status_value :: "RequestStatus \<Rightarrow> nat" where
  "status_value WAITING = 1"
| "status_value WAITING_FOR_FSM = 2"
| "status_value WAITING_FOR_REMOTE_KVS = 3"
| "status_value RUNNING = 4"
| "status_value PREEMPTED = 5"
| "status_value FINISHED_STOPPED = 6"
| "status_value FINISHED_LENGTH_CAPPED = 7"
| "status_value FINISHED_ABORTED = 8"
| "status_value FINISHED_IGNORED = 9"

datatype FinishReason = STOP | LENGTH' | ABORT

definition status_is_finished :: "RequestStatus \<Rightarrow> bool" where
  "status_is_finished s \<longleftrightarrow> status_value s > status_value PREEMPTED"

definition FINISHED_REASON_MAP :: "(RequestStatus \<times> FinishReason) list" where
  "FINISHED_REASON_MAP =
     [(FINISHED_STOPPED, STOP), (FINISHED_LENGTH_CAPPED, LENGTH'),
      (FINISHED_ABORTED, ABORT), (FINISHED_IGNORED, LENGTH')]"

definition status_finished_reason :: "RequestStatus \<Rightarrow> FinishReason option" where
  "status_finished_reason s = map_of FINISHED_REASON_MAP s"

datatype EngineCoreEventType = QUEUED | SCHEDULED | EVENT_PREEMPTED

record PlaceholderRange =
  mm_offset :: int
  mm_length :: int

record MultiModalFeatureSpec =
  mm_identifier :: string
  mm_position :: PlaceholderRange

record LoRARequest =
  lora_name :: string
  lora_int_id :: int

text \<open>\<open>sp_structured\<close>: \<open>StructuredOutputRequest.from_sampling_params\<close> gives an object, that is,
  some constraint is set.  \<open>sp_kv_transfer_params\<close>: the entry of \<open>extra_args\<close>, if any.\<close>

record SamplingParams =
  sp_max_tokens :: "int option"
  min_tokens :: int
  ignore_eos :: bool
  stop_token_ids :: "int list option"
  sp_structured :: bool
  sp_kv_transfer_params :: "string option"
  sp_skip_reading_prefix_cache :: "bool option"

record PoolingParams =
  pp_skip_reading_prefix_cache :: "bool option"

record EngineCoreRequest =
  ecr_request_id :: string
  ecr_client_index :: int
  ecr_prompt_token_ids :: "int list option"
  ecr_prompt_embeds :: "bytes list option"
  ecr_mm_features :: "MultiModalFeatureSpec list option"
  ecr_sampling_params :: "SamplingParams option"
  ecr_pooling_params :: "PoolingParams option"
  ecr_eos_token_id :: "int option"
  ecr_arrival_time :: int
  ecr_lora_request :: "LoRARequest option"
  ecr_cache_salt :: "string option"
  ecr_priority :: int

record Request =
  request_id :: string
  client_index :: int
  priority :: int
  sampling_params :: "SamplingParams option"
  pooling_params :: "PoolingParams option"
  eos_token_id :: "int option"
  lora_request :: "LoRARequest option"
  use_structured_output :: bool
  arrival_time :: int
  status :: RequestStatus
  events :: "(EngineCoreEventType \<times> int) list"
  stop_reason :: "int option"
  kv_transfer_params :: "string option"
  max_tokens :: int
  prompt_embeds :: "bytes list option"
  num_prompt_tokens :: int
  output_token_ids :: "int list"
  all_token_ids :: "int list"
  spec_token_ids :: "int list"
  num_computed_tokens :: int
  cache_salt :: "string option"
  mm_features :: "MultiModalFeatureSpec list"
  num_cached_tokens :: int
  num_preemptions :: int
  block_hashes :: "bytes list"
  skip_reading_prefix_cache :: bool

type_synonym block_hasher = "Request \<Rightarrow> (py_exn + bytes list) option"

section \<open>Operations\<close>

definition length_from_prompt ::
  "int list option \<Rightarrow> bytes list option \<Rightarrow> py_exn + int" where
  "length_from_prompt toks embeds =
     (case toks of
        None \<Rightarrow>
          (case embeds of
             None \<Rightarrow> Inl (ValueError ''Neither prompt_token_ids nor prompt_embeds were defined.'')
           | Some e \<Rightarrow> Inr (int (length e)))
      | Some t \<Rightarrow>
          (case embeds of
             None \<Rightarrow> Inr (int (length t))
           | Some e \<Rightarrow>
               bindE (raise_if (length e \<noteq> length t)
                 (ValueError ''Prompt token ids and prompt embeds had different lengths'')) (\<lambda>_.
               Inr (int (length t)))))"

definition get_skip_reading_prefix_cache ::
  "SamplingParams option \<Rightarrow> PoolingParams option \<Rightarrow> bool" where
  "get_skip_reading_prefix_cache sp pp =
     (case Option.bind sp sp_skip_reading_prefix_cache of
        Some b \<Rightarrow> b
      | None \<Rightarrow>
          (case Option.bind pp pp_skip_reading_prefix_cache of Some b \<Rightarrow> b | None \<Rightarrow> False))"

text \<open>The part of the constructor that depends on the parameters of the request:
  \<open>(max_tokens, status, kv_transfer_params)\<close>.\<close>

definition init_params ::
  "SamplingParams option \<Rightarrow> PoolingParams option
     \<Rightarrow> py_exn + (int \<times> RequestStatus \<times> string option)" where
  "init_params sp pp =
     (case (pp, sp) of
        (Some _, _) \<Rightarrow> Inr (1, WAITING, None)
      | (None, Some s) \<Rightarrow>
          bindE (of_option (AssertionError []) (sp_max_tokens s)) (\<lambda>m.
          Inr (m, if sp_structured s then WAITING_FOR_FSM else WAITING, sp_kv_transfer_params s))
      | (None, None) \<Rightarrow>
          Inl (ValueError ''sampling_params and pooling_params can't both be unset''))"

definition from_engine_core_request ::
  "block_hasher option \<Rightarrow> EngineCoreRequest \<Rightarrow> (py_exn + Request) option" where
  "from_engine_core_request hasher r =
     (case bindE (init_params (ecr_sampling_params r) (ecr_pooling_params r)) (\<lambda>(mt, st, kv).
           bindE (length_from_prompt (ecr_prompt_token_ids r) (ecr_prompt_embeds r)) (\<lambda>n.
           Inr \<lparr> request_id = ecr_request_id r, client_index = ecr_client_index r,
                  priority = ecr_priority r, sampling_params = ecr_sampling_params r,
                  pooling_params = ecr_pooling_params r, eos_token_id = ecr_eos_token_id r,
                  lora_request = ecr_lora_request r,
                  use_structured_output =
                    (case ecr_sampling_params r of Some s \<Rightarrow> sp_structured s | None \<Rightarrow> False),
                  arrival_time = ecr_arrival_time r, status = st, events = [],
                  stop_reason = None, kv_transfer_params = kv, max_tokens = mt,
                  prompt_embeds = ecr_prompt_embeds r, num_prompt_tokens = n,
                  output_token_ids = [],
                  all_token_ids =
                    (case ecr_prompt_token_ids r of Some t \<Rightarrow> t | None \<Rightarrow> replicate (nat n) 0),
                  spec_token_ids = [], num_computed_tokens = 0, cache_salt = ecr_cache_salt r,
                  mm_features = (case ecr_mm_features r of Some m \<Rightarrow> m | None \<Rightarrow> []),
                  num_cached_tokens = -1, num_preemptions = 0, block_hashes = [],
                  skip_reading_prefix_cache =
                    get_skip_reading_prefix_cache (ecr_sampling_params r) (ecr_pooling_params r) \<rparr>)) of
        Inl e \<Rightarrow> Some (Inl e)
      | Inr q \<Rightarrow>
          (case hasher of
             None \<Rightarrow> Some (Inr q)
           | Some h \<Rightarrow> map_option (\<lambda>res. bindE res (\<lambda>hs. Inr (q\<lparr> block_hashes := hs \<rparr>))) (h q)))"

definition append_output_token_ids ::
  "block_hasher option \<Rightarrow> int list \<Rightarrow> Request \<Rightarrow> (py_exn + Request) option" where
  "append_output_token_ids hasher token_ids r =
     (let q = r\<lparr> output_token_ids := output_token_ids r @ token_ids,
                 all_token_ids := all_token_ids r @ token_ids \<rparr>
      in case hasher of
           None \<Rightarrow> Some (Inr q)
         | Some h \<Rightarrow>
             map_option (\<lambda>res. bindE res (\<lambda>hs. Inr (q\<lparr> block_hashes := block_hashes q @ hs \<rparr>))) (h q))"

definition num_tokens :: "Request \<Rightarrow> int" where
  "num_tokens r = int (length (all_token_ids r))"

definition num_tokens_with_spec :: "Request \<Rightarrow> int" where
  "num_tokens_with_spec r = int (length (all_token_ids r)) + int (length (spec_token_ids r))"

definition num_output_tokens :: "Request \<Rightarrow> int" where
  "num_output_tokens r = int (length (output_token_ids r))"

definition is_finished :: "Request \<Rightarrow> bool" where
  "is_finished r = status_is_finished (status r)"

definition get_finished_reason :: "Request \<Rightarrow> FinishReason option" where
  "get_finished_reason r = status_finished_reason (status r)"

definition get_num_encoder_tokens :: "Request \<Rightarrow> nat \<Rightarrow> py_exn + int" where
  "get_num_encoder_tokens r input_id =
     bindE (raise_if (\<not> input_id < length (mm_features r)) (AssertionError [])) (\<lambda>_.
     Inr (mm_length (mm_position (mm_features r ! input_id))))"

definition record_event :: "EngineCoreEventType \<Rightarrow> int \<Rightarrow> Request \<Rightarrow> Request" where
  "record_event ty timestamp r = r\<lparr> events := events r @ [(ty, timestamp)] \<rparr>"

definition take_request_events ::
  "Request \<Rightarrow> (EngineCoreEventType \<times> int) list option \<times> Request" where
  "take_request_events r =
     (if events r = [] then (None, r) else (Some (events r), r\<lparr> events := [] \<rparr>))"

section \<open>The stop check\<close>

text \<open>\<open>pooler_output\<close> is only tested for presence.  Truthiness of \<open>pooling_params\<close> is presence.\<close>

definition check_stop :: "Request \<Rightarrow> int \<Rightarrow> bool \<Rightarrow> py_exn + (bool \<times> Request)" where
  "check_stop r max_model_len pooler_output =
     (case (pooling_params r, sampling_params r) of
        (Some _, _) \<Rightarrow>
          Inr (if pooler_output then (True, r\<lparr> status := FINISHED_STOPPED \<rparr>) else (False, r))
      | (None, None) \<Rightarrow> Inl (AssertionError [])
      | (None, Some sp) \<Rightarrow>
          if num_output_tokens r < min_tokens sp then Inr (False, r)
          else if output_token_ids r = [] then Inl IndexError
          else
            (let last_token_id = last (output_token_ids r)
             in if \<not> ignore_eos sp \<and> eos_token_id r = Some last_token_id
                then Inr (True, r\<lparr> status := FINISHED_STOPPED \<rparr>)
                else if last_token_id \<in> set (case stop_token_ids sp of Some ts \<Rightarrow> ts | None \<Rightarrow> [])
                then Inr (True, r\<lparr> status := FINISHED_STOPPED, stop_reason := Some last_token_id \<rparr>)
                else if num_tokens r \<ge> max_model_len \<or> num_output_tokens r \<ge> max_tokens r
                then Inr (True, r\<lparr> status := FINISHED_LENGTH_CAPPED \<rparr>)
                else Inr (False, r)))"

definition remove_all :: "'a list \<Rightarrow> 'a set \<Rightarrow> 'a list" where
  "remove_all lst items =
     (if items = {} then lst
      else if card items = 1 then remove1 (the_elem items) lst
      else filter (\<lambda>x. x \<notin> items) lst)"


section \<open>Properties\<close>

lemma finished_iff_reason: "status_is_finished s \<longleftrightarrow> status_finished_reason s \<noteq> None"
  by (cases s) (simp_all add: status_is_finished_def status_finished_reason_def FINISHED_REASON_MAP_def)

text \<open>C16.  The stop check decides and records the end of a request consistently: it answers
  yes exactly when it leaves the request in a finished status, which has a finish reason; on no it
  changes nothing; it never touches anything but the status and the stop reason.  A generating
  request that has its minimum of tokens is stopped at the latest when it reaches the model length
  or its token limit; below the minimum it is not stopped, not even at the model length.\<close>

theorem check_stop_finishes:
  assumes "\<not> is_finished r" and "check_stop r max_model_len out = Inr (stopped, r')"
  shows "(stopped \<longleftrightarrow> is_finished r') \<and> (stopped \<longleftrightarrow> get_finished_reason r' \<noteq> None)
    \<and> (\<not> stopped \<longrightarrow> r' = r)
    \<and> r' = r\<lparr> status := status r', stop_reason := stop_reason r' \<rparr>
    \<and> (\<forall>sp. pooling_params r = None \<and> sampling_params r = Some sp \<and> min_tokens sp \<le> num_output_tokens r
         \<and> (max_model_len \<le> num_tokens r \<or> max_tokens r \<le> num_output_tokens r) \<longrightarrow> stopped)
    \<and> (\<forall>sp. pooling_params r = None \<and> sampling_params r = Some sp \<and> num_output_tokens r < min_tokens sp
         \<longrightarrow> \<not> stopped)"
proof -
  have fin: "status_is_finished FINISHED_STOPPED" "status_is_finished FINISHED_LENGTH_CAPPED"
    by (simp_all add: status_is_finished_def)
  have "get_finished_reason r' \<noteq> None \<longleftrightarrow> is_finished r'"
    using finished_iff_reason by (simp add: get_finished_reason_def is_finished_def)
  then show ?thesis
    using assms fin
    by (auto simp: check_stop_def is_finished_def Let_def split: option.splits if_splits)
qed

definition sample_request :: "int list \<Rightarrow> int list \<Rightarrow> Request" where
  "sample_request prompt out =
     \<lparr> request_id = ''r'', client_index = 0, priority = 0,
        sampling_params = Some \<lparr> sp_max_tokens = Some 4, min_tokens = 0, ignore_eos = False,
          stop_token_ids = None, sp_structured = False, sp_kv_transfer_params = None,
          sp_skip_reading_prefix_cache = None \<rparr>,
        pooling_params = None, eos_token_id = Some 2, lora_request = None,
        use_structured_output = False, arrival_time = 0, status = RUNNING, events = [],
        stop_reason = None, kv_transfer_params = None, max_tokens = 4, prompt_embeds = None,
        num_prompt_tokens = int (length prompt), output_token_ids = out,
        all_token_ids = prompt @ out, spec_token_ids = [], num_computed_tokens = 0,
        cache_salt = None, mm_features = [], num_cached_tokens = -1, num_preemptions = 0,
        block_hashes = [], skip_reading_prefix_cache = False \<rparr>"

theorem check_stop_finishes_witness:
  "\<not> is_finished (sample_request [5, 6] [7, 2])
   \<and> (\<exists>r'. check_stop (sample_request [5, 6] [7, 2]) 100 False = Inr (True, r') \<and> is_finished r')"
proof -
  let ?r = "sample_request [5, 6] [7, 2]"
  have 1: "\<not> is_finished ?r" by code_simp
  have 2: "check_stop ?r 100 False = Inr (True, ?r\<lparr> status := FINISHED_STOPPED \<rparr>)" by code_simp
  from 1 2 check_stop_finishes [OF 1 2] show ?thesis by blast
qed

text \<open>C17.  On a list without repetitions \<open>remove_all\<close> removes exactly the given items, on the fast
  path for one item as well.\<close>

theorem remove_all_filters:
  assumes "distinct lst" and "finite items"
  shows "remove_all lst items = filter (\<lambda>x. x \<notin> items) lst"
proof (cases "card items = 1")
  case True
  then obtain x where "items = {x}" by (auto simp: card_1_singleton_iff)
  then show ?thesis using assms(1) by (auto simp: remove_all_def distinct_remove1_removeAll removeAll_filter_not_eq intro!: filter_cong)
qed (auto simp: remove_all_def)

theorem remove_all_filters_witness: "remove_all [1, 2, 3::nat] {2} = [1, 3]"
  using remove_all_filters [of "[1, 2, 3::nat]" "{2}"] by simp

end
