(* ===== verification/Math_Utils.thy ===== *)
theory Math_Utils
  imports Prelude
begin

text \<open>
  Integer helpers (\<open>vllm/utils/math_utils.py\<close>).  Python's \<open>//\<close> rounds towards minus infinity,
  as \<open>div\<close> does on \<^typ>\<open>int\<close>; a zero divisor, on which Python raises, is outside the domain of
  the lemmas.
\<close>

section \<open>The functions\<close>

definition cdiv :: "int \<Rightarrow> int \<Rightarrow> int" where
  "cdiv a b = - (a div (- b))"

text \<open>\<open>int.bit_length\<close> of a non-negative number.\<close>

fun bit_length :: "nat \<Rightarrow> nat" where
  "bit_length n = (if n = 0 then 0 else Suc (bit_length (n div 2)))"

declare bit_length.simps [simp del]

definition next_power_of_2 :: "int \<Rightarrow> int" where
  "next_power_of_2 n = (if n < 1 then 1 else 2 ^ bit_length (nat (n - 1)))"

definition prev_power_of_2 :: "int \<Rightarrow> int" where
  "prev_power_of_2 n = (if n \<le> 0 then 0 else 2 ^ (bit_length (nat n) - 1))"

definition round_up :: "int \<Rightarrow> int \<Rightarrow> int" where
  "round_up x y = ((x + y - 1) div y) * y"

definition round_down :: "int \<Rightarrow> int \<Rightarrow> int" where
  "round_down x y = (x div y) * y"

section \<open>Ceiling division\<close>

lemma le_div_iff_mult:
  assumes "0 < (b::int)"
  shows "n \<le> a div b \<longleftrightarrow> n * b \<le> a"
proof -
  have a: "a div b * b + a mod b = a" "0 \<le> a mod b" "a mod b < b" using assms by simp_all
  show ?thesis
  proof
    assume "n \<le> a div b"
    then have "n * b \<le> a div b * b" using assms by (simp add: mult_right_mono)
    then show "n * b \<le> a" using a by linarith
  next
    assume "n * b \<le> a"
    then have "n * b < a div b * b + b" using a by linarith
    then have "n * b < (a div b + 1) * b" by (simp add: distrib_right)
    then show "n \<le> a div b" using assms by (simp add: mult_less_cancel_right)
  qed
qed

lemma cdiv_bounds:
  assumes "0 < b"
  shows "a \<le> cdiv a b * b" "cdiv a b * b < a + b"
proof -
  have "a div (- b) = (- a) div b" using assms by (simp add: div_minus_right)
  then have c: "cdiv a b = - ((- a) div b)" by (simp add: cdiv_def)
  have "(- a) div b * b + (- a) mod b = - a" by (rule div_mult_mod_eq)
  moreover have "0 \<le> (- a) mod b" "(- a) mod b < b" using assms by simp_all
  ultimately show "a \<le> cdiv a b * b" "cdiv a b * b < a + b"
    unfolding c mult_minus_left by linarith+
qed

lemma cdiv_le_iff:
  assumes "0 < b"
  shows "cdiv a b \<le> n \<longleftrightarrow> a \<le> n * b"
proof
  assume "cdiv a b \<le> n"
  then have "cdiv a b * b \<le> n * b" using assms by (simp add: mult_right_mono)
  then show "a \<le> n * b" using cdiv_bounds(1) [OF assms, of a] by linarith
next
  assume "a \<le> n * b"
  then have "cdiv a b * b < (n + 1) * b"
    using cdiv_bounds(2) [OF assms, of a] by (simp add: distrib_right)
  then show "cdiv a b \<le> n" using assms by (simp add: mult_less_cancel_right)
qed

lemma cdiv_mono: "0 < b \<Longrightarrow> a \<le> a' \<Longrightarrow> cdiv a b \<le> cdiv a' b"
  using cdiv_bounds(1) [of b a'] by (simp add: cdiv_le_iff)

lemma cdiv_nonneg: "0 < b \<Longrightarrow> 0 \<le> a \<Longrightarrow> 0 \<le> cdiv a b"
  using cdiv_mono [of b 0 a] by (simp add: cdiv_def)

lemma cdiv_pos: "0 < b \<Longrightarrow> 0 < a \<Longrightarrow> 0 < cdiv a b"
  using cdiv_le_iff [of b a 0] by simp

lemma cdiv_multiple: "0 < b \<Longrightarrow> cdiv (n * b) b = n"
  using cdiv_le_iff [of b "n * b" n] cdiv_bounds(1) [of b "n * b"] by (simp add: mult_le_cancel_right)

section \<open>Powers of two\<close>

lemma bit_length_bounds:
  "n < 2 ^ bit_length n \<and> (0 < n \<longrightarrow> 2 ^ (bit_length n - 1) \<le> n)"
proof (induction n rule: bit_length.induct)
  case (1 n)
  show ?case
  proof (cases "n \<le> 1")
    case True
    then show ?thesis by (cases "n = 0") (auto simp: bit_length.simps [of n] bit_length.simps [of 0])
  next
    case False
    then have IH: "n div 2 < 2 ^ bit_length (n div 2)" "2 ^ (bit_length (n div 2) - 1) \<le> n div 2"
      using 1 by auto
    have pos: "bit_length (n div 2) = Suc (bit_length (n div 2) - 1)"
      using False by (simp add: bit_length.simps [of "n div 2"])
    have "2 * 2 ^ (bit_length (n div 2) - 1) \<le> n" "n < 2 * 2 ^ bit_length (n div 2)"
      using IH by linarith+
    then show ?thesis using False pos by (metis bit_length.simps diff_Suc_1 not_one_le_zero power_Suc linear)
  qed
qed


lemma next_power_bounds:
  assumes "0 < n"
  shows "n \<le> next_power_of_2 n" "next_power_of_2 n < 2 * n"
proof -
  define m where "m = nat (n - 1)"
  have n: "n = int m + 1" using assms by (simp add: m_def)
  have nx: "next_power_of_2 n = int (2 ^ bit_length m)" using assms by (simp add: next_power_of_2_def m_def)
  show "n \<le> next_power_of_2 n" unfolding nx unfolding n using bit_length_bounds [of m] by linarith
  show "next_power_of_2 n < 2 * n"
  proof (cases "m = 0")
    case False
    then have "(2::nat) ^ bit_length m = 2 * 2 ^ (bit_length m - 1)"
      by (metis bit_length.simps diff_Suc_1 power_Suc)
    moreover have "2 ^ (bit_length m - 1) \<le> m" using False bit_length_bounds [of m] by simp
    ultimately have "2 ^ bit_length m \<le> 2 * m" by linarith
    then have "int (2 ^ bit_length m) \<le> int (2 * m)" by (simp only: of_nat_le_iff)
    then show ?thesis unfolding nx unfolding n by simp
  qed (simp add: next_power_of_2_def n bit_length.simps [of 0])
qed

lemma prev_power_bounds:
  assumes "0 < n"
  shows "prev_power_of_2 n \<le> n" "n < 2 * prev_power_of_2 n"
proof -
  define m where "m = nat n"
  have n: "n = int m" "0 < m" using assms by (simp_all add: m_def)
  have pv: "prev_power_of_2 n = int (2 ^ (bit_length m - 1))" using assms by (simp add: prev_power_of_2_def m_def)
  show "prev_power_of_2 n \<le> n" unfolding pv unfolding n using bit_length_bounds [of m] n(2) by linarith
  have "(2::nat) ^ bit_length m = 2 * 2 ^ (bit_length m - 1)"
    using n(2) by (metis bit_length.simps diff_Suc_1 power_Suc not_gr_zero)
  then have "m < 2 * 2 ^ (bit_length m - 1)" using bit_length_bounds [of m] by linarith
  then show "n < 2 * prev_power_of_2 n" unfolding pv unfolding n by linarith
qed

lemma round_up_cdiv:
  assumes "0 < y"
  shows "round_up x y = cdiv x y * y"
proof -
  let ?q = "(x + y - 1) div y"
  have "?q * y + (x + y - 1) mod y = x + y - 1" by (rule div_mult_mod_eq)
  moreover have "0 \<le> (x + y - 1) mod y" "(x + y - 1) mod y < y" using assms by simp_all
  ultimately have q: "x \<le> ?q * y" "?q * y < x + y" by linarith+
  then have "?q * y < (cdiv x y + 1) * y"
    using cdiv_bounds(1) [OF assms, of x] by (simp add: distrib_right)
  then have "?q \<le> cdiv x y" using assms by (simp add: mult_less_cancel_right)
  moreover have "cdiv x y \<le> ?q" using q(1) cdiv_le_iff [OF assms] by blast
  ultimately have "?q = cdiv x y" by simp
  then show ?thesis by (simp add: round_up_def)
qed

text \<open>C15.  The rounding helpers do what their names say, on every integer and every positive
  divisor: \<open>cdiv\<close> is the least number of parts that cover \<open>x\<close>; \<open>round_up\<close> and \<open>round_down\<close> give the
  nearest multiples; \<open>next_power_of_2\<close> and \<open>prev_power_of_2\<close> are the powers of two that enclose a
  positive number most tightly.\<close>

theorem rounding_helpers:
  assumes "0 < y" and "0 < n"
  shows "(\<forall>k. cdiv x y \<le> k \<longleftrightarrow> x \<le> k * y)
    \<and> y dvd round_up x y \<and> x \<le> round_up x y \<and> round_up x y < x + y
    \<and> y dvd round_down x y \<and> round_down x y \<le> x \<and> x < round_down x y + y
    \<and> (\<exists>k. next_power_of_2 n = 2 ^ k) \<and> n \<le> next_power_of_2 n \<and> next_power_of_2 n < 2 * n
    \<and> (\<exists>k. prev_power_of_2 n = 2 ^ k) \<and> prev_power_of_2 n \<le> n \<and> n < 2 * prev_power_of_2 n"
proof -
  have "round_down x y + x mod y = x" by (simp add: round_down_def)
  moreover have "0 \<le> x mod y" "x mod y < y" using assms(1) by simp_all
  ultimately have "round_down x y \<le> x" "x < round_down x y + y" by linarith+
  moreover have "y dvd round_down x y" by (simp add: round_down_def)
  moreover have "(\<exists>k. next_power_of_2 n = 2 ^ k) \<and> (\<exists>k. prev_power_of_2 n = 2 ^ k)"
    using assms(2) by (auto simp: next_power_of_2_def prev_power_of_2_def)
  ultimately show ?thesis
    using cdiv_le_iff [OF assms(1)] cdiv_bounds [OF assms(1), of x] next_power_bounds [OF assms(2)]
      prev_power_bounds [OF assms(2)] by (simp add: round_up_cdiv [OF assms(1)])
qed

theorem rounding_helpers_witness:
  "cdiv 17 16 \<le> 2 \<and> \<not> cdiv 17 16 \<le> 1 \<and> round_up 17 16 < 33 \<and> next_power_of_2 5 < 10 \<and> 5 \<le> next_power_of_2 5"
  using rounding_helpers [of 16 5 17] by auto

end
