(* ===== verification/Block_Hash.thy ===== *)
theory Block_Hash
  imports Request Math_Utils "HOL-Library.Countable"
begin

text \<open>
  Hashes of full KV-cache blocks (\<open>vllm/v1/core/kv_cache_utils.py\<close>): the extra keys of a
  block, the hash of a block chained to its parent, and the incremental hasher of a request.
  The hash function (\<open>sha256\<close> or \<open>sha256_cbor\<close> of a tuple) and the seed \<open>NONE_HASH\<close> are parameters.
\<close>

section \<open>Definitions\<close>

text \<open>The entries of the tuple of extra keys: names, identifiers and salts are strings.\<close>

datatype extra_key = KeyStr string | KeyBytes bytes

type_synonym hash_input = "bytes \<times> int list \<times> extra_key list option"

type_synonym hash_fn = "hash_input \<Rightarrow> bytes"

definition need_extra_keys :: "Request \<Rightarrow> bool" where
  "need_extra_keys r \<longleftrightarrow> mm_features r \<noteq> [] \<or> lora_request r \<noteq> None \<or> cache_salt r \<noteq> None"

text \<open>The loop of \<open>_gen_mm_extra_hash_keys\<close>.\<close>

function mm_keys_loop ::
  "MultiModalFeatureSpec list \<Rightarrow> int \<Rightarrow> int \<Rightarrow> nat \<Rightarrow> extra_key list \<Rightarrow> extra_key list \<times> nat" where
  "mm_keys_loop fs start_token_idx end_token_idx curr_mm_idx extra_keys =
     (if curr_mm_idx < length fs then
        (let f = fs ! curr_mm_idx; off = mm_offset (mm_position f); len = mm_length (mm_position f)
         in if end_token_idx > off then
              if start_token_idx > off + len
              then mm_keys_loop fs start_token_idx end_token_idx (curr_mm_idx + 1) extra_keys
              else if end_token_idx \<ge> off + len
              then mm_keys_loop fs start_token_idx end_token_idx (curr_mm_idx + 1)
                     (extra_keys @ [KeyStr (mm_identifier f)])
              else (extra_keys @ [KeyStr (mm_identifier f)], curr_mm_idx)
            else (extra_keys, curr_mm_idx))
      else (extra_keys, curr_mm_idx))"
  by pat_completeness auto
termination
  by (relation "measure (\<lambda>(fs, s, e, i, ks). length fs - i)") auto

declare mm_keys_loop.simps [simp del]

definition gen_mm_extra_hash_keys ::
  "Request \<Rightarrow> int \<Rightarrow> int \<Rightarrow> int \<Rightarrow> py_exn + (extra_key list \<times> int)" where
  "gen_mm_extra_hash_keys r start_token_idx end_token_idx start_mm_idx =
     (let fs = mm_features r
      in if fs = [] then Inr ([], start_mm_idx)
         else
           (let last_pos = mm_position (last fs)
            in if mm_offset last_pos + mm_length last_pos < start_token_idx
               then Inr ([], start_mm_idx)
               else
                 bindE (if start_mm_idx < 0
                        then bindE (raise_if (\<not> - start_mm_idx \<le> int (length fs)) (AssertionError [])) (\<lambda>_.
                             Inr (int (length fs) + start_mm_idx))
                        else Inr start_mm_idx) (\<lambda>i.
                 Inr (apsnd int (mm_keys_loop fs start_token_idx end_token_idx (nat i) [])))))"

definition gen_lora_extra_hash_keys :: "Request \<Rightarrow> extra_key list" where
  "gen_lora_extra_hash_keys r =
     (case lora_request r of None \<Rightarrow> [] | Some l \<Rightarrow> [KeyStr (lora_name l)])"

definition gen_prompt_embeds_extra_hash_keys :: "Request \<Rightarrow> int \<Rightarrow> int \<Rightarrow> extra_key list" where
  "gen_prompt_embeds_extra_hash_keys r start_token_idx end_token_idx =
     (case prompt_embeds r of
        None \<Rightarrow> []
      | Some e \<Rightarrow> [KeyBytes (concat (py_slice e start_token_idx end_token_idx))])"

text \<open>A salt counts only when it is not empty.\<close>

definition cache_salt_keys :: "Request \<Rightarrow> int \<Rightarrow> extra_key list" where
  "cache_salt_keys r start_token_idx =
     (case cache_salt r of
        Some s \<Rightarrow> (if start_token_idx = 0 \<and> s \<noteq> [] then [KeyStr s] else [])
      | None \<Rightarrow> [])"

definition generate_block_hash_extra_keys ::
  "Request \<Rightarrow> int \<Rightarrow> int \<Rightarrow> int \<Rightarrow> py_exn + (extra_key list option \<times> int)" where
  "generate_block_hash_extra_keys r start_token_idx end_token_idx start_mm_idx =
     bindE (gen_mm_extra_hash_keys r start_token_idx end_token_idx start_mm_idx) (\<lambda>(mm_keys, new_idx).
       (let keys = gen_lora_extra_hash_keys r @ mm_keys @ cache_salt_keys r start_token_idx
                   @ gen_prompt_embeds_extra_hash_keys r start_token_idx end_token_idx
        in Inr (if keys = [] then None else Some keys, new_idx)))"

text \<open>An empty parent hash is falsy and replaced by \<open>NONE_HASH\<close> as well.\<close>

definition hash_block_tokens ::
  "hash_fn \<Rightarrow> bytes \<Rightarrow> bytes option \<Rightarrow> int list \<Rightarrow> extra_key list option \<Rightarrow> bytes" where
  "hash_block_tokens hf none_hash parent_block_hash toks extra_keys =
     hf (case parent_block_hash of
           None \<Rightarrow> none_hash
         | Some p \<Rightarrow> if p = [] then none_hash else p, toks, extra_keys)"

text \<open>The \<open>while True\<close> loop of the hasher; with a block size that is not positive it need not
  end.\<close>

partial_function (option) hash_loop ::
  "hash_fn \<Rightarrow> bytes \<Rightarrow> int \<Rightarrow> Request \<Rightarrow> int \<Rightarrow> int \<Rightarrow> bytes option \<Rightarrow> bytes list
     \<Rightarrow> (py_exn + bytes list) option" where
  "hash_loop hf none_hash block_size r start_token_idx curr_mm_idx prev acc =
     (let end_token_idx = start_token_idx + block_size
      in if end_token_idx > num_tokens r then Some (Inr acc)
         else
           (case generate_block_hash_extra_keys r start_token_idx end_token_idx curr_mm_idx of
              Inl e \<Rightarrow> Some (Inl e)
            | Inr (extra_keys, idx) \<Rightarrow>
                (let h = hash_block_tokens hf none_hash prev
                           (py_slice (all_token_ids r) start_token_idx end_token_idx) extra_keys
                 in hash_loop hf none_hash block_size r (start_token_idx + block_size) idx (Some h)
                      (acc @ [h]))))"

definition request_block_hasher :: "hash_fn \<Rightarrow> bytes \<Rightarrow> int \<Rightarrow> block_hasher" where
  "request_block_hasher hf none_hash block_size r =
     (let start_token_idx = int (length (block_hashes r)) * block_size
      in if start_token_idx + block_size > num_tokens r then Some (Inr [])
         else
           hash_loop hf none_hash block_size r start_token_idx
             (if start_token_idx > 0 then -1 else 0)
             (if block_hashes r = [] then None else Some (last (block_hashes r))) [])"

section \<open>The content of a block\<close>

text \<open>What is hashed with the parent hash: the tokens and the extra keys of a block.  \<open>contents\<close>
  gives them for \<open>n\<close> blocks from block \<open>k\<close> on.\<close>

fun contents ::
  "Request \<Rightarrow> int \<Rightarrow> nat \<Rightarrow> nat \<Rightarrow> int \<Rightarrow> py_exn + (int list \<times> extra_key list option) list" where
  "contents r bs k 0 idx = Inr []"
| "contents r bs k (Suc n) idx =
     bindE (generate_block_hash_extra_keys r (int k * bs) (int k * bs + bs) idx) (\<lambda>(keys, idx').
     bindE (contents r bs (Suc k) n idx') (\<lambda>cs.
     Inr ((py_slice (all_token_ids r) (int k * bs) (int k * bs + bs), keys) # cs)))"

fun chain_hashes ::
  "hash_fn \<Rightarrow> bytes \<Rightarrow> bytes option \<Rightarrow> (int list \<times> extra_key list option) list \<Rightarrow> bytes list" where
  "chain_hashes hf none_hash prev [] = []"
| "chain_hashes hf none_hash prev (c # cs) =
     (let h = hash_block_tokens hf none_hash prev (fst c) (snd c)
      in h # chain_hashes hf none_hash (Some h) cs)"

lemma length_chain_hashes [simp]: "length (chain_hashes hf nh p cs) = length cs"
  by (induction cs arbitrary: p) (simp_all add: Let_def)

lemma length_contents: "contents r bs k n idx = Inr cs \<Longrightarrow> length cs = n"
  by (induction n arbitrary: k idx cs) auto

text \<open>The loop returns, and hashes the contents of the remaining full blocks.\<close>

lemma hash_loop_contents:
  assumes "0 < bs"
  shows "num_tokens r div bs = int (k + n) \<Longrightarrow>
     hash_loop hf nh bs r (int k * bs) idx prev acc
     = Some (bindE (contents r bs k n idx) (\<lambda>cs. Inr (acc @ chain_hashes hf nh prev cs)))"
proof (induction n arbitrary: k idx prev acc)
  case 0
  have "num_tokens r < (int k + 1) * bs"
    using 0 assms by (metis add.right_neutral div_mult_mod_eq distrib_right mult_1 pos_mod_bound add_less_cancel_left)
  then show ?case by (subst hash_loop.simps) (simp add: Let_def distrib_right)
next
  case (Suc n)
  have "int (Suc k) * bs \<le> (num_tokens r div bs) * bs"
    using Suc.prems assms by (simp add: mult_right_mono)
  also have "\<dots> \<le> num_tokens r" using assms by (simp add: mult.commute minus_mod_eq_mult_div [symmetric])
  finally have le: "int k * bs + bs \<le> num_tokens r" by (simp add: distrib_right)
  have s: "int k * bs + bs = int (Suc k) * bs" by (simp add: distrib_right)
  show ?case
    using Suc.IH [of "Suc k"] Suc.prems le
    by (subst hash_loop.simps)
      (auto simp: Let_def s bindE_assoc split: sum.split)
qed


section \<open>The hasher returns\<close>

definition full_block_count :: "int \<Rightarrow> Request \<Rightarrow> nat" where
  "full_block_count bs r = nat (num_tokens r div bs)"

lemma full_block_count_int: "0 < bs \<Longrightarrow> int (full_block_count bs r) = num_tokens r div bs"
  by (simp add: full_block_count_def num_tokens_def pos_imp_zdiv_nonneg_iff)

lemma full_block_le: "0 < bs \<Longrightarrow> k < full_block_count bs r \<longleftrightarrow> int k * bs + bs \<le> num_tokens r"
proof -
  assume bs: "0 < bs"
  have "int k < num_tokens r div bs \<longleftrightarrow> int k + 1 \<le> num_tokens r div bs" by linarith
  also have "\<dots> \<longleftrightarrow> (int k + 1) * bs \<le> num_tokens r" using bs by (rule le_div_iff_mult)
  finally have "int k < int (full_block_count bs r) \<longleftrightarrow> int k * bs + bs \<le> num_tokens r"
    unfolding full_block_count_int [OF bs] by (simp add: distrib_right)
  then show ?thesis by simp
qed

lemma hasher_contents:
  assumes "0 < bs" and "length (block_hashes r) \<le> full_block_count bs r"
  shows "request_block_hasher hf nh bs r
    = Some (bindE (contents r bs (length (block_hashes r)) (full_block_count bs r - length (block_hashes r))
                     (if block_hashes r = [] then 0 else -1))
        (\<lambda>cs. Inr (chain_hashes hf nh (if block_hashes r = [] then None else Some (last (block_hashes r))) cs)))"
proof -
  let ?k = "length (block_hashes r)" and ?n = "full_block_count bs r"
  have "num_tokens r div bs = int (?k + (?n - ?k))"
    using assms full_block_count_int [OF assms(1), of r] by simp
  note loop = hash_loop_contents [OF assms(1) this, where acc = "[]"]
  have pos: "0 < int ?k * bs \<longleftrightarrow> block_hashes r \<noteq> []" using assms(1) by (simp add: zero_less_mult_iff)
  show ?thesis
  proof (cases "?k = ?n")
    case True
    then show ?thesis using full_block_le [OF assms(1), of ?k r]
      by (simp add: request_block_hasher_def Let_def)
  next
    case False
    then have "\<not> int ?k * bs + bs > num_tokens r"
      using full_block_le [OF assms(1), of ?k r] assms(2) by simp
    then show ?thesis using loop pos by (simp add: request_block_hasher_def Let_def)
  qed
qed

text \<open>The index into the multi-modal inputs starts at the first or the last of them and never goes
  below, so that the assertion on it holds.\<close>

lemma extra_keys_total:
  assumes "-1 \<le> idx"
  obtains keys idx' where "generate_block_hash_extra_keys r a b idx = Inr (keys, idx')" "-1 \<le> idx'"
proof -
  have "\<exists>ks idx'. gen_mm_extra_hash_keys r a b idx = Inr (ks, idx') \<and> -1 \<le> idx'"
  proof (cases "mm_features r = [] \<or> mm_offset (mm_position (last (mm_features r)))
      + mm_length (mm_position (last (mm_features r))) < a")
    case False
    have "- idx \<le> int (length (mm_features r))"
      using assms False by (cases "mm_features r") auto
    then show ?thesis
      using False
      by (cases "mm_keys_loop (mm_features r) a b (nat (if idx < 0 then int (length (mm_features r)) + idx else idx)) []")
        (auto simp: gen_mm_extra_hash_keys_def Let_def raise_if_def apsnd_def)
  qed (use assms in \<open>auto simp: gen_mm_extra_hash_keys_def Let_def\<close>)
  then show ?thesis using that by (auto simp: generate_block_hash_extra_keys_def Let_def)
qed

lemma contents_total: "-1 \<le> idx \<Longrightarrow> \<exists>cs. contents r bs k n idx = Inr cs"
proof (induction n arbitrary: k idx)
  case (Suc n)
  obtain keys idx' where "generate_block_hash_extra_keys r (int k * bs) (int k * bs + bs) idx = Inr (keys, idx')"
    "-1 \<le> idx'" using extra_keys_total [OF Suc.prems] .
  moreover obtain cs where "contents r bs (Suc k) n idx' = Inr cs" using Suc.IH \<open>-1 \<le> idx'\<close> by blast
  ultimately show ?case by simp
qed simp

text \<open>C18.  For every positive block size and every request with at most one hash per full block the
  hasher returns, raises nothing, and yields exactly one hash for each full block that has none
  yet.\<close>

theorem hasher_one_hash_per_block:
  assumes "0 < bs" and "int (length (block_hashes r)) * bs \<le> num_tokens r"
  shows "\<exists>hs. request_block_hasher hf nh bs r = Some (Inr hs)
    \<and> int (length (block_hashes r) + length hs) = num_tokens r div bs"
proof -
  have le: "length (block_hashes r) \<le> full_block_count bs r"
  proof -
    have "int (length (block_hashes r)) \<le> int (full_block_count bs r)"
      unfolding full_block_count_int [OF assms(1)] using assms(2) le_div_iff_mult [OF assms(1)] by blast
    then show ?thesis by simp
  qed
  obtain cs where cs: "contents r bs (length (block_hashes r)) (full_block_count bs r - length (block_hashes r))
      (if block_hashes r = [] then 0 else -1) = Inr cs"
    using contents_total [of "if block_hashes r = [] then 0 else -1"] by fastforce
  then show ?thesis
    using hasher_contents [OF assms(1) le, of hf nh] full_block_count_int [OF assms(1), of r] le length_contents [OF cs]
    by (simp flip: of_nat_add)
qed

theorem hasher_one_hash_per_block_witness:
  "\<exists>hs. request_block_hasher (\<lambda>_. [1]) [] 2 (sample_request [1, 2, 3, 4, 5] []) = Some (Inr hs) \<and> length hs = 2"
proof -
  have "block_hashes (sample_request [1, 2, 3, 4, 5] []) = []"
    and "num_tokens (sample_request [1, 2, 3, 4, 5] []) = 5" by code_simp+
  with hasher_one_hash_per_block [of 2 "sample_request [1, 2, 3, 4, 5] []" "\<lambda>_. [1]" "[]"]
  show ?thesis by auto
qed

section \<open>Incremental hashing\<close>

text \<open>Without multi-modal inputs the content of a block depends on the block alone.\<close>

definition block_content :: "Request \<Rightarrow> int \<Rightarrow> nat \<Rightarrow> int list \<times> extra_key list option" where
  "block_content r bs i =
     (let keys = gen_lora_extra_hash_keys r @ cache_salt_keys r (int i * bs)
                 @ gen_prompt_embeds_extra_hash_keys r (int i * bs) (int i * bs + bs)
      in (py_slice (all_token_ids r) (int i * bs) (int i * bs + bs),
          if keys = [] then None else Some keys))"

lemma contents_no_mm:
  assumes "mm_features r = []"
  shows "contents r bs k n idx = Inr (map (block_content r bs) [k..<k + n])"
proof -
  have keys: "generate_block_hash_extra_keys r (int i * bs) (int i * bs + bs) idx
      = Inr (snd (block_content r bs i), idx)" for i
    using assms by (simp add: generate_block_hash_extra_keys_def gen_mm_extra_hash_keys_def
        block_content_def Let_def)
  have pair: "(py_slice (all_token_ids r) (int i * bs) (int i * bs + bs), snd (block_content r bs i))
      = block_content r bs i" for i
    by (simp add: block_content_def Let_def)
  show ?thesis
    by (induction n arbitrary: k) (simp_all add: keys pair upt_conv_Cons del: upt_Suc)
qed

lemma chain_hashes_append:
  "chain_hashes hf nh p (cs @ ds) = chain_hashes hf nh p cs
     @ chain_hashes hf nh (if cs = [] then p else Some (last (chain_hashes hf nh p cs))) ds"
proof (induction cs arbitrary: p)
  case (Cons c cs)
  have "chain_hashes hf nh q cs = [] \<longleftrightarrow> cs = []" for q by (cases cs) (simp_all add: Let_def)
  then show ?case using Cons by (simp add: Let_def)
qed simp

lemma py_slice_append:
  assumes "0 \<le> i" and "0 \<le> j" and "j \<le> int (length xs)"
  shows "py_slice (xs @ ys) i j = py_slice xs i j"
proof -
  obtain a b where "i = int a" "j = int b" using assms by (metis zero_le_imp_eq_int)
  then show ?thesis using assms(3) by (simp add: py_slice_nat)
qed

lemma block_content_append:
  assumes "0 < bs" and "i < full_block_count bs r"
  shows "block_content (r\<lparr> output_token_ids := o', all_token_ids := all_token_ids r @ ts \<rparr>) bs i
    = block_content r bs i"
proof -
  have "int i * bs + bs \<le> int (length (all_token_ids r))"
    using full_block_le [OF assms(1)] assms(2) by (simp add: num_tokens_def)
  then show ?thesis
    using assms(1) py_slice_append [of "int i * bs" "int i * bs + bs" "all_token_ids r" ts]
    by (simp add: block_content_def Let_def gen_lora_extra_hash_keys_def cache_salt_keys_def
        gen_prompt_embeds_extra_hash_keys_def)
qed

text \<open>C19.  Hashing a text request incrementally is hashing it from scratch: when the hashes of a
  request without multi-modal inputs are those of its full blocks, then so they are after output
  tokens are appended, however the tokens are split into calls.\<close>

theorem incremental_hashing:
  assumes "0 < bs" and "mm_features r = []"
    and "request_block_hasher hf nh bs (r\<lparr> block_hashes := [] \<rparr>) = Some (Inr (block_hashes r))"
  shows "\<exists>r'. append_output_token_ids (Some (request_block_hasher hf nh bs)) ts r = Some (Inr r')
    \<and> all_token_ids r' = all_token_ids r @ ts
    \<and> request_block_hasher hf nh bs (r'\<lparr> block_hashes := [] \<rparr>) = Some (Inr (block_hashes r'))"
proof -
  let ?q = "r\<lparr> output_token_ids := output_token_ids r @ ts, all_token_ids := all_token_ids r @ ts \<rparr>"
  let ?n = "full_block_count bs r" and ?m = "full_block_count bs ?q"
  have bc: "block_content (s\<lparr> block_hashes := hs \<rparr>) = block_content s" for s hs
    by (intro ext) (simp add: block_content_def gen_lora_extra_hash_keys_def cache_salt_keys_def
        gen_prompt_embeds_extra_hash_keys_def)
  have scratch: "request_block_hasher hf nh bs (s\<lparr> block_hashes := [] \<rparr>)
      = Some (Inr (chain_hashes hf nh None (map (block_content s bs) [0..<full_block_count bs s])))"
    if "mm_features s = []" for s :: Request
    using hasher_contents [OF assms(1), of "s\<lparr> block_hashes := [] \<rparr>"] contents_no_mm [of "s\<lparr> block_hashes := [] \<rparr>" bs] that
    by (simp add: bc full_block_count_def num_tokens_def)
  have hs: "block_hashes r = chain_hashes hf nh None (map (block_content r bs) [0..<?n])"
    using scratch [OF assms(2)] assms(3) by simp
  then have len: "length (block_hashes r) = ?n" by simp
  have "num_tokens r \<le> num_tokens ?q" by (simp add: num_tokens_def)
  then have nm: "?n \<le> ?m" using assms(1) by (simp add: full_block_count_def zdiv_mono1 nat_mono)
  have same: "map (block_content r bs) [0..<?n] = map (block_content ?q bs) [0..<?n]"
    using block_content_append [OF assms(1)] by simp
  let ?p = "if block_hashes r = [] then None else Some (last (block_hashes r))"
  have inc: "request_block_hasher hf nh bs ?q
      = Some (Inr (chain_hashes hf nh ?p (map (block_content ?q bs) [?n..<?m])))"
    using hasher_contents [OF assms(1), of ?q hf nh] contents_no_mm [of ?q bs] assms(2) nm len by simp
  have split: "[0..<?m] = [0..<?n] @ [?n..<?m]" using nm by (metis le_add_diff_inverse le0 upt_add_eq_append)
  have "map (block_content r bs) [0..<?n] = [] \<longleftrightarrow> block_hashes r = []" using len by (simp flip: length_0_conv)
  then have "chain_hashes hf nh None (map (block_content ?q bs) [0..<?m])
      = block_hashes r @ chain_hashes hf nh ?p (map (block_content ?q bs) [?n..<?m])"
    unfolding split map_append chain_hashes_append same [symmetric] hs [symmetric] by simp
  then show ?thesis
    using inc scratch [of ?q] assms(2) by (simp add: append_output_token_ids_def Let_def)
qed


theorem incremental_hashing_witness:
  "\<exists>r'. append_output_token_ids (Some (request_block_hasher (\<lambda>x. fst x @ [1]) [] 2)) [8, 9]
        ((sample_request [5, 6, 7] [])\<lparr> block_hashes := [[1]] \<rparr>) = Some (Inr r')
     \<and> all_token_ids r' = [5, 6, 7, 8, 9]"
proof -
  let ?r = "(sample_request [5, 6, 7] [])\<lparr> block_hashes := [[1]] \<rparr>"
  have 1: "mm_features ?r = []" by (simp add: sample_request_def)
  have n: "full_block_count 2 (?r\<lparr> block_hashes := [] \<rparr>) = 1" "block_hashes (?r\<lparr> block_hashes := [] \<rparr>) = []"
    by code_simp+
  have "contents (?r\<lparr> block_hashes := [] \<rparr>) 2 0 1 0 = Inr [([5, 6], None)]" by code_simp
  then have 2: "request_block_hasher (\<lambda>x. fst x @ [1]) [] 2 (?r\<lparr> block_hashes := [] \<rparr>)
      = Some (Inr (block_hashes ?r))"
    using hasher_contents [of 2 "?r\<lparr> block_hashes := [] \<rparr>" "\<lambda>x. fst x @ [1]" "[]"] n
    by (simp add: hash_block_tokens_def Let_def del: contents.simps One_nat_def bindE_Inr_iff)
  have "all_token_ids ?r = [5, 6, 7]" by (simp add: sample_request_def)
  then show ?thesis
    using incremental_hashing [OF _ 1 2, of "[8, 9]"] by auto
qed

section \<open>What a hash identifies\<close>

lemma chain_hashes_nth:
  assumes "i < length cs"
  shows "chain_hashes hf nh p cs ! i
    = hash_block_tokens hf nh (if i = 0 then p else Some (chain_hashes hf nh p cs ! (i - 1)))
        (fst (cs ! i)) (snd (cs ! i))"
  using assms
proof (induction cs arbitrary: p i)
  case (Cons c cs)
  then show ?case by (cases i; cases "i - 1") (auto simp: Let_def)
qed simp

text \<open>What the prefix cache needs of the hash function: no collisions, and neither the seed nor the
  empty string is a hash.\<close>

definition collision_free :: "hash_fn \<Rightarrow> bytes \<Rightarrow> bool" where
  "collision_free hf nh \<longleftrightarrow> inj hf \<and> nh \<notin> range hf \<and> [] \<notin> range hf"

lemma chain_hashes_inj:
  assumes "collision_free hf nh"
  shows "i < length cs \<Longrightarrow> j < length ds \<Longrightarrow>
    chain_hashes hf nh None cs ! i = chain_hashes hf nh None ds ! j \<Longrightarrow>
    i = j \<and> take (Suc i) cs = take (Suc i) ds"
proof (induction i arbitrary: j)
  case 0
  let ?H = "chain_hashes hf nh None"
  have nz: "?H ds ! k \<noteq> [] \<and> ?H ds ! k \<noteq> nh" if "k < length ds" for k
    using chain_hashes_nth [OF that, of hf nh None] assms
    by (auto simp: collision_free_def hash_block_tokens_def intro!: rangeI dest: sym)
  have "j = 0"
  proof (rule ccontr)
    assume j: "j \<noteq> 0"
    then have "j - 1 < length ds" using 0 by simp
    then show False
      using 0 j chain_hashes_nth [OF 0(1), of hf nh None] chain_hashes_nth [OF 0(2), of hf nh None] nz [of "j - 1"] assms
      by (auto simp: collision_free_def hash_block_tokens_def dest!: injD)
  qed
  then show ?case
    using 0 chain_hashes_nth [OF 0(1), of hf nh None] chain_hashes_nth [OF 0(2), of hf nh None] assms
    by (cases cs; cases ds) (auto simp: collision_free_def hash_block_tokens_def prod_eq_iff dest!: injD)
next
  case (Suc i)
  let ?H = "chain_hashes hf nh None"
  have nz: "?H xs ! k \<noteq> [] \<and> ?H xs ! k \<noteq> nh" if "k < length xs" for xs k
    using chain_hashes_nth [OF that, of hf nh None] assms
    by (auto simp: collision_free_def hash_block_tokens_def intro!: rangeI dest: sym)
  have i: "i < length cs" using Suc.prems by simp
  have eq: "hf (?H cs ! i, cs ! Suc i) = hf (if j = 0 then nh else ?H ds ! (j - 1), ds ! j)"
    using Suc.prems chain_hashes_nth [OF Suc.prems(1), of hf nh None] chain_hashes_nth [OF Suc.prems(2), of hf nh None]
      nz [OF i] nz [of "j - 1" ds] by (auto simp: hash_block_tokens_def split: if_splits)
  moreover have "hf x = hf y \<longleftrightarrow> x = y" for x y using assms by (simp add: collision_free_def inj_eq)
  ultimately have eq': "?H cs ! i = (if j = 0 then nh else ?H ds ! (j - 1))" "cs ! Suc i = ds ! j"
    by blast+
  then obtain k where k: "j = Suc k" using nz [OF i] by (cases j) auto
  then have "i = k \<and> take (Suc i) cs = take (Suc i) ds"
    using Suc.IH [OF i, of k] Suc.prems(2) eq'(1) by auto
  then show ?case
    using k eq'(2) Suc.prems(1,2) take_Suc_conv_app_nth [of "Suc i" cs] take_Suc_conv_app_nth [of "Suc i" ds] by auto
qed


lemma contents_tokens:
  assumes "contents r bs 0 n idx = Inr cs" and "0 < bs" and "k \<le> n"
  shows "concat (map fst (take k cs)) = take (k * nat bs) (all_token_ids r)"
proof -
  define b where "b = nat bs"
  have bs: "bs = int b" using assms(2) by (simp add: b_def)
  have "contents r bs m l idx = Inr cs \<Longrightarrow>
      map fst cs = map (\<lambda>i. drop (i * b) (take (i * b + b) (all_token_ids r))) [m..<m + l]" for m l idx cs
  proof (induction l arbitrary: m idx cs)
    case (Suc l)
    have "py_slice (all_token_ids r) (int m * int b) (int m * int b + int b)
        = drop (m * b) (take (m * b + b) (all_token_ids r))"
      using py_slice_nat [of "all_token_ids r" "m * b" "m * b + b"] by simp
    then show ?case using Suc by (auto simp: bs upt_conv_Cons simp del: upt_Suc)
  qed simp
  from this [OF assms(1)] have fsts: "map fst cs = map (\<lambda>i. drop (i * b) (take (i * b + b) (all_token_ids r))) [0..<n]"
    by simp
  have "concat (take k (map fst cs)) = take (k * b) (all_token_ids r)"
    using assms(3)
  proof (induction k)
    case (Suc k)
    have "take (k * b) xs @ drop (k * b) (take (k * b + b) xs) = take (k * b + b) xs" for xs :: "int list"
      by (metis append_take_drop_id take_take min.absorb1 le_add1)
    then show ?case using Suc by (simp add: fsts take_map take_Suc_conv_app_nth add.commute)
  qed simp
  then show ?thesis by (simp add: b_def take_map)
qed

text \<open>The hashes of a request that is hashed from the start, as the chain over its block contents.\<close>

lemma hasher_chain:
  assumes "0 < bs" and "request_block_hasher hf nh bs (r\<lparr> block_hashes := [] \<rparr>) = Some (Inr hs)"
  shows "\<exists>cs. contents (r\<lparr> block_hashes := [] \<rparr>) bs 0 (length hs) 0 = Inr cs \<and> hs = chain_hashes hf nh None cs"
proof -
  obtain cs where "contents (r\<lparr> block_hashes := [] \<rparr>) bs 0 (full_block_count bs (r\<lparr> block_hashes := [] \<rparr>)) 0 = Inr cs"
    "hs = chain_hashes hf nh None cs"
    using assms(2) hasher_contents [OF assms(1), of "r\<lparr> block_hashes := [] \<rparr>" hf nh] by auto
  then show ?thesis using length_contents by force
qed

text \<open>C20.  Equal block hashes mean equal prefixes, for hashes computed from scratch: for a hash function
  without collisions, when all full blocks of two requests are hashed in one call each and block
  \<open>i\<close> of one request and block \<open>j\<close> of the other have the same hash, then they stand at the same position
  and the requests agree in all tokens up to the end of the block and in the extra keys of every
  block up to it.\<close>

theorem equal_hashes_equal_prefixes:
  assumes "0 < bs" and "collision_free hf nh"
    and "request_block_hasher hf nh bs (r1\<lparr> block_hashes := [] \<rparr>) = Some (Inr hs1)"
    and "request_block_hasher hf nh bs (r2\<lparr> block_hashes := [] \<rparr>) = Some (Inr hs2)"
    and "i < length hs1" and "j < length hs2" and "hs1 ! i = hs2 ! j"
  shows "i = j \<and> take (Suc i * nat bs) (all_token_ids r1) = take (Suc i * nat bs) (all_token_ids r2)
    \<and> (\<exists>cs1 cs2. contents (r1\<lparr> block_hashes := [] \<rparr>) bs 0 (length hs1) 0 = Inr cs1
      \<and> contents (r2\<lparr> block_hashes := [] \<rparr>) bs 0 (length hs2) 0 = Inr cs2
      \<and> map snd (take (Suc i) cs1) = map snd (take (Suc i) cs2))"
proof -
  obtain cs1 where cs1: "contents (r1\<lparr> block_hashes := [] \<rparr>) bs 0 (length hs1) 0 = Inr cs1"
    "hs1 = chain_hashes hf nh None cs1" using hasher_chain [OF assms(1,3)] by blast
  obtain cs2 where cs2: "contents (r2\<lparr> block_hashes := [] \<rparr>) bs 0 (length hs2) 0 = Inr cs2"
    "hs2 = chain_hashes hf nh None cs2" using hasher_chain [OF assms(1,4)] by blast
  have ij: "i = j" "take (Suc i) cs1 = take (Suc i) cs2"
    using chain_hashes_inj [OF assms(2), of i cs1 j cs2] assms(5-7) cs1 cs2 by auto
  then show ?thesis
    using contents_tokens [OF cs1(1) assms(1), of "Suc i"] contents_tokens [OF cs2(1) assms(1), of "Suc i"]
      assms(5,6) cs1(1) cs2(1) by simp
qed

instance extra_key :: countable
  by countable_datatype

text \<open>A hash function without collisions: the number of the input, in unary.\<close>

definition unary_hash :: hash_fn where
  "unary_hash x = replicate (Suc (to_nat x)) 0"

lemma unary_hash_collision_free: "collision_free unary_hash []"
proof -
  have "x = y" if "unary_hash x = unary_hash y" for x y
  proof -
    have "length (unary_hash x) = length (unary_hash y)" using that by simp
    then show ?thesis by (simp add: unary_hash_def)
  qed
  then show ?thesis by (auto simp: collision_free_def unary_hash_def intro!: injI)
qed

definition sample_hashes :: "bytes list" where
  "sample_hashes = chain_hashes unary_hash [] None [([5, 6], None)]"

lemma length_sample_hashes [simp]: "length sample_hashes = 1"
  by (simp add: sample_hashes_def)

lemma sample_hasher:
  assumes "out = [] \<or> out = [7] \<or> out = [8]"
  shows "request_block_hasher unary_hash [] 2 ((sample_request [5, 6] out)\<lparr> block_hashes := [] \<rparr>) = Some (Inr sample_hashes)"
proof -
  let ?r = "(sample_request [5, 6] out)\<lparr> block_hashes := [] \<rparr>"
  have "full_block_count 2 ?r = 1" using assms by (elim disjE) (simp_all, code_simp+)
  moreover have "contents ?r 2 0 1 0 = Inr [([5, 6], None)]"
    using assms by (elim disjE) (simp_all del: contents.simps One_nat_def, code_simp+)
  ultimately show ?thesis
    using hasher_contents [of 2 ?r unary_hash "[]"] unfolding sample_hashes_def
    by (simp del: contents.simps One_nat_def bindE_Inr_iff chain_hashes.simps)
qed

theorem equal_hashes_equal_prefixes_witness:
  "take 2 (all_token_ids (sample_request [5, 6] [])) = take 2 (all_token_ids (sample_request [5, 6] [7]))"
proof -
  have "take (Suc 0 * nat 2) (all_token_ids (sample_request [5, 6] []))
      = take (Suc 0 * nat 2) (all_token_ids (sample_request [5, 6] [7]))"
    using equal_hashes_equal_prefixes [OF _ unary_hash_collision_free sample_hasher sample_hasher, of "[]" "[7]" 0 0]
    by (simp del: contents.simps)
  then show ?thesis by simp
qed


section \<open>Two gaps in the extra keys\<close>

text \<open>A prompt of six tokens with two one-token images at positions 4 and 5; \<open>hs\<close> are the hashes of
  its full blocks of four tokens.\<close>

definition image_request :: "string \<Rightarrow> bytes list \<Rightarrow> Request" where
  "image_request first_image hs =
     (sample_request [1, 2, 3, 4, 0, 0] [])
       \<lparr> mm_features :=
           [\<lparr> mm_identifier = first_image, mm_position = \<lparr> mm_offset = 4, mm_length = 1 \<rparr> \<rparr>,
            \<lparr> mm_identifier = ''fox'', mm_position = \<lparr> mm_offset = 5, mm_length = 1 \<rparr> \<rparr>],
         block_hashes := hs \<rparr>"

lemma image_contents:
  "contents (image_request a []) 4 0 1 0 = Inr [([1, 2, 3, 4], None)]"
  "contents ((image_request a [h])\<lparr> output_token_ids := [7, 8], all_token_ids := [1, 2, 3, 4, 0, 0, 7, 8] \<rparr>)
     4 1 1 (-1) = Inr [([0, 0, 7, 8], Some [KeyStr ''fox''])]"
  "contents ((image_request a hs)\<lparr> output_token_ids := [7, 8], all_token_ids := [1, 2, 3, 4, 0, 0, 7, 8] \<rparr>)
     4 0 2 0 = Inr [([1, 2, 3, 4], None), ([0, 0, 7, 8], Some [KeyStr a, KeyStr ''fox''])]"
  by (simp_all add: image_request_def sample_request_def generate_block_hash_extra_keys_def
      gen_mm_extra_hash_keys_def gen_lora_extra_hash_keys_def cache_salt_keys_def numeral_2_eq_2
      gen_prompt_embeds_extra_hash_keys_def Let_def mm_keys_loop.simps py_slice_def slice_index_def)

lemma image_counts:
  "full_block_count 4 (image_request a []) = 1"
  "full_block_count 4 ((image_request a [h])\<lparr> output_token_ids := [7, 8], all_token_ids := [1, 2, 3, 4, 0, 0, 7, 8] \<rparr>) = 2"
  by (simp_all add: image_request_def sample_request_def full_block_count_def num_tokens_def)

text \<open>The incremental hasher looks at the last multi-modal input only.  Two requests that differ
  in an image of their last, partly filled prompt block get the same hash for that block once output
  tokens complete it, whatever the hash function, although hashing their blocks from the start tells
  them apart.\<close>

lemma incremental_mm_collision:
  "\<exists>h r1 r2.
     request_block_hasher hf nh 4 (image_request ''cat'' []) = Some (Inr [h])
     \<and> request_block_hasher hf nh 4 (image_request ''dog'' []) = Some (Inr [h])
     \<and> append_output_token_ids (Some (request_block_hasher hf nh 4)) [7, 8] (image_request ''cat'' [h]) = Some (Inr r1)
     \<and> append_output_token_ids (Some (request_block_hasher hf nh 4)) [7, 8] (image_request ''dog'' [h]) = Some (Inr r2)
     \<and> length (block_hashes r1) = 2 \<and> block_hashes r1 = block_hashes r2
     \<and> contents r1 4 0 2 0 \<noteq> contents r2 4 0 2 0"
proof -
  let ?h = "hf (nh, [1, 2, 3, 4], None)"
  let ?g = "hash_block_tokens hf nh (Some ?h) [0, 0, 7, 8] (Some [KeyStr ''fox''])"
  let ?q = "\<lambda>a. (image_request a [?h])\<lparr> output_token_ids := [7, 8], all_token_ids := [1, 2, 3, 4, 0, 0, 7, 8] \<rparr>"
  have bh: "block_hashes (image_request a hs) = hs" "output_token_ids (image_request a hs) = []"
    "all_token_ids (image_request a hs) = [1, 2, 3, 4, 0, 0]" for a hs
    by (simp_all add: image_request_def sample_request_def)
  have 1: "request_block_hasher hf nh 4 (image_request a []) = Some (Inr [?h])" for a
    using hasher_contents [of 4 "image_request a []" hf nh] image_contents(1) [of a] image_counts(1) [of a] bh
    by (simp add: hash_block_tokens_def Let_def del: contents.simps One_nat_def bindE_Inr_iff)
  have 2: "request_block_hasher hf nh 4 (?q a) = Some (Inr [?g])" for a
    using hasher_contents [of 4 "?q a" hf nh] image_contents(2) [of a ?h] image_counts(2) [of a ?h] bh
    by (simp add: Let_def del: contents.simps bindE_Inr_iff)
  have 3: "append_output_token_ids (Some (request_block_hasher hf nh 4)) [7, 8] (image_request a [?h])
      = Some (Inr ((?q a)\<lparr> block_hashes := [?h, ?g] \<rparr>))" for a
    using 2 [of a] by (simp add: append_output_token_ids_def Let_def bh)
  have 4: "contents ((?q a)\<lparr> block_hashes := [?h, ?g] \<rparr>) 4 0 2 0
      = Inr [([1, 2, 3, 4], None), ([0, 0, 7, 8], Some [KeyStr a, KeyStr ''fox''])]" for a
    using image_contents(3) [of a "[?h, ?g]"] by (simp add: image_request_def sample_request_def del: contents.simps)
  show ?thesis using 1 3 4 [of "''cat''"] 4 [of "''dog''"] by auto
qed

text \<open>The extra keys are not tagged by their origin: the first block of a request under a LoRA
  adapter has the hash of the same tokens under a cache salt that spells the adapter's name.\<close>

lemma lora_salt_collision:
  "request_block_hasher hf nh 2 ((sample_request [5, 6] [])\<lparr> lora_request := Some \<lparr> lora_name = ''x'', lora_int_id = 1 \<rparr> \<rparr>)
   = request_block_hasher hf nh 2 ((sample_request [5, 6] [])\<lparr> cache_salt := Some ''x'' \<rparr>)"
proof -
  let ?l = "(sample_request [5, 6] [])\<lparr> lora_request := Some \<lparr> lora_name = ''x'', lora_int_id = 1 \<rparr> \<rparr>"
  let ?s = "(sample_request [5, 6] [])\<lparr> cache_salt := Some ''x'' \<rparr>"
  have "contents ?l 2 0 1 0 = Inr [([5, 6], Some [KeyStr ''x''])]"
    and "contents ?s 2 0 1 0 = Inr [([5, 6], Some [KeyStr ''x''])]"
    and "full_block_count 2 ?l = 1" and "full_block_count 2 ?s = 1"
    and "block_hashes ?l = []" and "block_hashes ?s = []" by code_simp+
  then show ?thesis
    using hasher_contents [of 2 ?l hf nh] hasher_contents [of 2 ?s hf nh]
    by (simp del: contents.simps One_nat_def)
qed

end
