(* ===== verification/Block_Pool.thy ===== *)
theory Block_Pool
  imports Complex_Main Free_Block_Queue Block_Map Block_Hash
begin

text \<open>
  The pool of KV-cache blocks (\<open>BlockPool\<close> in \<open>vllm/v1/core/block_pool.py\<close>): allocation with
  eviction, sharing by reference counts, freeing, caching of full blocks and the cache events.
  The attributes of the blocks live in the store of the free list.
  \<open>use_int\<close> is \<open>envs.VLLM_KV_EVENTS_USE_INT_BLOCK_HASHES\<close>.
\<close>

section \<open>State\<close>

text \<open>The events of \<open>vllm/distributed/kv_events.py\<close>; the medium is always the GPU here.\<close>

datatype kv_event =
    BlockStored "external_hash list" "external_hash option" "int list" int "int option"
  | BlockRemoved "external_hash list"
  | AllBlocksCleared

record block_pool =
  num_gpu_blocks :: nat
  enable_caching :: bool
  free_block_queue :: free_queue
  cached_block_hash_to_block :: block_map
  null_block :: ref
  enable_kv_cache_events :: bool
  kv_event_queue :: "kv_event list"

abbreviation blk :: "block_pool \<Rightarrow> heap" where
  "blk p \<equiv> fq_heap (free_block_queue p)"

definition set_heap :: "heap \<Rightarrow> block_pool \<Rightarrow> block_pool" where
  "set_heap h p = p\<lparr> free_block_queue := (free_block_queue p)\<lparr> fq_heap := h \<rparr> \<rparr>"

abbreviation numbers :: "block_pool \<Rightarrow> ref \<Rightarrow> int" where
  "numbers p \<equiv> \<lambda>b. block_id (blk p b)"

section \<open>Operations\<close>

definition init_pool :: "nat \<Rightarrow> bool \<Rightarrow> bool \<Rightarrow> py_exn + block_pool" where
  "init_pool n caching kv_events =
     bindE (raise_if (\<not> n > 0) (AssertionError [])) (\<lambda>_.
     bindE (popleft (init_queue (map Blk [0..<n]) fresh_heap)) (\<lambda>(b, q).
     Inr \<lparr> num_gpu_blocks = n, enable_caching = caching,
            free_block_queue = q\<lparr> fq_heap := (fq_heap q)(b := (fq_heap q b)\<lparr> is_null := True \<rparr>) \<rparr>,
            cached_block_hash_to_block = (\<lambda>_. None), null_block = b,
            enable_kv_cache_events = kv_events, kv_event_queue = [] \<rparr>))"

fun get_cached_block :: "bytes \<Rightarrow> nat list \<Rightarrow> block_pool \<Rightarrow> py_exn + ref list option" where
  "get_cached_block h [] p = Inr (Some [])"
| "get_cached_block h (g # gs) p =
     bindE (make_block_hash_with_group_id h g) (\<lambda>k.
     bindE (get_one_block k (cached_block_hash_to_block p)) (\<lambda>r.
     case r of
       None \<Rightarrow> Inr None
     | Some b \<Rightarrow> bindE (get_cached_block h gs p) (\<lambda>rest. Inr (map_option (\<lambda>bs. b # bs) rest))))"

text \<open>The loop of \<open>cache_full_blocks\<close>, which also collects the external hashes.\<close>

fun cache_loop ::
  "bool \<Rightarrow> nat \<Rightarrow> ref list \<Rightarrow> bytes list \<Rightarrow> block_pool \<times> external_hash list
     \<Rightarrow> py_exn + (block_pool \<times> external_hash list)" where
  "cache_loop use_int group_id [] hs st = Inr st"
| "cache_loop use_int group_id (b # bs) hs (p, new_hashes) =
     bindE (raise_if (block_hash (blk p b) \<noteq> None) (AssertionError [])) (\<lambda>_.
     case hs of
       [] \<Rightarrow> Inl IndexError
     | h # hs' \<Rightarrow>
         bindE (make_block_hash_with_group_id h group_id) (\<lambda>k.
         bindE (set_block_hash b k (blk p)) (\<lambda>heap1.
         let p1 = set_heap heap1 p;
             p2 = p1\<lparr> cached_block_hash_to_block :=
                        insert_block (numbers p1) k b (cached_block_hash_to_block p1) \<rparr>
         in cache_loop use_int group_id bs hs'
              (p2, new_hashes @ [maybe_convert_block_hash use_int h]))))"

definition parent_hash :: "bool \<Rightarrow> ref list \<Rightarrow> int \<Rightarrow> block_pool \<Rightarrow> py_exn + external_hash option" where
  "parent_hash use_int blocks num_cached_blocks p =
     (if num_cached_blocks = 0 then Inr None
      else if nat (num_cached_blocks - 1) \<ge> length blocks then Inl IndexError
      else
        bindE (of_option (AssertionError []) (block_hash (blk p (blocks ! nat (num_cached_blocks - 1))))) (\<lambda>k.
        Inr (Some (maybe_convert_block_hash use_int (get_block_hash k)))))"

definition cache_full_blocks ::
  "bool \<Rightarrow> Request \<Rightarrow> ref list \<Rightarrow> int \<Rightarrow> int \<Rightarrow> int \<Rightarrow> nat \<Rightarrow> block_pool \<Rightarrow> py_exn + block_pool" where
  "cache_full_blocks use_int request blocks num_cached_blocks num_full_blocks block_size group_id p =
     (if num_cached_blocks \<ge> num_full_blocks then Inr p
      else
        bindE (raise_if (\<not> int (length (block_hashes request)) \<ge> num_full_blocks) (AssertionError [])) (\<lambda>_.
        bindE (cache_loop use_int group_id
                 (py_slice blocks num_cached_blocks num_full_blocks)
                 (drop (nat num_cached_blocks) (block_hashes request)) (p, [])) (\<lambda>(p1, new_hashes).
        if \<not> enable_kv_cache_events p1 then Inr p1
        else
          bindE (parent_hash use_int blocks num_cached_blocks p1) (\<lambda>parent.
          Inr (p1\<lparr> kv_event_queue := kv_event_queue p1
                     @ [BlockStored new_hashes parent
                          (py_slice (all_token_ids request)
                             (num_cached_blocks * block_size) (num_full_blocks * block_size))
                          block_size (map_option lora_int_id (lora_request request))] \<rparr>)))))"

definition get_num_free_blocks :: "block_pool \<Rightarrow> int" where
  "get_num_free_blocks p = num_free_blocks (free_block_queue p)"

definition maybe_evict_cached_block :: "bool \<Rightarrow> ref \<Rightarrow> block_pool \<Rightarrow> bool \<times> block_pool" where
  "maybe_evict_cached_block use_int b p =
     (case block_hash (blk p b) of
        None \<Rightarrow> (False, p)
      | Some k \<Rightarrow>
          (case pop_block (numbers p) k (numbers p b) (cached_block_hash_to_block p) of
             (None, m) \<Rightarrow> (False, p\<lparr> cached_block_hash_to_block := m \<rparr>)
           | (Some _, m) \<Rightarrow>
               (let p1 = set_heap (reset_hash b (blk p)) (p\<lparr> cached_block_hash_to_block := m \<rparr>)
                in (True,
                    if enable_kv_cache_events p1
                    then p1\<lparr> kv_event_queue := kv_event_queue p1
                               @ [BlockRemoved [maybe_convert_block_hash use_int (get_block_hash k)]] \<rparr>
                    else p1))))"

text \<open>The body of the two loops of \<open>get_new_blocks\<close>.\<close>

definition take_block :: "bool \<Rightarrow> ref \<Rightarrow> block_pool \<Rightarrow> py_exn + block_pool" where
  "take_block use_int b p =
     (let p1 = (if enable_caching p then snd (maybe_evict_cached_block use_int b p) else p)
      in bindE (raise_if (ref_cnt (blk p1 b) \<noteq> 0) (AssertionError [])) (\<lambda>_.
         Inr (set_heap (set_ref_cnt b (ref_cnt (blk p1 b) + 1) (blk p1)) p1)))"

definition get_new_blocks :: "bool \<Rightarrow> nat \<Rightarrow> block_pool \<Rightarrow> py_exn + (ref list \<times> block_pool)" where
  "get_new_blocks use_int n p =
     bindE (raise_if (int n > get_num_free_blocks p)
       (ValueError ''Cannot get free blocks from the pool'')) (\<lambda>_.
     bindE (popleft_n n (free_block_queue p)) (\<lambda>(ret, q).
     bindE (foldE (take_block use_int) ret (p\<lparr> free_block_queue := q \<rparr>)) (\<lambda>p1.
     Inr (ret, p1))))"

definition touch_block :: "ref \<Rightarrow> block_pool \<Rightarrow> py_exn + block_pool" where
  "touch_block b p =
     bindE (if ref_cnt (blk p b) = 0 \<and> \<not> is_null (blk p b)
            then bindE (remove_block b (free_block_queue p)) (\<lambda>q. Inr (p\<lparr> free_block_queue := q \<rparr>))
            else Inr p) (\<lambda>p1.
     Inr (set_heap (set_ref_cnt b (ref_cnt (blk p1 b) + 1) (blk p1)) p1))"

definition touch :: "ref list list \<Rightarrow> block_pool \<Rightarrow> py_exn + block_pool" where
  "touch blocks p = foldE (\<lambda>group. foldE touch_block group) blocks p"

definition free_blocks :: "ref list \<Rightarrow> block_pool \<Rightarrow> py_exn + block_pool" where
  "free_blocks ordered_blocks p =
     (let h = fold (\<lambda>b h. set_ref_cnt b (ref_cnt (h b) - 1) h) ordered_blocks (blk p);
          p1 = set_heap h p
      in bindE (append_n (filter (\<lambda>b. ref_cnt (h b) = 0 \<and> \<not> is_null (h b)) ordered_blocks)
                  (free_block_queue p1)) (\<lambda>q.
         Inr (p1\<lparr> free_block_queue := q \<rparr>)))"

definition reset_prefix_cache :: "block_pool \<Rightarrow> bool \<times> block_pool" where
  "reset_prefix_cache p =
     (if int (num_gpu_blocks p) - get_num_free_blocks p \<noteq> 1 then (False, p)
      else
        (let p1 = set_heap (fold reset_hash (map Blk [0..<num_gpu_blocks p]) (blk p))
                    (p\<lparr> cached_block_hash_to_block := (\<lambda>_. None) \<rparr>)
         in (True,
             if enable_kv_cache_events p1
             then p1\<lparr> kv_event_queue := kv_event_queue p1 @ [AllBlocksCleared] \<rparr>
             else p1)))"

text \<open>The usage is a float in the source; here it is the exact quotient.\<close>

definition get_usage :: "block_pool \<Rightarrow> rat" where
  "get_usage p =
     (let total_gpu_blocks = int (num_gpu_blocks p) - 1
      in if total_gpu_blocks = 0 then 0
         else 1 - of_int (get_num_free_blocks p) / of_int total_gpu_blocks)"

definition take_events :: "block_pool \<Rightarrow> kv_event list \<times> block_pool" where
  "take_events p =
     (if \<not> enable_kv_cache_events p then ([], p)
      else (kv_event_queue p, p\<lparr> kv_event_queue := [] \<rparr>))"

end
