(* ===== verification/Block_Pool_Inv.thy ===== *)
theory Block_Pool_Inv
  imports Block_Pool
begin

text \<open>
  Correctness of the block pool: the invariant that ties the free list, the reference counts, the
  block hashes and the index of cached blocks together, its preservation by every operation, the
  effect of every operation on the blocks, and the pool as a transition system.
\<close>

section \<open>Stores that differ in data only\<close>

definition same_links :: "heap \<Rightarrow> heap \<Rightarrow> bool" where
  "same_links h h' \<longleftrightarrow>
     (\<forall>r. next_free_block (h' r) = next_free_block (h r) \<and> prev_free_block (h' r) = prev_free_block (h r))"

lemma same_links_upd [simp]:
  "same_links h (set_ref_cnt b n h') \<longleftrightarrow> same_links h h'"
  "same_links h (reset_hash b h') \<longleftrightarrow> same_links h h'"
  "same_links h (h'(b := (h' b)\<lparr> block_hash := k \<rparr>)) \<longleftrightarrow> same_links h h'"
  "same_links h (h'(b := (h' b)\<lparr> is_null := z \<rparr>)) \<longleftrightarrow> same_links h h'"
  by (auto simp: same_links_def set_ref_cnt_def reset_hash_def)

lemma same_links_refl [simp]: "same_links h h"
  by (simp add: same_links_def)

lemma chain_same_links: "same_links h h' \<Longrightarrow> chain h' a xs \<longleftrightarrow> chain h a xs"
  by (induction xs arbitrary: a) (auto simp: same_links_def)

lemma queue_repr_same_links:
  "same_links (fq_heap q) h' \<Longrightarrow> queue_repr (q\<lparr> fq_heap := h' \<rparr>) xs \<longleftrightarrow> queue_repr q xs"
  by (simp add: queue_repr_def chain_same_links) (simp add: same_links_def)

lemma data_simps [simp]:
  "ref_cnt (set_ref_cnt b n h r) = (if r = b then n else ref_cnt (h r))"
  "block_hash (set_ref_cnt b n h r) = block_hash (h r)"
  "is_null (set_ref_cnt b n h r) = is_null (h r)"
  "block_id (set_ref_cnt b n h r) = block_id (h r)"
  "ref_cnt (reset_hash b h r) = ref_cnt (h r)"
  "block_hash (reset_hash b h r) = (if r = b then None else block_hash (h r))"
  "is_null (reset_hash b h r) = is_null (h r)"
  "block_id (reset_hash b h r) = block_id (h r)"
  by (auto simp: set_ref_cnt_def reset_hash_def)

lemma set_heap_simps [simp]:
  "blk (set_heap h p) = h"
  "num_gpu_blocks (set_heap h p) = num_gpu_blocks p"
  "enable_caching (set_heap h p) = enable_caching p"
  "cached_block_hash_to_block (set_heap h p) = cached_block_hash_to_block p"
  "null_block (set_heap h p) = null_block p"
  "enable_kv_cache_events (set_heap h p) = enable_kv_cache_events p"
  "kv_event_queue (set_heap h p) = kv_event_queue p"
  "num_free_blocks (free_block_queue (set_heap h p)) = num_free_blocks (free_block_queue p)"
  by (simp_all add: set_heap_def)

lemma set_heap_repr:
  "same_links (blk p) h \<Longrightarrow> queue_repr (free_block_queue (set_heap h p)) xs \<longleftrightarrow> queue_repr (free_block_queue p) xs"
  by (simp add: set_heap_def queue_repr_same_links)

section \<open>The invariant\<close>

definition pool_blocks :: "block_pool \<Rightarrow> ref set" where
  "pool_blocks p = Blk ` {..<num_gpu_blocks p}"

text \<open>\<open>pool_inv p xs P\<close>: \<open>xs\<close> is the free list, in order of eviction; \<open>P\<close> are blocks without a
  reference that an operation in progress has taken out of the list or not yet put back.\<close>

definition pool_inv :: "block_pool \<Rightarrow> ref list \<Rightarrow> ref set \<Rightarrow> bool" where
  "pool_inv p xs P \<longleftrightarrow>
     0 < num_gpu_blocks p \<and> null_block p = Blk 0
     \<and> queue_repr (free_block_queue p) xs
     \<and> numbers p = block_number
     \<and> (\<forall>b. is_null (blk p b) \<longleftrightarrow> b = Blk 0)
     \<and> P \<inter> set xs = {}
     \<and> (\<forall>b. b \<in> set xs \<union> P \<longleftrightarrow> b \<in> pool_blocks p \<and> b \<noteq> Blk 0 \<and> ref_cnt (blk p b) = 0)
     \<and> (\<forall>b \<in> pool_blocks p. b \<noteq> Blk 0 \<longrightarrow> 0 \<le> ref_cnt (blk p b))
     \<and> map_ok (cached_block_hash_to_block p)
     \<and> map_pairs (cached_block_hash_to_block p) = {(k, b). b \<in> pool_blocks p \<and> block_hash (blk p b) = Some k}
     \<and> block_hash (blk p (Blk 0)) = None"

abbreviation pool_repr :: "block_pool \<Rightarrow> ref list \<Rightarrow> bool" where
  "pool_repr p xs \<equiv> pool_inv p xs {}"

lemma pool_invD:
  assumes "pool_inv p xs P"
  shows "0 < num_gpu_blocks p" "null_block p = Blk 0" "queue_repr (free_block_queue p) xs"
    "numbers p = block_number" "is_null (blk p b) \<longleftrightarrow> b = Blk 0" "P \<inter> set xs = {}"
    "b \<in> set xs \<union> P \<longleftrightarrow> b \<in> pool_blocks p \<and> b \<noteq> Blk 0 \<and> ref_cnt (blk p b) = 0"
    "b \<in> pool_blocks p \<Longrightarrow> b \<noteq> Blk 0 \<Longrightarrow> 0 \<le> ref_cnt (blk p b)"
    "map_ok (cached_block_hash_to_block p)"
    "map_pairs (cached_block_hash_to_block p) = {(k, b). b \<in> pool_blocks p \<and> block_hash (blk p b) = Some k}"
    "block_hash (blk p (Blk 0)) = None"
  using assms by (auto simp: pool_inv_def)

lemma pool_blocks_real: "b \<in> pool_blocks p \<Longrightarrow> real_block b \<and> b \<in> range Blk"
  by (auto simp: pool_blocks_def)

lemma null_in_pool: "pool_inv p xs P \<Longrightarrow> Blk 0 \<in> pool_blocks p"
  using pool_invD(1) by (auto simp: pool_blocks_def)

text \<open>The fields that no operation changes.\<close>

definition same_config :: "block_pool \<Rightarrow> block_pool \<Rightarrow> bool" where
  "same_config p p' \<longleftrightarrow>
     num_gpu_blocks p' = num_gpu_blocks p \<and> enable_caching p' = enable_caching p
     \<and> null_block p' = null_block p \<and> enable_kv_cache_events p' = enable_kv_cache_events p"

lemma same_config_refl [simp]: "same_config p p"
  by (simp add: same_config_def)

lemma same_config_trans: "same_config p q \<Longrightarrow> same_config q r \<Longrightarrow> same_config p r"
  by (simp add: same_config_def)

lemma same_config_upd [simp]:
  "same_config p (set_heap h q) \<longleftrightarrow> same_config p q"
  "same_config p (q\<lparr> cached_block_hash_to_block := m \<rparr>) \<longleftrightarrow> same_config p q"
  "same_config p (q\<lparr> kv_event_queue := es \<rparr>) \<longleftrightarrow> same_config p q"
  "same_config p (q\<lparr> free_block_queue := fq \<rparr>) \<longleftrightarrow> same_config p q"
  "same_config (p\<lparr> free_block_queue := fq \<rparr>) q \<longleftrightarrow> same_config p q"
  "same_config (set_heap h p) q \<longleftrightarrow> same_config p q"
  by (simp_all add: same_config_def)

lemma pool_blocks_config: "same_config p p' \<Longrightarrow> pool_blocks p' = pool_blocks p"
  by (simp add: same_config_def pool_blocks_def)

lemma pool_inv_events [simp]: "pool_inv (p\<lparr> kv_event_queue := es \<rparr>) xs P \<longleftrightarrow> pool_inv p xs P"
  by (simp add: pool_inv_def pool_blocks_def)

text \<open>Changing reference counts.\<close>

lemma pool_inv_ref_cnt:
  assumes "pool_inv p xs P" and "b \<in> pool_blocks p" and "b \<notin> set xs" and "b \<noteq> Blk 0 \<Longrightarrow> 0 \<le> n"
  shows "pool_inv (set_heap (set_ref_cnt b n (blk p)) p) xs (if b \<noteq> Blk 0 \<and> n = 0 then insert b P else P - {b})"
proof -
  note r = pool_invD [OF assms(1)]
  have pb: "pool_blocks (set_heap h p) = pool_blocks p" for h by (simp add: pool_blocks_def)
  have "b \<noteq> Blk 0" if "b \<in> P" using r(7) [of b] that by blast
  moreover have "c \<in> set xs \<union> P \<longleftrightarrow> c \<in> pool_blocks p \<and> c \<noteq> Blk 0 \<and> ref_cnt (blk p c) = 0" for c by (rule r(7))
  ultimately show ?thesis
    using assms(2-4) r(1-6) r(8-11) by (auto simp: pool_inv_def pb set_heap_repr)
qed


section \<open>Eviction and allocation\<close>

lemma evict_inv:
  assumes "pool_inv p xs P" and "b \<in> pool_blocks p"
  shows "\<exists>p'. maybe_evict_cached_block ui b p = (block_hash (blk p b) \<noteq> None, p')
    \<and> pool_inv p' xs P \<and> same_config p p' \<and> blk p' = reset_hash b (blk p)"
proof (cases "block_hash (blk p b)")
  case None
  then have "reset_hash b (blk p) = blk p" by (auto simp: reset_hash_def)
  then show ?thesis using None assms(1) by (simp add: maybe_evict_cached_block_def)
next
  case (Some k)
  note r = pool_invD [OF assms(1)]
  let ?m = "cached_block_hash_to_block p"
  obtain m' where m': "pop_block block_number k (block_number b) ?m = (Some b, m')" "map_ok m'"
    "map_pairs m' = map_pairs ?m - {(k, b)}"
    using bm.del_law [OF r(9), of k b] r(10) Some assms(2) by (cases "pop_block block_number k (block_number b) ?m") auto
  let ?p = "set_heap (reset_hash b (blk p)) (p\<lparr> cached_block_hash_to_block := m' \<rparr>)"
  have "pool_inv ?p xs P"
    using assms(1) m'(2,3) r(10) Some by (auto simp: pool_inv_def pool_blocks_def set_heap_repr)
  moreover have "maybe_evict_cached_block ui b p
      = (True, if enable_kv_cache_events p
               then ?p\<lparr> kv_event_queue := kv_event_queue p @ [BlockRemoved [maybe_convert_block_hash ui (get_block_hash k)]] \<rparr>
               else ?p)"
    using Some m'(1) r(4) fun_cong [OF r(4), of b] by (simp add: maybe_evict_cached_block_def Let_def)
  ultimately show ?thesis using Some by auto
qed

lemma take_block_inv:
  assumes "pool_inv p xs P" and "b \<in> P"
  shows "\<exists>p'. take_block ui b p = Inr p' \<and> pool_inv p' xs (P - {b}) \<and> same_config p p'
    \<and> blk p' = set_ref_cnt b 1 (if enable_caching p then reset_hash b (blk p) else blk p)"
proof -
  have b: "b \<in> pool_blocks p" "b \<noteq> Blk 0" "ref_cnt (blk p b) = 0" "b \<notin> set xs"
    using pool_invD(6) [OF assms(1)] pool_invD(7) [OF assms(1), of b] assms(2) by auto
  obtain p1 where p1: "p1 = (if enable_caching p then snd (maybe_evict_cached_block ui b p) else p)"
    "pool_inv p1 xs P" "same_config p p1" "blk p1 = (if enable_caching p then reset_hash b (blk p) else blk p)"
    using evict_inv [OF assms(1) b(1), of ui] assms(1) by (cases "enable_caching p") auto
  have c: "ref_cnt (blk p1 b) = 0" "b \<in> pool_blocks p1" using p1(3,4) b by (auto simp: pool_blocks_config)
  have "take_block ui b p = Inr (set_heap (set_ref_cnt b 1 (blk p1)) p1)"
    unfolding take_block_def Let_def p1(1) [symmetric] using c(1) by simp
  then show ?thesis
    using pool_inv_ref_cnt [OF p1(2) c(2) b(4), of 1] p1(3,4) by simp
qed

lemma take_blocks_inv:
  assumes "pool_inv p xs P" and "set bs \<subseteq> P" and "distinct bs"
  shows "\<exists>p'. foldE (take_block ui) bs p = Inr p' \<and> pool_inv p' xs (P - set bs) \<and> same_config p p'
    \<and> (\<forall>b. ref_cnt (blk p' b) = (if b \<in> set bs then 1 else ref_cnt (blk p b)))
    \<and> (\<forall>b. block_hash (blk p' b) = (if b \<in> set bs \<and> enable_caching p then None else block_hash (blk p b)))"
  using assms
proof (induction bs arbitrary: p P)
  case (Cons b bs)
  obtain p1 where p1: "take_block ui b p = Inr p1" "pool_inv p1 xs (P - {b})" "same_config p p1"
    "blk p1 = set_ref_cnt b 1 (if enable_caching p then reset_hash b (blk p) else blk p)"
    using take_block_inv [OF Cons.prems(1), of b ui] Cons.prems(2) by auto
  have "set bs \<subseteq> P - {b}" using Cons.prems(2,3) by auto
  from Cons.IH [OF p1(2) this] obtain p2 where p2: "foldE (take_block ui) bs p1 = Inr p2"
    "pool_inv p2 xs (P - {b} - set bs)" "same_config p1 p2"
    "\<forall>c. ref_cnt (blk p2 c) = (if c \<in> set bs then 1 else ref_cnt (blk p1 c))"
    "\<forall>c. block_hash (blk p2 c) = (if c \<in> set bs \<and> enable_caching p1 then None else block_hash (blk p1 c))"
    using Cons.prems(3) by auto
  have "P - {b} - set bs = P - set (b # bs)" by auto
  moreover have "enable_caching p1 = enable_caching p" using p1(3) by (simp add: same_config_def)
  ultimately show ?case
    using p1 p2 same_config_trans by (intro exI [of _ p2]) (auto split: if_splits)
qed simp

lemma pool_inv_queue:
  assumes "pool_inv p xs P" and "queue_repr q' ys" and "same_data (blk p) (fq_heap q')"
    and "P' \<inter> set ys = {}" and "set ys \<union> P' = set xs \<union> P"
  shows "pool_inv (p\<lparr> free_block_queue := q' \<rparr>) ys P'"
proof -
  have "same_data (blk p) (blk (p\<lparr> free_block_queue := q' \<rparr>))" using assms(3) by simp
  then show ?thesis
    using assms(1,2,4,5) by (auto simp: pool_inv_def same_data_def pool_blocks_def)
qed

lemma get_new_blocks_inv:
  assumes "pool_repr p xs" and "n \<le> length xs"
  shows "\<exists>p'. get_new_blocks ui n p = Inr (take n xs, p') \<and> pool_repr p' (drop n xs) \<and> same_config p p'
    \<and> (\<forall>b. ref_cnt (blk p' b) = (if b \<in> set (take n xs) then 1 else ref_cnt (blk p b)))
    \<and> (\<forall>b. block_hash (blk p' b) = (if b \<in> set (take n xs) \<and> enable_caching p then None else block_hash (blk p b)))"
proof -
  note r = pool_invD [OF assms(1)]
  obtain q' where q': "popleft_n n (free_block_queue p) = Inr (take n xs, q')" "queue_repr q' (drop n xs)"
    "same_data (blk p) (fq_heap q')"
    using fq.pop_n_law [OF r(3) assms(2)] by blast
  have d: "distinct xs" using r(3) queue_reprD(3) by blast
  then have "set (take n xs) \<inter> set (drop n xs) = {}" by (rule set_take_disj_set_drop_if_distinct) simp
  moreover have "set (drop n xs) \<union> set (take n xs) = set xs" by (metis Un_commute append_take_drop_id set_append)
  ultimately have p1: "pool_inv (p\<lparr> free_block_queue := q' \<rparr>) (drop n xs) (set (take n xs))"
    using pool_inv_queue [OF assms(1) q'(2,3)] by simp
  have nf: "get_num_free_blocks p = int (length xs)"
    using queue_reprD(6) [OF r(3)] by (simp add: get_num_free_blocks_def)
  have data: "ref_cnt (fq_heap q' b) = ref_cnt (blk p b)" "block_hash (fq_heap q' b) = block_hash (blk p b)" for b
    using q'(3) by (simp_all add: same_data_def)
  show ?thesis
    using take_blocks_inv [OF p1 order_refl distinct_take [OF d, of n], of ui] q'(1) nf assms(2) data
    by (auto simp: get_new_blocks_def)
qed

lemma get_new_blocks_short:
  assumes "pool_repr p xs" and "length xs < n"
  shows "get_new_blocks ui n p = Inl (ValueError ''Cannot get free blocks from the pool'')"
  using queue_reprD(6) [OF pool_invD(3) [OF assms(1)]] assms(2)
  by (simp add: get_new_blocks_def get_num_free_blocks_def)


section \<open>Sharing and freeing\<close>

lemma touch_block_inv:
  assumes "pool_repr p xs" and "b \<in> pool_blocks p"
  shows "\<exists>p'. touch_block b p = Inr p' \<and> pool_repr p' (filter (\<lambda>c. c \<noteq> b) xs) \<and> same_config p p'
    \<and> (\<forall>c. ref_cnt (blk p' c) = ref_cnt (blk p c) + (if c = b then 1 else 0))
    \<and> (\<forall>c. block_hash (blk p' c) = block_hash (blk p c))"
proof -
  note r = pool_invD [OF assms(1)]
  show ?thesis
  proof (cases "b \<in> set xs")
    case True
    then have b: "b \<noteq> Blk 0" "ref_cnt (blk p b) = 0" using r(7) [of b] by auto
    have d: "distinct xs" using r(3) queue_reprD(3) by blast
    let ?ys = "filter (\<lambda>c. c \<noteq> b) xs"
    have "remove1 b xs = ?ys" using d by (auto simp: distinct_remove1_removeAll removeAll_filter_not_eq intro!: filter_cong)
    then obtain q' where q': "remove_block b (free_block_queue p) = Inr q'" "queue_repr q' ?ys"
      "same_data (blk p) (fq_heap q')"
      using remove_block_mem [OF r(3) True] by auto
    let ?p = "p\<lparr> free_block_queue := q' \<rparr>"
    have p1: "pool_inv ?p ?ys {b}" using pool_inv_queue [OF assms(1) q'(2,3)] True by auto
    have data: "ref_cnt (fq_heap q' c) = ref_cnt (blk p c)" "block_hash (fq_heap q' c) = block_hash (blk p c)"
      "is_null (fq_heap q' c) = is_null (blk p c)" for c
      using q'(3) by (simp_all add: same_data_def)
    have "touch_block b p = Inr (set_heap (set_ref_cnt b 1 (fq_heap q')) ?p)"
      using b q'(1) data r(5) by (simp add: touch_block_def)
    moreover have "pool_repr (set_heap (set_ref_cnt b 1 (fq_heap q')) ?p) ?ys"
      using pool_inv_ref_cnt [OF p1, of b 1] assms(2) by (simp add: pool_blocks_def)
    ultimately show ?thesis using b data by simp
  next
    case False
    then have "b = Blk 0 \<or> 0 < ref_cnt (blk p b)"
      using r(7) [of b] r(8) [of b] assms(2) by fastforce
    then have n: "b \<noteq> Blk 0 \<Longrightarrow> 0 \<le> ref_cnt (blk p b) + 1" "\<not> (b \<noteq> Blk 0 \<and> ref_cnt (blk p b) + 1 = 0)"
      and z: "\<not> (ref_cnt (blk p b) = 0 \<and> \<not> is_null (blk p b))"
      using r(5) [of b] by auto
    have t: "touch_block b p = Inr (set_heap (set_ref_cnt b (ref_cnt (blk p b) + 1) (blk p)) p)"
      unfolding touch_block_def using z by (simp only: if_False bindE.simps)
    have "filter (\<lambda>c. c \<noteq> b) xs = xs" using False by (auto intro: filter_True)
    then show ?thesis using t pool_inv_ref_cnt [OF assms(1,2) False n(1)] n(2) by auto
  qed
qed

lemma touch_blocks_inv:
  assumes "pool_repr p xs" and "set bs \<subseteq> pool_blocks p"
  shows "\<exists>p'. foldE touch_block bs p = Inr p' \<and> pool_repr p' (filter (\<lambda>c. c \<notin> set bs) xs) \<and> same_config p p'
    \<and> (\<forall>c. ref_cnt (blk p' c) = ref_cnt (blk p c) + int (count_list bs c))
    \<and> (\<forall>c. block_hash (blk p' c) = block_hash (blk p c))"
  using assms
proof (induction bs arbitrary: p xs)
  case (Cons b bs)
  obtain p1 where p1: "touch_block b p = Inr p1" "pool_repr p1 (filter (\<lambda>c. c \<noteq> b) xs)" "same_config p p1"
    "\<forall>c. ref_cnt (blk p1 c) = ref_cnt (blk p c) + (if c = b then 1 else 0)"
    "\<forall>c. block_hash (blk p1 c) = block_hash (blk p c)"
    using touch_block_inv [OF Cons.prems(1), of b] Cons.prems(2) by auto
  have "set bs \<subseteq> pool_blocks p1" using Cons.prems(2) pool_blocks_config [OF p1(3)] by simp
  from Cons.IH [OF p1(2) this] obtain p2 where p2: "foldE touch_block bs p1 = Inr p2"
    "pool_repr p2 (filter (\<lambda>c. c \<notin> set bs) (filter (\<lambda>c. c \<noteq> b) xs))" "same_config p1 p2"
    "\<forall>c. ref_cnt (blk p2 c) = ref_cnt (blk p1 c) + int (count_list bs c)"
    "\<forall>c. block_hash (blk p2 c) = block_hash (blk p1 c)" by blast
  have "filter (\<lambda>c. c \<notin> set bs) (filter (\<lambda>c. c \<noteq> b) xs) = filter (\<lambda>c. c \<notin> set (b # bs)) xs"
    by (auto intro: filter_cong)
  then show ?case using p1 p2 same_config_trans by (intro exI [of _ p2]) auto
qed simp

lemma touch_concat: "touch gs p = foldE touch_block (concat gs) p"
  unfolding touch_def
proof (induction gs arbitrary: p)
  case (Cons g gs)
  then have "foldE (\<lambda>group. foldE touch_block group) gs = foldE touch_block (concat gs)" by auto
  then show ?case by (simp add: foldE_append)
qed simp

lemma fold_dec [simp]:
  "ref_cnt (fold (\<lambda>b h. set_ref_cnt b (ref_cnt (h b) - 1) h) bs h c) = ref_cnt (h c) - int (count_list bs c)"
  "block_hash (fold (\<lambda>b h. set_ref_cnt b (ref_cnt (h b) - 1) h) bs h c) = block_hash (h c)"
  "is_null (fold (\<lambda>b h. set_ref_cnt b (ref_cnt (h b) - 1) h) bs h c) = is_null (h c)"
  "block_id (fold (\<lambda>b h. set_ref_cnt b (ref_cnt (h b) - 1) h) bs h c) = block_id (h c)"
  "same_links h0 (fold (\<lambda>b h. set_ref_cnt b (ref_cnt (h b) - 1) h) bs h) \<longleftrightarrow> same_links h0 h"
  by (induction bs arbitrary: h) auto

text \<open>What a caller of \<open>free_blocks\<close> must guarantee: it holds a reference to every block it gives
  back, and gives no block back twice, the null block apart.\<close>

definition freeable :: "ref list \<Rightarrow> block_pool \<Rightarrow> bool" where
  "freeable bs p \<longleftrightarrow>
     set bs \<subseteq> pool_blocks p \<and> distinct (filter (\<lambda>b. b \<noteq> Blk 0) bs)
     \<and> (\<forall>b \<in> set bs. b \<noteq> Blk 0 \<longrightarrow> 1 \<le> ref_cnt (blk p b))"

abbreviation released :: "ref list \<Rightarrow> block_pool \<Rightarrow> ref list" where
  "released bs p \<equiv> filter (\<lambda>b. b \<noteq> Blk 0 \<and> ref_cnt (blk p b) = 1) bs"

lemma count_list_filter_distinct:
  "distinct (filter P bs) \<Longrightarrow> P b \<Longrightarrow> count_list bs b = (if b \<in> set bs then 1 else 0)"
  by (induction bs) (auto simp: count_list_0_iff split: if_splits)

lemma free_blocks_inv:
  assumes "pool_repr p xs" and "freeable bs p"
  shows "\<exists>p'. free_blocks bs p = Inr p' \<and> pool_repr p' (xs @ released bs p) \<and> same_config p p'
    \<and> (\<forall>c. ref_cnt (blk p' c) = ref_cnt (blk p c) - int (count_list bs c))
    \<and> (\<forall>c. block_hash (blk p' c) = block_hash (blk p c))"
proof -
  note r = pool_invD [OF assms(1)]
  let ?h = "fold (\<lambda>b h. set_ref_cnt b (ref_cnt (h b) - 1) h) bs (blk p)"
  let ?rel = "released bs p"
  have cnt: "count_list bs b = (if b \<in> set bs then 1 else 0)" if "b \<noteq> Blk 0" for b
    using count_list_filter_distinct [of "\<lambda>b. b \<noteq> Blk 0" bs b] assms(2) that by (simp add: freeable_def)
  have pos: "1 \<le> ref_cnt (blk p b)" "b \<in> pool_blocks p" "b \<notin> set xs" if "b \<in> set bs" "b \<noteq> Blk 0" for b
    using assms(2) that r(7) [of b] by (auto simp: freeable_def)
  have flt: "filter (\<lambda>b. ref_cnt (?h b) = 0 \<and> \<not> is_null (?h b)) bs = ?rel"
  proof (rule filter_cong [OF refl])
    fix b
    assume "b \<in> set bs"
    then show "ref_cnt (?h b) = 0 \<and> \<not> is_null (?h b) \<longleftrightarrow> b \<noteq> Blk 0 \<and> ref_cnt (blk p b) = 1"
      using cnt [of b] r(5) [of b] by auto
  qed
  have inv: "pool_inv (set_heap ?h p) xs (set ?rel)"
    unfolding pool_inv_def
  proof (intro conjI allI ballI impI)
    show "set ?rel \<inter> set xs = {}" using pos by auto
    show "b \<in> set xs \<union> set ?rel \<longleftrightarrow> b \<in> pool_blocks (set_heap ?h p) \<and> b \<noteq> Blk 0 \<and> ref_cnt (blk (set_heap ?h p) b) = 0" for b
      using r(7) [of b] cnt [of b] pos [of b] by (auto simp: pool_blocks_def split: if_splits)
    show "0 \<le> ref_cnt (blk (set_heap ?h p) b)" if "b \<in> pool_blocks (set_heap ?h p)" "b \<noteq> Blk 0" for b
      using r(8) [of b] cnt [of b] pos [of b] that by (auto simp: pool_blocks_def)
  qed (use r in \<open>auto simp: pool_blocks_def set_heap_repr\<close>)
  have d: "distinct ?rel" using assms(2) by (simp add: freeable_def distinct_filter conj_commute flip: filter_filter)
  have "\<forall>b \<in> set ?rel. real_block b" using assms(2) pool_blocks_real by (auto simp: freeable_def)
  then obtain q' where q': "append_n ?rel (free_block_queue (set_heap ?h p)) = Inr q'" "queue_repr q' (xs @ ?rel)"
    "same_data ?h (fq_heap q')"
    using fq.app_n_law [OF pool_invD(3) [OF inv] d] pool_invD(6) [OF inv] by auto
  have "pool_repr ((set_heap ?h p)\<lparr> free_block_queue := q' \<rparr>) (xs @ ?rel)"
    using pool_inv_queue [OF inv q'(2), of "{}"] q'(3) by auto
  moreover have "free_blocks bs p = Inr ((set_heap ?h p)\<lparr> free_block_queue := q' \<rparr>)"
    unfolding free_blocks_def Let_def flt using q'(1) by simp
  ultimately show ?thesis using q'(3) by (auto simp: same_data_def)
qed


section \<open>Caching full blocks\<close>

definition hash_key :: "nat \<Rightarrow> bytes \<Rightarrow> bytes" where
  "hash_key g h = h @ be_bytes 4 g"

lemma make_hash_key: "g < 2 ^ 32 \<Longrightarrow> make_block_hash_with_group_id h g = Inr (hash_key g h)"
  by (simp add: hash_key_def make_key_Inr)

lemma hash_key_inj: "g < 2 ^ 32 \<Longrightarrow> g' < 2 ^ 32 \<Longrightarrow> hash_key g h = hash_key g' h' \<longleftrightarrow> g = g' \<and> h = h'"
  using key_roundtrip make_hash_key by metis

abbreviation with_hash :: "ref \<Rightarrow> bytes \<Rightarrow> heap \<Rightarrow> heap" where
  "with_hash b k h \<equiv> h(b := (h b)\<lparr> block_hash := Some k \<rparr>)"

lemma cache_one_inv:
  assumes "pool_inv p xs P" and "b \<in> pool_blocks p" and "b \<noteq> Blk 0" and "block_hash (blk p b) = None"
  shows "pool_inv ((set_heap (with_hash b k (blk p)) p)
      \<lparr> cached_block_hash_to_block :=
          insert_block (numbers (set_heap (with_hash b k (blk p)) p)) k b (cached_block_hash_to_block p) \<rparr>) xs P"
proof -
  note r = pool_invD [OF assms(1)]
  let ?p = "set_heap (with_hash b k (blk p)) p"
  have num: "numbers ?p = block_number" using r(4) by (auto simp: fun_eq_iff)
  have "b \<in> range Blk" using assms(2) pool_blocks_real by blast
  note ins = bm.ins_law [OF r(9) this, of k]
  have pairs: "insert (k, b) {(l, c). c \<in> pool_blocks p \<and> block_hash (blk p c) = Some l}
      = {(l, c). c \<in> pool_blocks p \<and> block_hash (with_hash b k (blk p) c) = Some l}"
    using assms(2,4) by auto
  let ?q = "?p\<lparr> cached_block_hash_to_block := insert_block block_number k b (cached_block_hash_to_block p) \<rparr>"
  have pb: "pool_blocks ?q = pool_blocks p" by (simp add: pool_blocks_def)
  show ?thesis
    unfolding num pool_inv_def pb
  proof (intro conjI allI ballI impI)
    show "queue_repr (free_block_queue ?q) xs" using r(3) by (simp add: set_heap_repr)
    show "numbers ?q = block_number" using num by simp
    show "map_pairs (cached_block_hash_to_block ?q) = {(l, c). c \<in> pool_blocks p \<and> block_hash (blk ?q c) = Some l}"
      using ins [THEN conjunct2, unfolded r(10) pairs] by simp
  qed (use r ins assms(3) in auto)
qed

text \<open>What a caller of \<open>cache_full_blocks\<close> must guarantee of the blocks it caches.\<close>

definition cacheable :: "ref list \<Rightarrow> block_pool \<Rightarrow> bool" where
  "cacheable bs p \<longleftrightarrow>
     distinct bs \<and> set bs \<subseteq> pool_blocks p - {Blk 0} \<and> (\<forall>b \<in> set bs. block_hash (blk p b) = None)"

lemma cache_loop_inv:
  assumes "pool_inv p xs P" and "cacheable bs p" and "length bs \<le> length hs" and "g < 2 ^ 32"
  shows "\<exists>p'. cache_loop ui g bs hs (p, acc) = Inr (p', acc @ map (maybe_convert_block_hash ui) (take (length bs) hs))
    \<and> pool_inv p' xs P \<and> same_config p p'
    \<and> (\<forall>c. ref_cnt (blk p' c) = ref_cnt (blk p c))
    \<and> (\<forall>c. c \<notin> set bs \<longrightarrow> block_hash (blk p' c) = block_hash (blk p c))
    \<and> map (\<lambda>b. block_hash (blk p' b)) bs = map (\<lambda>h. Some (hash_key g h)) (take (length bs) hs)"
  using assms(1-3)
proof (induction bs arbitrary: p hs acc)
  case (Cons b bs)
  then obtain h hs' where hs: "hs = h # hs'" by (cases hs) auto
  have b: "b \<in> pool_blocks p" "b \<noteq> Blk 0" "block_hash (blk p b) = None" "b \<notin> set bs"
    using Cons.prems(2) by (auto simp: cacheable_def)
  let ?k = "hash_key g h"
  let ?p1 = "set_heap (with_hash b ?k (blk p)) p"
  define p2 where "p2 = ?p1\<lparr> cached_block_hash_to_block := insert_block (numbers ?p1) ?k b (cached_block_hash_to_block p) \<rparr>"
  have inv: "pool_inv p2 xs P" unfolding p2_def by (rule cache_one_inv [OF Cons.prems(1) b(1-3)])
  have blk2: "blk p2 = with_hash b ?k (blk p)" and cfg: "same_config p p2" by (simp_all add: p2_def)
  have "cacheable bs p2"
    using Cons.prems(2) b(4) blk2 pool_blocks_config [OF cfg] by (auto simp: cacheable_def)
  from Cons.IH [OF inv this, of hs' "acc @ [maybe_convert_block_hash ui h]"]
  obtain p3 where p3: "cache_loop ui g bs hs' (p2, acc @ [maybe_convert_block_hash ui h])
      = Inr (p3, (acc @ [maybe_convert_block_hash ui h]) @ map (maybe_convert_block_hash ui) (take (length bs) hs'))"
    "pool_inv p3 xs P" "same_config p2 p3" "\<forall>c. ref_cnt (blk p3 c) = ref_cnt (blk p2 c)"
    "\<forall>c. c \<notin> set bs \<longrightarrow> block_hash (blk p3 c) = block_hash (blk p2 c)"
    "map (\<lambda>b. block_hash (blk p3 b)) bs = map (\<lambda>h. Some (hash_key g h)) (take (length bs) hs')"
    using Cons.prems(3) hs by auto
  have "cache_loop ui g (b # bs) hs (p, acc) = cache_loop ui g bs hs' (p2, acc @ [maybe_convert_block_hash ui h])"
    using b(3) make_hash_key [OF assms(4)] by (simp add: hs set_block_hash_def p2_def Let_def)
  then show ?case
    using p3 hs b(4) blk2 same_config_trans [OF cfg p3(3)] by (intro exI [of _ p3]) auto
qed simp

lemma cache_full_blocks_inv:
  assumes "pool_inv p xs P" and "0 \<le> nc" and "nc < nf" and "nf \<le> int (length blocks)"
    and "nf \<le> int (length (block_hashes rq))" and "g < 2 ^ 32"
    and "cacheable (py_slice blocks nc nf) p"
    and "nc = 0 \<or> block_hash (blk p (blocks ! nat (nc - 1))) \<noteq> None"
  shows "\<exists>p'. cache_full_blocks ui rq blocks nc nf bs g p = Inr p' \<and> pool_inv p' xs P \<and> same_config p p'
    \<and> (\<forall>c. ref_cnt (blk p' c) = ref_cnt (blk p c))
    \<and> (\<forall>c. c \<notin> set (py_slice blocks nc nf) \<longrightarrow> block_hash (blk p' c) = block_hash (blk p c))
    \<and> map (\<lambda>b. block_hash (blk p' b)) (py_slice blocks nc nf)
        = map (\<lambda>h. Some (hash_key g h)) (py_slice (block_hashes rq) nc nf)"
proof -
  obtain a b where ab: "nc = int a" "nf = int b" "a < b" "b \<le> length blocks" "b \<le> length (block_hashes rq)"
    using assms(2-5) by (intro that [of "nat nc" "nat nf"]) auto
  have sl: "py_slice blocks nc nf = drop a (take b blocks)"
    "py_slice (block_hashes rq) nc nf = drop a (take b (block_hashes rq))"
    unfolding ab by (rule py_slice_nat)+
  have len: "length (py_slice blocks nc nf) = b - a" and na: "nat nc = a" using ab by (simp_all add: py_slice_nat)
  have le: "length (py_slice blocks nc nf) \<le> length (drop a (block_hashes rq))" using ab len by simp
  have tk: "take (b - a) (drop a (block_hashes rq)) = drop a (take b (block_hashes rq))"
    by (simp add: drop_take)
  obtain p1 where p1: "cache_loop ui g (py_slice blocks nc nf) (drop (nat nc) (block_hashes rq)) (p, [])
      = Inr (p1, map (maybe_convert_block_hash ui) (drop a (take b (block_hashes rq))))"
    "pool_inv p1 xs P" "same_config p p1" "\<forall>c. ref_cnt (blk p1 c) = ref_cnt (blk p c)"
    "\<forall>c. c \<notin> set (py_slice blocks nc nf) \<longrightarrow> block_hash (blk p1 c) = block_hash (blk p c)"
    "map (\<lambda>b. block_hash (blk p1 b)) (py_slice blocks nc nf)
       = map (\<lambda>h. Some (hash_key g h)) (drop a (take b (block_hashes rq)))"
    using cache_loop_inv [OF assms(1,7) le assms(6), of ui "[]"]
    unfolding len tk na append_Nil by blast
  have "\<exists>par. parent_hash ui blocks nc p1 = Inr par"
  proof (cases "nc = 0")
    case False
    let ?c = "blocks ! nat (nc - 1)"
    have "block_hash (blk p1 ?c) \<noteq> None"
    proof (cases "?c \<in> set (py_slice blocks nc nf)")
      case True
      then show ?thesis using assms(7,8) False by (auto simp: cacheable_def)
    next
      case False
      then show ?thesis using p1(5) assms(8) \<open>nc \<noteq> 0\<close> by auto
    qed
    then show ?thesis using ab False by (auto simp: parent_hash_def)
  qed (simp add: parent_hash_def)
  then obtain par where par: "parent_hash ui blocks nc p1 = Inr par" by blast
  show ?thesis
    using p1 par assms(3,5) by (auto simp: cache_full_blocks_def sl)
qed


section \<open>Construction, reset and lookup\<close>

lemma init_pool_inv:
  assumes "0 < n"
  shows "\<exists>p. init_pool n caching evs = Inr p \<and> pool_repr p (map Blk [1..<n]) \<and> num_gpu_blocks p = n
    \<and> enable_caching p = caching \<and> (\<forall>b. block_hash (blk p b) = None)"
proof -
  let ?q = "init_queue (map Blk [0..<n]) fresh_heap"
  have "distinct (map Blk [0..<n])" by (simp add: distinct_map inj_on_def)
  then have "queue_repr ?q (map Blk [0..<n])" by (intro init_queue_repr) auto
  moreover have "[0..<n] = 0 # [1..<n]" using assms by (simp add: upt_rec)
  ultimately have "queue_repr ?q (Blk 0 # map Blk [1..<n])" by simp
  then obtain q' where q': "popleft ?q = Inr (Blk 0, q')" "queue_repr q' (map Blk [1..<n])"
    "same_data (fq_heap ?q) (fq_heap q')"
    using fq.pop_law by blast
  have "same_data fresh_heap (fold (link_step (map Blk [0..<n])) [0..<n] fresh_heap)"
    by (simp add: fold_link_data)
  then have "same_data fresh_heap ((fold (link_step (map Blk [0..<n])) [0..<n] fresh_heap)
      (FakeHead := new_block (-1), FakeTail := new_block (-1)))"
    by (auto simp: same_data_def new_block_def fresh_heap_def)
  then have "same_data fresh_heap (fq_heap ?q)" using assms by (simp add: init_queue_def Let_def)
  moreover have "block_id (fresh_heap r) = block_number r" for r
    by (cases r) (simp_all add: fresh_heap_def new_block_def)
  ultimately have "block_id (fq_heap ?q r) = block_number r \<and> ref_cnt (fq_heap ?q r) = 0
      \<and> block_hash (fq_heap ?q r) = None \<and> \<not> is_null (fq_heap ?q r)" for r
    by (simp add: same_data_def)
  then have d: "block_id (fq_heap q' r) = block_number r \<and> ref_cnt (fq_heap q' r) = 0
      \<and> block_hash (fq_heap q' r) = None \<and> \<not> is_null (fq_heap q' r)" for r
    using q'(3) by (simp add: same_data_def)
  let ?h = "(fq_heap q')(Blk 0 := (fq_heap q' (Blk 0))\<lparr> is_null := True \<rparr>)"
  have "queue_repr (q'\<lparr> fq_heap := ?h \<rparr>) (map Blk [1..<n])"
    using q'(2) by (simp add: queue_repr_same_links)
  then show ?thesis
    using assms q'(1) d bm.empty_law by (auto simp: init_pool_def pool_inv_def pool_blocks_def)
qed

lemma fold_reset [simp]:
  "ref_cnt (fold reset_hash bs h r) = ref_cnt (h r)"
  "block_hash (fold reset_hash bs h r) = (if r \<in> set bs then None else block_hash (h r))"
  "is_null (fold reset_hash bs h r) = is_null (h r)"
  "block_id (fold reset_hash bs h r) = block_id (h r)"
  "same_links h0 (fold reset_hash bs h) \<longleftrightarrow> same_links h0 h"
  by (induction bs arbitrary: h) auto

lemma reset_inv:
  assumes "pool_repr p xs" and "reset_prefix_cache p = (ok, p')"
  shows "pool_repr p' xs \<and> same_config p p' \<and> (ok \<longleftrightarrow> length xs + 1 = num_gpu_blocks p)
    \<and> (\<forall>b. ref_cnt (blk p' b) = ref_cnt (blk p b))
    \<and> (ok \<longrightarrow> (\<forall>b \<in> pool_blocks p. block_hash (blk p' b) = None))
    \<and> (\<not> ok \<longrightarrow> p' = p)"
proof -
  note r = pool_invD [OF assms(1)]
  have nf: "get_num_free_blocks p = int (length xs)"
    using queue_reprD(6) [OF r(3)] by (simp add: get_num_free_blocks_def)
  let ?p = "set_heap (fold reset_hash (map Blk [0..<num_gpu_blocks p]) (blk p))
      (p\<lparr> cached_block_hash_to_block := (\<lambda>_. None) \<rparr>)"
  have "pool_repr ?p xs"
    using assms(1) bm.empty_law by (auto simp: pool_inv_def pool_blocks_def set_heap_repr)
  then show ?thesis
    using assms nf by (auto simp: reset_prefix_cache_def Let_def pool_blocks_def split: if_splits)
qed

definition cached_for :: "block_pool \<Rightarrow> bytes \<Rightarrow> nat \<Rightarrow> ref \<Rightarrow> bool" where
  "cached_for p h g b \<longleftrightarrow> b \<in> pool_blocks p \<and> block_hash (blk p b) = Some (hash_key g h)"

lemma get_cached_block_spec:
  assumes "pool_inv p xs P" and "\<forall>g \<in> set gs. g < 2 ^ 32"
  shows "\<exists>r. get_cached_block h gs p = Inr r
    \<and> (case r of Some bs \<Rightarrow> list_all2 (cached_for p h) gs bs | None \<Rightarrow> \<exists>g \<in> set gs. \<forall>b. \<not> cached_for p h g b)"
  using assms(2)
proof (induction gs)
  case (Cons g gs)
  note r = pool_invD [OF assms(1)]
  obtain x where x: "get_one_block (hash_key g h) (cached_block_hash_to_block p) = Inr x"
    "case x of Some b \<Rightarrow> cached_for p h g b | None \<Rightarrow> \<forall>b. \<not> cached_for p h g b"
    using bm.get_law [OF r(9), of "hash_key g h"] r(10) by (auto simp: cached_for_def split: option.splits)
  obtain y where "get_cached_block h gs p = Inr y"
    "case y of Some bs \<Rightarrow> list_all2 (cached_for p h) gs bs | None \<Rightarrow> \<exists>g \<in> set gs. \<forall>b. \<not> cached_for p h g b"
    using Cons by auto
  then show ?case
    using x Cons.prems make_hash_key [of g h] by (auto split: option.splits)
qed simp

lemma free_count:
  assumes "pool_repr p xs"
  shows "length xs + 1 \<le> num_gpu_blocks p"
proof -
  note r = pool_invD [OF assms]
  have "set xs \<subseteq> Blk ` {1..<num_gpu_blocks p}"
  proof
    fix b
    assume "b \<in> set xs"
    then obtain i where "b = Blk i" "i < num_gpu_blocks p" "i \<noteq> 0" using r(7) [of b] by (auto simp: pool_blocks_def)
    then show "b \<in> Blk ` {1..<num_gpu_blocks p}" by auto
  qed
  then have "card (set xs) \<le> card (Blk ` {1..<num_gpu_blocks p})" by (intro card_mono) auto
  also have "\<dots> = num_gpu_blocks p - 1" by (simp add: card_image inj_on_def)
  finally show ?thesis
    using distinct_card [of xs] queue_reprD(3) [OF r(3)] r(1) by simp
qed


section \<open>The pool as a transition system\<close>

definition init_state :: "block_pool \<Rightarrow> bool" where
  "init_state p \<longleftrightarrow> (\<exists>n caching evs. init_pool n caching evs = Inr p)"

text \<open>One call of an operation that succeeds; the guards are the contracts of the callers.\<close>

inductive pool_step :: "block_pool \<Rightarrow> block_pool \<Rightarrow> bool" where
  get: "get_new_blocks ui n p = Inr (ret, p') \<Longrightarrow> pool_step p p'"
| touch: "set (concat gs) \<subseteq> pool_blocks p \<Longrightarrow> touch gs p = Inr p' \<Longrightarrow> pool_step p p'"
| free: "freeable bs p \<Longrightarrow> free_blocks bs p = Inr p' \<Longrightarrow> pool_step p p'"
| cache: "\<lbrakk> cacheable (py_slice blocks nc nf) p; g < 2 ^ 32; 0 \<le> nc; nf \<le> int (length blocks);
            nc = 0 \<or> block_hash (blk p (blocks ! nat (nc - 1))) \<noteq> None;
            cache_full_blocks ui rq blocks nc nf bs g p = Inr p' \<rbrakk> \<Longrightarrow> pool_step p p'"
| evict: "b \<in> pool_blocks p \<Longrightarrow> maybe_evict_cached_block ui b p = (evicted, p') \<Longrightarrow> pool_step p p'"
| reset: "reset_prefix_cache p = (ok, p') \<Longrightarrow> pool_step p p'"
| events: "take_events p = (evs, p') \<Longrightarrow> pool_step p p'"

abbreviation pool_good :: "block_pool \<Rightarrow> bool" where
  "pool_good p \<equiv> \<exists>xs. pool_repr p xs"

lemma pool_step_good:
  assumes "pool_repr p xs" and "pool_step p p'"
  shows "pool_good p'"
  using assms(2)
proof cases
  case (get ui n ret)
  then have "n \<le> length xs" using get_new_blocks_short [OF assms(1), of n ui] by (cases "length xs < n") auto
  then show ?thesis using get get_new_blocks_inv [OF assms(1), of n ui] by auto
next
  case (touch gs)
  then show ?thesis using touch_blocks_inv [OF assms(1), of "concat gs"] by (auto simp: touch_concat)
next
  case (free bs)
  then show ?thesis using free_blocks_inv [OF assms(1) free(1)] by auto
next
  case (cache blocks nc nf g ui rq bs)
  show ?thesis
  proof (cases "nc < nf")
    case True
    have len: "nf \<le> int (length (block_hashes rq))"
      using cache(6) True by (auto simp: cache_full_blocks_def split: if_splits)
    then show ?thesis
      using cache_full_blocks_inv [OF assms(1) cache(3) True cache(4) len cache(2,1,5), of ui bs] cache(6) by auto
  qed (use cache(6) assms(1) in \<open>auto simp: cache_full_blocks_def\<close>)
next
  case (evict b ui evicted)
  then show ?thesis using evict_inv [OF assms(1), of b ui] by auto
next
  case (reset ok)
  then show ?thesis using reset_inv [OF assms(1)] by blast
next
  case (events evs)
  then show ?thesis using assms(1) by (auto simp: take_events_def split: if_splits)
qed

interpretation pool: invariant_system init_state pool_step pool_good
proof
  show "pool_good s" if "init_state s" for s
  proof -
    obtain n c e where i: "init_pool n c e = Inr s" using \<open>init_state s\<close> by (auto simp: init_state_def)
    then have "0 < n" by (auto simp: init_pool_def)
    then show ?thesis using init_pool_inv [of n c e] i by auto
  qed
  show "pool_good s'" if "pool_good s" "pool_step s s'" for s s'
    using that pool_step_good by blast
qed

section \<open>Properties\<close>

text \<open>C22.  In every state the pool can reach, under callers that respect the contracts of the
  operations: the walk over the free list returns exactly the blocks without a reference, each once,
  and never the null block; the counter of free blocks is their number; no reference count is
  negative; a block has a hash exactly when the index of cached blocks holds it under that hash; and
  the null block has none.\<close>

theorem pool_consistent:
  assumes "init_state p0" and "pool_step\<^sup>*\<^sup>* p0 p"
  shows "\<exists>xs. get_all_free_blocks (free_block_queue p) = Some (Inr xs) \<and> distinct xs
    \<and> set xs = {b \<in> pool_blocks p. b \<noteq> null_block p \<and> ref_cnt (blk p b) = 0}
    \<and> get_num_free_blocks p = int (length xs)
    \<and> (\<forall>b \<in> pool_blocks p. b \<noteq> null_block p \<longrightarrow> 0 \<le> ref_cnt (blk p b))
    \<and> map_pairs (cached_block_hash_to_block p) = {(k, b). b \<in> pool_blocks p \<and> block_hash (blk p b) = Some k}
    \<and> block_hash (blk p (null_block p)) = None"
proof -
  obtain xs where xs: "pool_repr p xs" using pool.reachable_good [OF assms] by blast
  note r = pool_invD [OF xs]
  have "set xs = {b \<in> pool_blocks p. b \<noteq> Blk 0 \<and> ref_cnt (blk p b) = 0}" using r(7) by auto
  then show ?thesis
    using r(2,8,10,11) get_all_repr [OF r(3)] queue_reprD(3,6) [OF r(3)] by (auto simp: get_num_free_blocks_def)
qed

text \<open>C23.  Allocation takes the least recently freed blocks: when the free list holds \<open>xs\<close>, a request
  for \<open>n\<close> blocks succeeds exactly when \<open>n\<close> is at most the number of free blocks, and gives the first \<open>n\<close>
  of them, each with one reference and, when caching is enabled, with its cached hash evicted; no
  other block changes.  Otherwise \<open>ValueError\<close> is raised.\<close>

theorem get_new_blocks_allocates:
  assumes "pool_repr p xs"
  shows "if n \<le> length xs
    then \<exists>p'. get_new_blocks ui n p = Inr (take n xs, p') \<and> pool_repr p' (drop n xs)
      \<and> (\<forall>b. ref_cnt (blk p' b) = (if b \<in> set (take n xs) then 1 else ref_cnt (blk p b)))
      \<and> (\<forall>b. block_hash (blk p' b)
             = (if b \<in> set (take n xs) \<and> enable_caching p then None else block_hash (blk p b)))
    else get_new_blocks ui n p = Inl (ValueError ''Cannot get free blocks from the pool'')"
  using get_new_blocks_inv [OF assms, of n ui] get_new_blocks_short [OF assms, of n ui] by auto

text \<open>C24.  Sharing and releasing: touching blocks adds a reference for every occurrence and takes
  them out of the free list; freeing removes a reference from each block and appends those that lose
  their last one to the free list, in the given order; freeing what was touched restores every
  reference count.\<close>

theorem touch_and_free:
  assumes "pool_repr p xs" and "set bs \<subseteq> pool_blocks p - {Blk 0}" and "distinct bs"
  shows "\<exists>p1 p2. touch [bs] p = Inr p1 \<and> pool_repr p1 (filter (\<lambda>b. b \<notin> set bs) xs)
    \<and> (\<forall>b. ref_cnt (blk p1 b) = ref_cnt (blk p b) + (if b \<in> set bs then 1 else 0))
    \<and> free_blocks bs p1 = Inr p2
    \<and> pool_repr p2 (filter (\<lambda>b. b \<notin> set bs) xs @ filter (\<lambda>b. ref_cnt (blk p b) = 0) bs)
    \<and> (\<forall>b. ref_cnt (blk p2 b) = ref_cnt (blk p b) \<and> block_hash (blk p2 b) = block_hash (blk p b))"
proof -
  have c: "int (count_list bs b) = (if b \<in> set bs then 1 else 0)" for b
    using count_list_filter_distinct [of "\<lambda>_. True" bs b] assms(3) by simp
  obtain p1 where p1: "touch [bs] p = Inr p1" "pool_repr p1 (filter (\<lambda>b. b \<notin> set bs) xs)" "same_config p p1"
    "\<forall>b. ref_cnt (blk p1 b) = ref_cnt (blk p b) + (if b \<in> set bs then 1 else 0)"
    "\<forall>b. block_hash (blk p1 b) = block_hash (blk p b)"
    using touch_blocks_inv [OF assms(1), of bs] assms(2) by (auto simp: touch_concat c)
  have "freeable bs p1"
    using assms(2,3) p1(4) pool_blocks_config [OF p1(3)] pool_invD(8) [OF assms(1)]
    by (auto simp: freeable_def)
  then obtain p2 where p2: "free_blocks bs p1 = Inr p2"
    "pool_repr p2 (filter (\<lambda>b. b \<notin> set bs) xs @ released bs p1)"
    "\<forall>b. ref_cnt (blk p2 b) = ref_cnt (blk p1 b) - int (count_list bs b)"
    "\<forall>b. block_hash (blk p2 b) = block_hash (blk p1 b)"
    using free_blocks_inv [OF p1(2)] by blast
  have "released bs p1 = filter (\<lambda>b. ref_cnt (blk p b) = 0) bs"
    using p1(4) assms(2) by (auto intro!: filter_cong)
  then show ?thesis using p1 p2 by (auto simp: c)
qed


text \<open>C25.  A lookup by block hash never fails, and is exact: it answers with one cached block per
  group, each carrying the hash for its group, or with a miss when some group has no such block.\<close>

theorem get_cached_block_exact:
  assumes "pool_repr p xs" and "list_all (\<lambda>g. g < 2 ^ 32) gs"
  shows "\<exists>r. get_cached_block h gs p = Inr r
    \<and> (case r of
         Some bs \<Rightarrow> list_all2 (\<lambda>g b. b \<in> pool_blocks p \<and> block_hash (blk p b) = Some (h @ be_bytes 4 g)) gs bs
       | None \<Rightarrow> \<exists>g \<in> set gs. \<forall>b \<in> pool_blocks p. block_hash (blk p b) \<noteq> Some (h @ be_bytes 4 g))"
proof -
  have "\<forall>g \<in> set gs. g < 2 ^ 32" using assms(2) by (simp add: list_all_iff)
  from get_cached_block_spec [OF assms(1) this, of h] obtain r where
    r: "get_cached_block h gs p = Inr r"
    "case r of Some bs \<Rightarrow> list_all2 (cached_for p h) gs bs | None \<Rightarrow> \<exists>g \<in> set gs. \<forall>b. \<not> cached_for p h g b" by blast
  then show ?thesis
    by (intro exI [of _ r]) (auto simp: cached_for_def [abs_def] hash_key_def split: option.splits)
qed

text \<open>C26.  Progress: in every reachable state, a request for \<open>n\<close> blocks succeeds exactly when at
  least \<open>n\<close> blocks other than the null block have no reference; the usage lies between 0 and 1, and is 0
  exactly when every such block is free.\<close>

theorem allocation_progress:
  assumes "init_state p0" and "pool_step\<^sup>*\<^sup>* p0 p"
  shows "((\<exists>ret p'. get_new_blocks ui n p = Inr (ret, p'))
        \<longleftrightarrow> n \<le> card {b \<in> pool_blocks p. b \<noteq> null_block p \<and> ref_cnt (blk p b) = 0})
    \<and> 0 \<le> get_usage p \<and> get_usage p \<le> 1
    \<and> (get_usage p = 0 \<longleftrightarrow> (\<forall>b \<in> pool_blocks p. b = null_block p \<or> ref_cnt (blk p b) = 0))"
proof -
  obtain xs where xs: "pool_repr p xs" using pool.reachable_good [OF assms] by blast
  note r = pool_invD [OF xs]
  have set: "{b \<in> pool_blocks p. b \<noteq> null_block p \<and> ref_cnt (blk p b) = 0} = set xs" using r(2,7) by auto
  have d: "card (set xs) = length xs" using queue_reprD(3) [OF r(3)] by (rule distinct_card)
  have nf: "get_num_free_blocks p = int (length xs)"
    using queue_reprD(6) [OF r(3)] by (simp add: get_num_free_blocks_def)
  let ?t = "num_gpu_blocks p - 1"
  have "card (pool_blocks p - {Blk 0}) = ?t"
    using r(1) by (simp add: pool_blocks_def card_Diff_singleton card_image inj_on_def)
  moreover have "set xs \<subseteq> pool_blocks p - {Blk 0}" "finite (pool_blocks p - {Blk 0})"
    using set r(2) by (auto simp: pool_blocks_def)
  ultimately have all: "length xs = ?t \<longleftrightarrow> set xs = pool_blocks p - {Blk 0}"
    using d by (metis card_subset_eq)
  have le: "length xs \<le> ?t" using free_count [OF xs] by simp
  have u: "get_usage p = (if ?t = 0 then 0 else 1 - of_nat (length xs) / of_nat ?t)"
    using r(1) nf by (simp add: get_usage_def Let_def of_nat_diff)
  have "get_usage p = 0 \<longleftrightarrow> length xs = ?t" using le u by (auto simp: field_simps)
  moreover have "0 \<le> get_usage p \<and> get_usage p \<le> 1" using le u by (auto simp: field_simps)
  ultimately show ?thesis
    using get_new_blocks_inv [OF xs, of n ui] get_new_blocks_short [OF xs, of n ui] d all r(2)
    unfolding set by (cases "n \<le> length xs") (auto simp: set [symmetric])
qed

section \<open>A sample pool\<close>

definition sample_pool :: block_pool where
  "sample_pool = (case init_pool 4 True True of Inr p \<Rightarrow> p | Inl _ \<Rightarrow> undefined)"

lemma sample_pool_init: "init_pool 4 True True = Inr sample_pool" "pool_repr sample_pool [Blk 1, Blk 2, Blk 3]"
  "num_gpu_blocks sample_pool = 4" "init_state sample_pool"
proof -
  have "[1..<4] = [1, 2, 3::nat]" by code_simp
  then obtain p where p: "init_pool 4 True True = Inr p" "pool_repr p [Blk 1, Blk 2, Blk 3]" "num_gpu_blocks p = 4"
    using init_pool_inv [of 4 True True] by auto
  then have "sample_pool = p" by (simp add: sample_pool_def)
  then show "init_pool 4 True True = Inr sample_pool" "pool_repr sample_pool [Blk 1, Blk 2, Blk 3]"
    "num_gpu_blocks sample_pool = 4" "init_state sample_pool"
    using p by (auto simp: init_state_def)
qed

lemma sample_pool_blocks: "pool_blocks sample_pool = {Blk 0, Blk 1, Blk 2, Blk 3}"
  by (auto simp: pool_blocks_def sample_pool_init(3) less_Suc_eq numeral_eq_Suc)

theorem pool_consistent_witness:
  "\<exists>xs. get_all_free_blocks (free_block_queue sample_pool) = Some (Inr xs) \<and> distinct xs"
  using pool_consistent [OF sample_pool_init(4) rtranclp.rtrancl_refl] by blast

theorem get_new_blocks_allocates_witness:
  "(\<exists>p'. get_new_blocks False 2 sample_pool = Inr ([Blk 1, Blk 2], p') \<and> pool_repr p' [Blk 3])
   \<and> get_new_blocks False 4 sample_pool = Inl (ValueError ''Cannot get free blocks from the pool'')"
  using get_new_blocks_allocates [OF sample_pool_init(2), of 2 False]
    get_new_blocks_allocates [OF sample_pool_init(2), of 4 False] by auto

theorem touch_and_free_witness:
  "\<exists>p1 p2. touch [[Blk 2]] sample_pool = Inr p1 \<and> pool_repr p1 [Blk 1, Blk 3] \<and> free_blocks [Blk 2] p1 = Inr p2"
  using touch_and_free [OF sample_pool_init(2), of "[Blk 2]"] sample_pool_blocks by auto

theorem get_cached_block_exact_witness: "\<exists>r. get_cached_block [7] [0, 1] sample_pool = Inr r"
  using get_cached_block_exact [OF sample_pool_init(2), of "[0, 1]" "[7]"] by auto

theorem allocation_progress_witness: "0 \<le> get_usage sample_pool \<and> get_usage sample_pool \<le> 1"
  using allocation_progress [OF sample_pool_init(4) rtranclp.rtrancl_refl] by blast

end
