(* ===== verification/KV_Spec.thy ===== *)
theory KV_Spec
  imports Math_Utils
begin

text \<open>
  The specification of a layer's KV cache (\<open>vllm/v1/kv_cache_interface.py\<close>): the classes of
  specs, their page size and maximal memory, and their merging.  A \<open>torch.dtype\<close> is its name; its
  size in bytes (\<open>get_dtype_size\<close>) is the parameter \<open>ds\<close>.  The fields of \<open>VllmConfig\<close> that the KV
  cache code reads form the record \<open>vllm_config\<close>.
\<close>

section \<open>Data\<close>

type_synonym dtype = string

record attention_fields =
  num_kv_heads :: int
  head_size :: int
  dtype :: dtype

datatype kv_spec =
    FullAttentionSpec int attention_fields "int option" "int option"
  | MLAAttentionSpec int attention_fields "int option" "int option" "string option"
  | ChunkedLocalAttentionSpec int attention_fields int
  | SlidingWindowSpec int attention_fields int
  | MambaSpec int "int list list" "dtype list" "int option" string int
  | EncoderOnlyAttentionSpec int attention_fields
  | CrossAttentionSpec int attention_fields
  | UniformTypeKVCacheSpecs int "(string \<times> kv_spec) list"

record vllm_config =
  max_model_len :: int
  decode_context_parallel_size :: int
  prefill_context_parallel_size :: int
  max_num_batched_tokens :: int
  max_num_encoder_input_tokens :: int
  disable_hybrid_kv_cache_manager :: bool
  num_gpu_blocks_override :: "int option"

record KVCacheTensor =
  tensor_size :: int
  shared_by :: "string list"

record KVCacheGroupSpec =
  layer_names :: "string list"
  kv_cache_spec :: kv_spec

record KVCacheConfig =
  num_blocks :: int
  kv_cache_tensors :: "KVCacheTensor list"
  kv_cache_groups :: "KVCacheGroupSpec list"

fun block_size :: "kv_spec \<Rightarrow> int" where
  "block_size (FullAttentionSpec b _ _ _) = b"
| "block_size (MLAAttentionSpec b _ _ _ _) = b"
| "block_size (ChunkedLocalAttentionSpec b _ _) = b"
| "block_size (SlidingWindowSpec b _ _) = b"
| "block_size (MambaSpec b _ _ _ _ _) = b"
| "block_size (EncoderOnlyAttentionSpec b _) = b"
| "block_size (CrossAttentionSpec b _) = b"
| "block_size (UniformTypeKVCacheSpecs b _) = b"

text \<open>\<open>isinstance(spec, FullAttentionSpec)\<close>: the MLA spec is a subclass.\<close>

fun is_full_attention :: "kv_spec \<Rightarrow> bool" where
  "is_full_attention (FullAttentionSpec _ _ _ _) \<longleftrightarrow> True"
| "is_full_attention (MLAAttentionSpec _ _ _ _ _) \<longleftrightarrow> True"
| "is_full_attention _ \<longleftrightarrow> False"

fun is_mla :: "kv_spec \<Rightarrow> bool" where
  "is_mla (MLAAttentionSpec _ _ _ _ _) \<longleftrightarrow> True"
| "is_mla _ \<longleftrightarrow> False"

fun copy_with_new_block_size :: "int \<Rightarrow> kv_spec \<Rightarrow> kv_spec" where
  "copy_with_new_block_size n (FullAttentionSpec _ a sw cs) = FullAttentionSpec n a sw cs"
| "copy_with_new_block_size n (MLAAttentionSpec _ a sw cs d) = MLAAttentionSpec n a sw cs d"
| "copy_with_new_block_size n (ChunkedLocalAttentionSpec _ a c) = ChunkedLocalAttentionSpec n a c"
| "copy_with_new_block_size n (SlidingWindowSpec _ a w) = SlidingWindowSpec n a w"
| "copy_with_new_block_size n (MambaSpec _ sh dt pp ty sp) = MambaSpec n sh dt pp ty sp"
| "copy_with_new_block_size n (EncoderOnlyAttentionSpec _ a) = EncoderOnlyAttentionSpec n a"
| "copy_with_new_block_size n (CrossAttentionSpec _ a) = CrossAttentionSpec n a"
| "copy_with_new_block_size n (UniformTypeKVCacheSpecs _ s) = UniformTypeKVCacheSpecs n s"

section \<open>Page size and memory\<close>

lemma mapE_cong [fundef_cong]:
  "xs = ys \<Longrightarrow> (\<And>x. x \<in> set ys \<Longrightarrow> f x = g x) \<Longrightarrow> mapE f xs = mapE g ys"
  by (induction ys arbitrary: xs) auto

text \<open>Division with the exception of Python, and \<open>max\<close> of an iterable.\<close>

definition cdivE :: "int \<Rightarrow> int \<Rightarrow> py_exn + int" where
  "cdivE a b = (if b = 0 then Inl ZeroDivisionError else Inr (cdiv a b))"

definition maxE :: "int list \<Rightarrow> py_exn + int" where
  "maxE xs = (if xs = [] then Inl (ValueError ''max() arg is an empty sequence'') else Inr (Max (set xs)))"

definition attention_page_size :: "(dtype \<Rightarrow> int) \<Rightarrow> int \<Rightarrow> attention_fields \<Rightarrow> int" where
  "attention_page_size ds b a = 2 * b * num_kv_heads a * head_size a * ds (dtype a)"

definition mamba_page_size ::
  "(dtype \<Rightarrow> int) \<Rightarrow> int list list \<Rightarrow> dtype list \<Rightarrow> int option \<Rightarrow> py_exn + int" where
  "mamba_page_size ds shapes dtypes padded =
     (let page_size = sum_list (map (\<lambda>(shape, d). prod_list shape * ds d) (zip shapes dtypes))
      in case padded of
           None \<Rightarrow> Inr page_size
         | Some n \<Rightarrow> bindE (raise_if (\<not> n \<ge> page_size) (AssertionError [])) (\<lambda>_. Inr n))"

fun page_size_bytes :: "(dtype \<Rightarrow> int) \<Rightarrow> kv_spec \<Rightarrow> py_exn + int" where
  "page_size_bytes ds (FullAttentionSpec b a _ _) = Inr (attention_page_size ds b a)"
| "page_size_bytes ds (MLAAttentionSpec b a _ _ d) =
     Inr (if d = Some ''fp8_ds_mla'' then b * 656
          else b * num_kv_heads a * head_size a * ds (dtype a))"
| "page_size_bytes ds (ChunkedLocalAttentionSpec b a _) = Inr (attention_page_size ds b a)"
| "page_size_bytes ds (SlidingWindowSpec b a _) = Inr (attention_page_size ds b a)"
| "page_size_bytes ds (MambaSpec b shapes dtypes padded _ _) = mamba_page_size ds shapes dtypes padded"
| "page_size_bytes ds (EncoderOnlyAttentionSpec b a) = Inr (attention_page_size ds b a)"
| "page_size_bytes ds (CrossAttentionSpec b a) = Inr (attention_page_size ds b a)"
| "page_size_bytes ds (UniformTypeKVCacheSpecs b specs) =
     bindE (mapE (\<lambda>e. page_size_bytes ds (snd e)) specs) (\<lambda>ns. Inr (sum_list ns))"

text \<open>The number of pages a spec may need, and the memory.\<close>

definition full_attention_tokens :: "vllm_config \<Rightarrow> int" where
  "full_attention_tokens cfg =
     (let w = decode_context_parallel_size cfg * prefill_context_parallel_size cfg
      in if w > 1 then cdiv (max_model_len cfg) w else max_model_len cfg)"

fun spec_max_memory_usage_bytes :: "(dtype \<Rightarrow> int) \<Rightarrow> vllm_config \<Rightarrow> kv_spec \<Rightarrow> py_exn + int" where
  "spec_max_memory_usage_bytes ds cfg (FullAttentionSpec b a sw cs) =
     bindE (cdivE (full_attention_tokens cfg) b) (\<lambda>n.
     bindE (page_size_bytes ds (FullAttentionSpec b a sw cs)) (\<lambda>p. Inr (n * p)))"
| "spec_max_memory_usage_bytes ds cfg (MLAAttentionSpec b a sw cs d) =
     bindE (cdivE (full_attention_tokens cfg) b) (\<lambda>n.
     bindE (page_size_bytes ds (MLAAttentionSpec b a sw cs d)) (\<lambda>p. Inr (n * p)))"
| "spec_max_memory_usage_bytes ds cfg (ChunkedLocalAttentionSpec b a c) =
     bindE (cdivE (min (c + max_num_batched_tokens cfg) (max_model_len cfg)) b) (\<lambda>n.
     Inr (n * attention_page_size ds b a))"
| "spec_max_memory_usage_bytes ds cfg (SlidingWindowSpec b a w) =
     bindE (raise_if (decode_context_parallel_size cfg \<noteq> 1) (AssertionError ''DCP not support sliding window.'')) (\<lambda>_.
     bindE (cdivE (min (w - 1 + max_num_batched_tokens cfg) (max_model_len cfg)) b) (\<lambda>n.
     Inr ((n + 1) * attention_page_size ds b a)))"
| "spec_max_memory_usage_bytes ds cfg (MambaSpec b sh dt pp ty sp) =
     bindE (cdivE (max_model_len cfg) b) (\<lambda>n.
     bindE (mamba_page_size ds sh dt pp) (\<lambda>p. Inr (n * p)))"
| "spec_max_memory_usage_bytes ds cfg (EncoderOnlyAttentionSpec b a) = Inr 0"
| "spec_max_memory_usage_bytes ds cfg (CrossAttentionSpec b a) =
     bindE (cdivE (max_num_encoder_input_tokens cfg) b) (\<lambda>n. Inr (n * attention_page_size ds b a))"
| "spec_max_memory_usage_bytes ds cfg (UniformTypeKVCacheSpecs b specs) =
     bindE (mapE (\<lambda>e. bindE (spec_max_memory_usage_bytes ds cfg (snd e)) (\<lambda>m.
                      bindE (page_size_bytes ds (snd e)) (cdivE m))) specs) (\<lambda>ns.
     bindE (maxE ns) (\<lambda>n.
     bindE (mapE (\<lambda>e. page_size_bytes ds (snd e)) specs) (\<lambda>ps. Inr (n * sum_list ps))))"

section \<open>Merging\<close>

text \<open>\<open>KVCacheSpec.merge\<close>: the first spec, when all are equal.\<close>

definition merge_equal :: "kv_spec list \<Rightarrow> py_exn + kv_spec" where
  "merge_equal specs =
     (case specs of
        [] \<Rightarrow> Inl IndexError
      | s # ss \<Rightarrow>
          bindE (raise_if (\<not> list_all (\<lambda>x. x = s) ss)
            (AssertionError ''All layers in the same KV cache group must be the same.'')) (\<lambda>_. Inr s))"

text \<open>\<open>merge_window_sizes\<close> on the set of the sizes that are given.\<close>

definition merge_window_sizes :: "int list \<Rightarrow> py_exn + int option" where
  "merge_window_sizes ws =
     (case remdups ws of
        [] \<Rightarrow> Inr None
      | [w] \<Rightarrow> Inr (Some w)
      | _ \<Rightarrow> Inl (ValueError ''All attention layers in the same KV cache group must have the same window size.''))"

fun attention_part :: "kv_spec \<Rightarrow> (int \<times> attention_fields) option" where
  "attention_part (FullAttentionSpec b a _ _) = Some (b, a)"
| "attention_part (MLAAttentionSpec b a _ _ _) = Some (b, a)"
| "attention_part (ChunkedLocalAttentionSpec b a _) = Some (b, a)"
| "attention_part (SlidingWindowSpec b a _) = Some (b, a)"
| "attention_part (EncoderOnlyAttentionSpec b a) = Some (b, a)"
| "attention_part (CrossAttentionSpec b a) = Some (b, a)"
| "attention_part _ = None"

fun full_window :: "kv_spec \<Rightarrow> int option" where
  "full_window (FullAttentionSpec _ _ sw _) = sw"
| "full_window (MLAAttentionSpec _ _ sw _ _) = sw"
| "full_window _ = None"

fun full_chunk :: "kv_spec \<Rightarrow> int option" where
  "full_chunk (FullAttentionSpec _ _ _ cs) = cs"
| "full_chunk (MLAAttentionSpec _ _ _ cs _) = cs"
| "full_chunk _ = None"

definition merge_full :: "kv_spec list \<Rightarrow> py_exn + kv_spec" where
  "merge_full specs =
     bindE (raise_if (\<not> list_all is_full_attention specs)
       (AssertionError ''All attention layers in the same KV cache group must be FullAttentionSpec.'')) (\<lambda>_.
     bindE (raise_if (list_ex is_mla specs)
       (AssertionError ''MLAAttentionSpec should be merged in MLAAttentionSpec.merge'')) (\<lambda>_.
     bindE (of_option IndexError (case specs of [] \<Rightarrow> None | s # _ \<Rightarrow> attention_part s)) (\<lambda>(b, a).
     bindE (merge_window_sizes (List.map_filter full_window specs)) (\<lambda>sw.
     bindE (merge_window_sizes (List.map_filter full_chunk specs)) (\<lambda>cs.
     bindE (raise_if (\<not> list_all (\<lambda>s. attention_part s = Some (b, a)) specs)
       (AssertionError ''All attention layers in the same KV cache group must have the same attention spec.'')) (\<lambda>_.
     bindE (raise_if (sw \<noteq> None \<and> cs \<noteq> None)
       (AssertionError ''Model with both sliding window layers and chunked local attention layers is not supported.'')) (\<lambda>_.
     Inr (FullAttentionSpec b a sw cs))))))))"

fun mla_cache_dtype :: "kv_spec \<Rightarrow> string option" where
  "mla_cache_dtype (MLAAttentionSpec _ _ _ _ d) = d"
| "mla_cache_dtype _ = None"

definition merge_mla :: "kv_spec list \<Rightarrow> py_exn + kv_spec" where
  "merge_mla specs =
     bindE (raise_if (\<not> list_all is_mla specs)
       (AssertionError ''All attention layers in the same KV cache group must be MLAAttentionSpec.'')) (\<lambda>_.
     case remdups (map mla_cache_dtype specs) of
       [d] \<Rightarrow>
         bindE (of_option IndexError (case specs of [] \<Rightarrow> None | s # _ \<Rightarrow> attention_part s)) (\<lambda>(b, a).
         Inr (MLAAttentionSpec b a None None d))
     | _ \<Rightarrow> Inl (AssertionError ''All attention layers in the same KV cache group must use the same quantization method.''))"

text \<open>\<open>specs[0].merge(specs)\<close>: the class method of the first spec's class.\<close>

definition merge_specs :: "kv_spec list \<Rightarrow> py_exn + kv_spec" where
  "merge_specs specs =
     (case specs of
        [] \<Rightarrow> Inl IndexError
      | s # _ \<Rightarrow>
          if is_mla s then merge_mla specs
          else if is_full_attention s then merge_full specs
          else merge_equal specs)"

section \<open>Uniform types\<close>

fun same_type :: "kv_spec \<Rightarrow> kv_spec \<Rightarrow> bool" where
  "same_type (FullAttentionSpec _ _ _ _) s \<longleftrightarrow> is_full_attention s"
| "same_type (MLAAttentionSpec _ _ _ _ _) s \<longleftrightarrow> is_full_attention s"
| "same_type (CrossAttentionSpec _ _) s \<longleftrightarrow> (case s of CrossAttentionSpec _ _ \<Rightarrow> True | _ \<Rightarrow> False)"
| "same_type (SlidingWindowSpec _ _ w) s \<longleftrightarrow> (case s of SlidingWindowSpec _ _ w' \<Rightarrow> w' = w | _ \<Rightarrow> False)"
| "same_type (ChunkedLocalAttentionSpec _ _ c) s \<longleftrightarrow> (case s of ChunkedLocalAttentionSpec _ _ c' \<Rightarrow> c' = c | _ \<Rightarrow> False)"
| "same_type (MambaSpec _ _ _ _ _ n) s \<longleftrightarrow> (case s of MambaSpec _ _ _ _ _ n' \<Rightarrow> n' = n | _ \<Rightarrow> False)"
| "same_type _ s \<longleftrightarrow> False"

fun type_supported :: "kv_spec \<Rightarrow> bool" where
  "type_supported (EncoderOnlyAttentionSpec _ _) \<longleftrightarrow> False"
| "type_supported (UniformTypeKVCacheSpecs _ _) \<longleftrightarrow> False"
| "type_supported _ \<longleftrightarrow> True"

definition is_uniform_type :: "(string \<times> kv_spec) list \<Rightarrow> py_exn + bool" where
  "is_uniform_type specs =
     (if length (remdups (map (block_size \<circ> snd) specs)) > 1 then Inr False
      else
        (case specs of
           [] \<Rightarrow> Inl StopIteration
         | e # _ \<Rightarrow>
             if \<not> type_supported (snd e) then Inl (NotImplementedError ''Unsupported KV cache spec type'')
             else Inr (list_all (\<lambda>f. same_type (snd e) (snd f)) specs)))"

definition from_specs :: "(string \<times> kv_spec) list \<Rightarrow> py_exn + kv_spec option" where
  "from_specs specs =
     bindE (is_uniform_type specs) (\<lambda>u.
     Inr (if u then (case specs of [] \<Rightarrow> None | e # _ \<Rightarrow> Some (UniformTypeKVCacheSpecs (block_size (snd e)) specs))
          else None))"

end
