(* ===== verification/Single_Type_Manager.thy ===== *)
theory Single_Type_Manager
  imports Block_Pool_Inv KV_Spec "HOL-Library.Finite_Map"
begin

text \<open>
  The managers of one type of attention layer (\<open>vllm/v1/core/single_type_kv_cache_manager.py\<close>).
  The class of a manager is decided by its spec; the methods that a subclass overrides
  branch on the spec.  The block pool is shared and passed along.  \<open>req_to_blocks\<close> is a
  \<open>defaultdict\<close>: reading a missing key with \<open>[]\<close> adds it.  Blocks are compared by identity, which
  agrees with the field-wise \<open>==\<close> of the source because block numbers are unique.
\<close>

section \<open>State\<close>

record manager =
  mgr_spec :: kv_spec
  mgr_block_size :: int
  req_to_blocks :: "(string, ref list) fmap"
  num_cached_block :: "(string, int) fmap"
  kv_cache_group_id :: nat

text \<open>\<open>d[key]\<close> of a \<open>defaultdict(list)\<close>: the value, and the dictionary with the key.\<close>

definition dd_get :: "string \<Rightarrow> (string, ref list) fmap \<Rightarrow> ref list" where
  "dd_get k d = (case fmlookup d k of Some v \<Rightarrow> v | None \<Rightarrow> [])"

definition dd_read :: "string \<Rightarrow> manager \<Rightarrow> ref list \<times> manager" where
  "dd_read k m =
     (dd_get k (req_to_blocks m), m\<lparr> req_to_blocks := fmupd k (dd_get k (req_to_blocks m)) (req_to_blocks m) \<rparr>)"

fun is_cross :: "kv_spec \<Rightarrow> bool" where
  "is_cross (CrossAttentionSpec _ _) \<longleftrightarrow> True"
| "is_cross _ \<longleftrightarrow> False"

fun has_manager :: "kv_spec \<Rightarrow> bool" where
  "has_manager (EncoderOnlyAttentionSpec _ _) \<longleftrightarrow> False"
| "has_manager (UniformTypeKVCacheSpecs _ _) \<longleftrightarrow> False"
| "has_manager _ \<longleftrightarrow> True"

text \<open>\<open>get_manager_for_kv_cache_spec\<close> and the constructor.\<close>

definition new_manager :: "kv_spec \<Rightarrow> nat \<Rightarrow> int \<Rightarrow> int \<Rightarrow> py_exn + manager" where
  "new_manager spec group_id dcp pcp =
     bindE (raise_if (\<not> has_manager spec) (KeyError ''spec_manager_map'')) (\<lambda>_.
     Inr \<lparr> mgr_spec = spec,
            mgr_block_size = (if dcp * pcp > 1 then block_size spec * (dcp * pcp) else block_size spec),
            req_to_blocks = fmempty, num_cached_block = fmempty, kv_cache_group_id = group_id \<rparr>)"

section \<open>Operations\<close>

text \<open>The extra tokens of a Mamba manager for speculative blocks.\<close>

fun extra_tokens :: "kv_spec \<Rightarrow> int" where
  "extra_tokens (MambaSpec b _ _ _ _ n) = (if n > 0 then b * n else 0)"
| "extra_tokens _ = 0"

definition get_num_blocks_to_allocate ::
  "string \<Rightarrow> int \<Rightarrow> ref list \<Rightarrow> block_pool \<Rightarrow> manager \<Rightarrow> int \<times> manager" where
  "get_num_blocks_to_allocate rid num_toks new_computed_blocks p m =
     (let num_required_blocks = cdiv (num_toks + extra_tokens (mgr_spec m)) (mgr_block_size m);
          (blocks, m1) = dd_read rid m;
          num_new_blocks = num_required_blocks - int (length new_computed_blocks) - int (length blocks);
          num_evictable = length (filter (\<lambda>b. ref_cnt (blk p b) = 0 \<and> \<not> is_null (blk p b)) new_computed_blocks)
      in (num_new_blocks + int num_evictable, m1))"

definition save_new_computed_blocks :: "string \<Rightarrow> ref list \<Rightarrow> manager \<Rightarrow> py_exn + manager" where
  "save_new_computed_blocks rid new_computed_blocks m =
     (if is_cross (mgr_spec m)
      then bindE (raise_if (new_computed_blocks \<noteq> []) (AssertionError [])) (\<lambda>_. Inr m)
      else if fmlookup (num_cached_block m) rid = None then
        (let (blocks, m1) = dd_read rid m
         in bindE (raise_if (blocks \<noteq> []) (AssertionError [])) (\<lambda>_.
            Inr (m1\<lparr> req_to_blocks := fmupd rid (blocks @ new_computed_blocks) (req_to_blocks m1),
                     num_cached_block := fmupd rid (int (length new_computed_blocks)) (num_cached_block m1) \<rparr>)))
      else bindE (raise_if (new_computed_blocks \<noteq> []) (AssertionError [])) (\<lambda>_. Inr m))"

definition allocate_new_blocks ::
  "bool \<Rightarrow> string \<Rightarrow> int \<Rightarrow> block_pool \<Rightarrow> manager \<Rightarrow> py_exn + (ref list \<times> block_pool \<times> manager)" where
  "allocate_new_blocks use_int rid num_toks p m =
     (let (blocks, m1) = dd_read rid m;
          num_required_blocks = cdiv (num_toks + extra_tokens (mgr_spec m)) (mgr_block_size m);
          num_new_blocks = num_required_blocks - int (length blocks)
      in if num_new_blocks \<le> 0 then Inr ([], p, m1)
         else
           bindE (get_new_blocks use_int (nat num_new_blocks) p) (\<lambda>(new_blocks, p1).
           Inr (new_blocks, p1,
                m1\<lparr> req_to_blocks := fmupd rid (blocks @ new_blocks) (req_to_blocks m1) \<rparr>)))"

definition cache_blocks ::
  "bool \<Rightarrow> Request \<Rightarrow> int \<Rightarrow> block_pool \<Rightarrow> manager \<Rightarrow> py_exn + (block_pool \<times> manager)" where
  "cache_blocks use_int request num_toks p m =
     (if is_cross (mgr_spec m) then Inl (ValueError ''Should not be called as prefix caching is disabled.'')
      else
        (let rid = request_id request;
             num_cached_blocks = (case fmlookup (num_cached_block m) rid of Some n \<Rightarrow> n | None \<Rightarrow> 0);
             num_full_blocks = num_toks div mgr_block_size m
         in if num_cached_blocks \<ge> num_full_blocks then Inr (p, m)
            else
              (let (blocks, m1) = dd_read rid m
               in bindE (cache_full_blocks use_int request blocks num_cached_blocks num_full_blocks
                           (mgr_block_size m) (kv_cache_group_id m) p) (\<lambda>p1.
                  Inr (p1, m1\<lparr> num_cached_block := fmupd rid num_full_blocks (num_cached_block m1) \<rparr>)))))"

definition mgr_free :: "string \<Rightarrow> block_pool \<Rightarrow> manager \<Rightarrow> py_exn + (block_pool \<times> manager)" where
  "mgr_free rid p m =
     (let blocks = dd_get rid (req_to_blocks m)
      in bindE (free_blocks (rev blocks) p) (\<lambda>p1.
         Inr (p1, m\<lparr> req_to_blocks := fmdrop rid (req_to_blocks m),
                     num_cached_block := fmdrop rid (num_cached_block m) \<rparr>)))"

fun get_num_skipped_tokens :: "kv_spec \<Rightarrow> int \<Rightarrow> int" where
  "get_num_skipped_tokens (SlidingWindowSpec _ _ w) num_computed = num_computed - w + 1"
| "get_num_skipped_tokens (ChunkedLocalAttentionSpec _ _ c) num_computed = (num_computed div c) * c"
| "get_num_skipped_tokens _ num_computed = 0"

text \<open>The loop of \<open>remove_skipped_blocks\<close>, from index \<open>i - 1\<close> down: \<open>(blocks, removed_blocks)\<close>.\<close>

fun skip_loop :: "ref \<Rightarrow> nat \<Rightarrow> ref list \<Rightarrow> ref list \<Rightarrow> py_exn + (ref list \<times> ref list)" where
  "skip_loop null 0 blocks removed = Inr (blocks, removed)"
| "skip_loop null (Suc i) blocks removed =
     (if i \<ge> length blocks then Inl IndexError
      else if blocks ! i = null then Inr (blocks, removed)
      else skip_loop null i (blocks[i := null]) (removed @ [blocks ! i]))"

definition remove_skipped_blocks ::
  "string \<Rightarrow> int \<Rightarrow> block_pool \<Rightarrow> manager \<Rightarrow> py_exn + (block_pool \<times> manager)" where
  "remove_skipped_blocks rid num_computed p m =
     (let num_skipped_tokens = get_num_skipped_tokens (mgr_spec m) num_computed
      in if num_skipped_tokens \<le> 0 then Inr (p, m)
         else
           (let num_skipped_blocks = num_skipped_tokens div mgr_block_size m;
                (blocks, m1) = dd_read rid m
            in bindE (skip_loop (null_block p) (nat num_skipped_blocks) blocks []) (\<lambda>(blocks', removed).
               bindE (free_blocks removed p) (\<lambda>p1.
               Inr (p1, m1\<lparr> req_to_blocks := fmupd rid blocks' (req_to_blocks m1) \<rparr>)))))"

text \<open>Only full attention counts common prefix blocks: the leading blocks that every entry of
  \<open>req_to_blocks\<close> shares.\<close>

definition get_num_common_prefix_blocks :: "string \<Rightarrow> block_pool \<Rightarrow> manager \<Rightarrow> int \<times> manager" where
  "get_num_common_prefix_blocks rid p m =
     (if is_full_attention (mgr_spec m) then
        (let (blocks, m1) = dd_read rid m
         in (int (length (takeWhile (\<lambda>b. ref_cnt (blk p b) = int (fcard (fmdom (req_to_blocks m1)))) blocks)), m1))
      else (0, m))"

section \<open>Prefix cache hits\<close>

text \<open>Appending one cached block to the list of every group.\<close>

definition extend_hits :: "ref list list \<Rightarrow> ref list \<Rightarrow> ref list list" where
  "extend_hits computed cached = map2 (\<lambda>c b. c @ [b]) computed cached"

text \<open>A hit is a non-empty list; the empty list is falsy.\<close>

definition lookup_hit :: "bytes \<Rightarrow> nat list \<Rightarrow> block_pool \<Rightarrow> py_exn + ref list option" where
  "lookup_hit h gs p =
     bindE (get_cached_block h gs p) (\<lambda>r. Inr (if r = Some [] then None else r))"

fun full_hit_loop ::
  "bytes list \<Rightarrow> nat list \<Rightarrow> block_pool \<Rightarrow> ref list list \<Rightarrow> py_exn + ref list list" where
  "full_hit_loop [] gs p computed = Inr computed"
| "full_hit_loop (h # hs) gs p computed =
     bindE (lookup_hit h gs p) (\<lambda>r.
     case r of
       None \<Rightarrow> Inr computed
     | Some cached \<Rightarrow> full_hit_loop hs gs p (extend_hits computed cached))"

text \<open>With EAGLE the last matched block is dropped.\<close>

definition drop_last_hit :: "bool \<Rightarrow> ref list list \<Rightarrow> py_exn + ref list list" where
  "drop_last_hit use_eagle computed =
     (if use_eagle then
        (case computed of
           [] \<Rightarrow> Inl IndexError
         | c # _ \<Rightarrow> Inr (if c \<noteq> [] then map butlast computed else computed))
      else Inr computed)"

fun full_manager_spec :: "kv_spec \<Rightarrow> bool" where
  "full_manager_spec (ChunkedLocalAttentionSpec _ _ _) \<longleftrightarrow> True"
| "full_manager_spec s \<longleftrightarrow> is_full_attention s"

definition find_full_hit ::
  "bytes list \<Rightarrow> int \<Rightarrow> nat list \<Rightarrow> block_pool \<Rightarrow> kv_spec \<Rightarrow> bool \<Rightarrow> int \<Rightarrow> int \<Rightarrow> py_exn + ref list list" where
  "find_full_hit hashes max_length gs p spec use_eagle dcp pcp =
     bindE (raise_if (\<not> full_manager_spec spec) (AssertionError ''FullAttentionManager'')) (\<lambda>_.
       (let bs = (if dcp * pcp > 1 then block_size spec * (dcp * pcp) else block_size spec);
            max_num_blocks = max_length div bs
        in bindE (raise_if (max_num_blocks < 0) (ValueError ''islice'')) (\<lambda>_.
           bindE (full_hit_loop (take (nat max_num_blocks) hashes) gs p (replicate (length gs) [])) (\<lambda>computed.
           drop_last_hit use_eagle computed))))"

text \<open>The search of the sliding window manager from block \<open>i - 1\<close> down:
  \<open>(computed_blocks, num_contiguous_blocks, match_found)\<close>.\<close>

fun window_loop ::
  "bytes list \<Rightarrow> nat list \<Rightarrow> block_pool \<Rightarrow> int \<Rightarrow> nat \<Rightarrow> ref list list \<Rightarrow> nat
     \<Rightarrow> py_exn + (ref list list \<times> nat \<times> bool)" where
  "window_loop hashes gs p needed 0 computed contiguous = Inr (computed, contiguous, False)"
| "window_loop hashes gs p needed (Suc i) computed contiguous =
     (if i \<ge> length hashes then Inl IndexError
      else
        bindE (lookup_hit (hashes ! i) gs p) (\<lambda>r.
        case r of
          None \<Rightarrow> window_loop hashes gs p needed i computed 0
        | Some cached \<Rightarrow>
            (let computed1 = map2 (\<lambda>c b. c[i := b]) computed cached
             in if int (contiguous + 1) \<ge> needed
                then Inr (map (take (i + (contiguous + 1))) computed1, contiguous + 1, True)
                else window_loop hashes gs p needed i computed1 (contiguous + 1))))"

definition find_window_hit ::
  "bytes list \<Rightarrow> int \<Rightarrow> nat list \<Rightarrow> block_pool \<Rightarrow> kv_spec \<Rightarrow> bool \<Rightarrow> int \<Rightarrow> int \<Rightarrow> py_exn + ref list list" where
  "find_window_hit hashes max_length gs p spec use_eagle dcp pcp =
     (case spec of
        SlidingWindowSpec b _ w \<Rightarrow>
          bindE (raise_if (dcp \<noteq> 1) (AssertionError ''DCP not support sliding window attn now.'')) (\<lambda>_.
          bindE (raise_if (pcp \<noteq> 1) (AssertionError ''PCP not support sliding window attn now.'')) (\<lambda>_.
            (let needed = cdiv (w - 1) b + (if use_eagle then 1 else 0);
                 max_num_blocks = nat (max_length div b)
             in bindE (window_loop hashes gs p needed max_num_blocks
                         (replicate (length gs) (replicate max_num_blocks (null_block p))) 0)
                  (\<lambda>(computed, contiguous, match_found).
                drop_last_hit use_eagle (if match_found then computed else map (take contiguous) computed)))))
      | _ \<Rightarrow> Inl (AssertionError ''SlidingWindowManager can only be used for sliding window groups''))"

text \<open>The chunked local manager, from block \<open>i\<close> on, with \<open>n\<close> blocks to go.\<close>

fun chunk_loop ::
  "bytes list \<Rightarrow> nat list \<Rightarrow> block_pool \<Rightarrow> nat \<Rightarrow> nat \<Rightarrow> ref list list \<Rightarrow> py_exn + ref list list" where
  "chunk_loop hashes gs p i 0 computed = Inr computed"
| "chunk_loop hashes gs p i (Suc n) computed =
     (if i \<ge> length hashes then Inl IndexError
      else
        bindE (lookup_hit (hashes ! i) gs p) (\<lambda>r.
        case r of
          None \<Rightarrow> Inr computed
        | Some cached \<Rightarrow> chunk_loop hashes gs p (i + 1) n (extend_hits computed cached)))"

definition find_chunk_hit ::
  "bytes list \<Rightarrow> int \<Rightarrow> nat list \<Rightarrow> block_pool \<Rightarrow> kv_spec \<Rightarrow> bool \<Rightarrow> int \<Rightarrow> int \<Rightarrow> py_exn + ref list list" where
  "find_chunk_hit hashes max_length gs p spec use_eagle dcp pcp =
     (case spec of
        ChunkedLocalAttentionSpec b _ c \<Rightarrow>
          bindE (raise_if use_eagle (AssertionError ''Hybrid KV cache is not supported for eagle + chunked local attention.'')) (\<lambda>_.
          bindE (raise_if (dcp \<noteq> 1) (AssertionError ''DCP not support chunked local attn now.'')) (\<lambda>_.
          bindE (raise_if (pcp \<noteq> 1) (AssertionError ''PCP not support chunked local attn now.'')) (\<lambda>_.
            (let max_num_blocks = nat (max_length div b);
                 start_idx = (if max_length > 0 then max_length div c * c else 0);
                 start_block = nat (start_idx div b)
             in chunk_loop hashes gs p start_block (max_num_blocks - start_block)
                  (replicate (length gs) (replicate start_block (null_block p)))))))
      | _ \<Rightarrow> Inl (AssertionError ''ChunkedLocalAttentionManager can only be used for chunked local attention groups''))"

text \<open>The Mamba manager only needs the last cached state.\<close>

fun mamba_loop ::
  "bytes list \<Rightarrow> nat list \<Rightarrow> block_pool \<Rightarrow> nat \<Rightarrow> py_exn + ref list list" where
  "mamba_loop hashes gs p 0 = Inr (replicate (length gs) [])"
| "mamba_loop hashes gs p (Suc i) =
     (if i \<ge> length hashes then Inl IndexError
      else
        bindE (lookup_hit (hashes ! i) gs p) (\<lambda>r.
        case r of
          None \<Rightarrow> mamba_loop hashes gs p i
        | Some cached \<Rightarrow> Inr (map2 (\<lambda>c b. c @ replicate i (null_block p) @ [b]) (replicate (length gs) []) cached)))"

definition find_mamba_hit ::
  "bytes list \<Rightarrow> int \<Rightarrow> nat list \<Rightarrow> block_pool \<Rightarrow> kv_spec \<Rightarrow> bool \<Rightarrow> int \<Rightarrow> int \<Rightarrow> py_exn + ref list list" where
  "find_mamba_hit hashes max_length gs p spec use_eagle dcp pcp =
     (case spec of
        MambaSpec b _ _ _ _ _ \<Rightarrow>
          bindE (raise_if (dcp \<noteq> 1) (AssertionError ''DCP not support mamba now.'')) (\<lambda>_.
          bindE (raise_if (pcp \<noteq> 1) (AssertionError ''PCP not support mamba now.'')) (\<lambda>_.
          mamba_loop hashes gs p (nat (max_length div b))))
      | _ \<Rightarrow> Inl (AssertionError ''MambaManager can only be used for mamba groups''))"

text \<open>The class method of the manager for a spec (\<open>cls\<close> is given by a spec of the class).\<close>

fun find_longest_cache_hit ::
  "kv_spec \<Rightarrow> bytes list \<Rightarrow> int \<Rightarrow> nat list \<Rightarrow> block_pool \<Rightarrow> kv_spec \<Rightarrow> bool \<Rightarrow> int \<Rightarrow> int \<Rightarrow> py_exn + ref list list" where
  "find_longest_cache_hit (SlidingWindowSpec _ _ _) hs n gs p spec e dcp pcp = find_window_hit hs n gs p spec e dcp pcp"
| "find_longest_cache_hit (ChunkedLocalAttentionSpec _ _ _) hs n gs p spec e dcp pcp = find_chunk_hit hs n gs p spec e dcp pcp"
| "find_longest_cache_hit (MambaSpec _ _ _ _ _ _) hs n gs p spec e dcp pcp = find_mamba_hit hs n gs p spec e dcp pcp"
| "find_longest_cache_hit (CrossAttentionSpec _ _) hs n gs p spec e dcp pcp =
     bindE (raise_if (\<not> is_cross spec) (AssertionError ''CrossAttentionManager can only be used for cross-attention groups'')) (\<lambda>_.
     Inl (NotImplementedError ''CrossAttentionManager does not support caching''))"
| "find_longest_cache_hit _ hs n gs p spec e dcp pcp = find_full_hit hs n gs p spec e dcp pcp"

end
