(* ===== verification/KV_Coordinator.thy ===== *)
theory KV_Coordinator
  imports Single_Type_Manager
begin

text \<open>
  The coordinator of the KV cache groups (\<open>vllm/v1/core/kv_cache_coordinator.py\<close>): one manager
  per group over a shared block pool, and the search for the longest cache hit for models
  without prefix caching, with one group, and with two types of groups.
\<close>

section \<open>State\<close>

record hybrid_info =
  full_attention_group_ids :: "nat list"
  other_group_ids :: "nat list"
  full_attention_spec :: kv_spec
  other_spec :: kv_spec
  full_attn_first :: bool

text \<open>The class of the coordinator, with the fields of its own constructor.\<close>

datatype coordinator_kind =
    NoPrefixCache
  | Unitary kv_spec int
  | Hybrid hybrid_info

record coordinator =
  coord_kind :: coordinator_kind
  coord_caching :: bool
  coord_eagle :: bool
  coord_dcp :: int
  coord_pcp :: int
  coord_pool :: block_pool
  single_type_managers :: "manager list"

section \<open>Construction\<close>

definition init_coordinator ::
  "KVCacheConfig \<Rightarrow> bool \<Rightarrow> bool \<Rightarrow> bool \<Rightarrow> int \<Rightarrow> int \<Rightarrow> py_exn + coordinator" where
  "init_coordinator cfg use_eagle caching kv_events dcp pcp =
     bindE (init_pool (nat (num_blocks cfg)) caching kv_events) (\<lambda>p.
     bindE (mapE (\<lambda>(i, g). new_manager (kv_cache_spec g) i dcp pcp)
              (zip [0..<length (kv_cache_groups cfg)] (kv_cache_groups cfg))) (\<lambda>ms.
     Inr \<lparr> coord_kind = NoPrefixCache, coord_caching = caching, coord_eagle = use_eagle,
            coord_dcp = dcp, coord_pcp = pcp, coord_pool = p, single_type_managers = ms \<rparr>))"

text \<open>The loop of \<open>verify_and_split_kv_cache_groups\<close>:
  \<open>(full_attention_spec, other_spec, full_attention_group_ids, other_group_ids)\<close>.\<close>

type_synonym split_state = "kv_spec option \<times> kv_spec option \<times> nat list \<times> nat list"

fun split_group :: "nat \<times> KVCacheGroupSpec \<Rightarrow> split_state \<Rightarrow> py_exn + split_state" where
  "split_group (i, g) (full, other, fids, oids) =
     (if is_full_attention (kv_cache_spec g) then
        bindE (raise_if (full \<noteq> None \<and> full \<noteq> Some (kv_cache_spec g))
          (AssertionError ''HybridKVCacheCoordinator assumes exactly one type of full attention groups now.'')) (\<lambda>_.
        Inr (Some (kv_cache_spec g), other, fids @ [i], oids))
      else
        bindE (raise_if (other \<noteq> None \<and> other \<noteq> Some (kv_cache_spec g))
          (AssertionError ''HybridKVCacheCoordinator assumes exactly one other type of groups now.'')) (\<lambda>_.
        Inr (full, Some (kv_cache_spec g), fids, oids @ [i])))"

definition verify_and_split_kv_cache_groups ::
  "KVCacheGroupSpec list \<Rightarrow> bool \<Rightarrow> py_exn + hybrid_info" where
  "verify_and_split_kv_cache_groups groups caching =
     bindE (foldE split_group (zip [0..<length groups] groups) (None, None, [], [])) (\<lambda>(full, other, fids, oids).
     bindE (of_option (AssertionError ''HybridKVCacheCoordinator assumes exactly one type of full attention groups now.'') full) (\<lambda>fs.
     bindE (of_option (AssertionError ''HybridKVCacheCoordinator assumes exactly one type of other groups now.'') other) (\<lambda>os.
     bindE (raise_if (caching \<and> block_size fs = 0) ZeroDivisionError) (\<lambda>_.
     bindE (raise_if (caching \<and> block_size os mod block_size fs \<noteq> 0)
       (AssertionError ''KVCacheCoordinator assumes the block_size of full attention layers is divisible by other layers now.'')) (\<lambda>_.
     if Max (set fids) < Min (set oids) then
       Inr \<lparr> full_attention_group_ids = fids, other_group_ids = oids, full_attention_spec = fs,
              other_spec = os, full_attn_first = True \<rparr>
     else if Max (set oids) < Min (set fids) then
       Inr \<lparr> full_attention_group_ids = fids, other_group_ids = oids, full_attention_spec = fs,
              other_spec = os, full_attn_first = False \<rparr>
     else Inl (ValueError ''HybridKVCacheCoordinator assumes the group ids do not interleave''))))))"

definition get_kv_cache_coordinator ::
  "KVCacheConfig \<Rightarrow> bool \<Rightarrow> bool \<Rightarrow> bool \<Rightarrow> int \<Rightarrow> int \<Rightarrow> py_exn + coordinator" where
  "get_kv_cache_coordinator cfg use_eagle caching kv_events dcp pcp =
     (if \<not> caching then init_coordinator cfg use_eagle False kv_events dcp pcp
      else
        (case kv_cache_groups cfg of
           [g] \<Rightarrow>
             bindE (init_coordinator cfg use_eagle caching kv_events dcp pcp) (\<lambda>c.
               (let b1 = (if dcp > 1 then block_size (kv_cache_spec g) * dcp else block_size (kv_cache_spec g));
                    b2 = (if pcp > 1 then b1 * pcp else b1)
                in Inr (c\<lparr> coord_kind := Unitary (kv_cache_spec g) b2 \<rparr>)))
         | gs \<Rightarrow>
             bindE (init_coordinator cfg use_eagle caching kv_events dcp pcp) (\<lambda>c.
             bindE (raise_if (dcp \<noteq> 1) (AssertionError ''DCP not support hybrid attn now.'')) (\<lambda>_.
             bindE (raise_if (pcp \<noteq> 1) (AssertionError ''PCP not support hybrid attn now.'')) (\<lambda>_.
             bindE (verify_and_split_kv_cache_groups gs caching) (\<lambda>info.
             Inr (c\<lparr> coord_kind := Hybrid info \<rparr>)))))))"

section \<open>Operations on all managers\<close>

text \<open>\<open>for i, manager in enumerate(self.single_type_managers)\<close>: the pool is shared, the results
  are collected.\<close>

fun for_managers ::
  "(nat \<Rightarrow> block_pool \<Rightarrow> manager \<Rightarrow> py_exn + ('a \<times> block_pool \<times> manager)) \<Rightarrow> nat \<Rightarrow> block_pool
     \<Rightarrow> manager list \<Rightarrow> py_exn + ('a list \<times> block_pool \<times> manager list)" where
  "for_managers f i p [] = Inr ([], p, [])"
| "for_managers f i p (m # ms) =
     bindE (f i p m) (\<lambda>(x, p1, m1).
     bindE (for_managers f (i + 1) p1 ms) (\<lambda>(xs, p2, ms2). Inr (x # xs, p2, m1 # ms2)))"

definition run_managers ::
  "(nat \<Rightarrow> block_pool \<Rightarrow> manager \<Rightarrow> py_exn + ('a \<times> block_pool \<times> manager)) \<Rightarrow> coordinator
     \<Rightarrow> py_exn + ('a list \<times> coordinator)" where
  "run_managers f c =
     bindE (for_managers f 0 (coord_pool c) (single_type_managers c)) (\<lambda>(xs, p, ms).
     Inr (xs, c\<lparr> coord_pool := p, single_type_managers := ms \<rparr>))"

text \<open>\<open>xs[i]\<close> for a tuple of lists.\<close>

definition group_item :: "ref list list \<Rightarrow> nat \<Rightarrow> py_exn + ref list" where
  "group_item xs i = (if i < length xs then Inr (xs ! i) else Inl IndexError)"

definition c_get_num_blocks_to_allocate ::
  "string \<Rightarrow> int \<Rightarrow> ref list list \<Rightarrow> int \<Rightarrow> coordinator \<Rightarrow> py_exn + (int \<times> coordinator)" where
  "c_get_num_blocks_to_allocate rid num_toks new_computed_blocks num_encoder_tokens c =
     bindE (run_managers (\<lambda>i p m.
       if is_cross (mgr_spec m)
       then (let (n, m1) = get_num_blocks_to_allocate rid num_encoder_tokens [] p m in Inr (n, p, m1))
       else bindE (group_item new_computed_blocks i) (\<lambda>bs.
            let (n, m1) = get_num_blocks_to_allocate rid num_toks bs p m in Inr (n, p, m1))) c) (\<lambda>(ns, c1).
     Inr (sum_list ns, c1))"

definition c_save_new_computed_blocks ::
  "string \<Rightarrow> ref list list \<Rightarrow> coordinator \<Rightarrow> py_exn + coordinator" where
  "c_save_new_computed_blocks rid new_computed_blocks c =
     bindE (run_managers (\<lambda>i p m.
       bindE (group_item new_computed_blocks i) (\<lambda>bs.
       bindE (save_new_computed_blocks rid bs m) (\<lambda>m1. Inr ((), p, m1)))) c) (\<lambda>(_, c1). Inr c1)"

definition c_allocate_new_blocks ::
  "bool \<Rightarrow> string \<Rightarrow> int \<Rightarrow> int \<Rightarrow> coordinator \<Rightarrow> py_exn + (ref list list \<times> coordinator)" where
  "c_allocate_new_blocks use_int rid num_toks num_encoder_tokens c =
     run_managers (\<lambda>i p m.
       allocate_new_blocks use_int rid (if is_cross (mgr_spec m) then num_encoder_tokens else num_toks) p m) c"

definition c_cache_blocks :: "bool \<Rightarrow> Request \<Rightarrow> int \<Rightarrow> coordinator \<Rightarrow> py_exn + coordinator" where
  "c_cache_blocks use_int request num_computed c =
     bindE (run_managers (\<lambda>i p m.
       bindE (cache_blocks use_int request num_computed p m) (\<lambda>(p1, m1). Inr ((), p1, m1))) c) (\<lambda>(_, c1). Inr c1)"

definition c_free :: "string \<Rightarrow> coordinator \<Rightarrow> py_exn + coordinator" where
  "c_free rid c =
     bindE (run_managers (\<lambda>i p m.
       bindE (mgr_free rid p m) (\<lambda>(p1, m1). Inr ((), p1, m1))) c) (\<lambda>(_, c1). Inr c1)"

definition c_get_num_common_prefix_blocks :: "string \<Rightarrow> coordinator \<Rightarrow> py_exn + (int list \<times> coordinator)" where
  "c_get_num_common_prefix_blocks rid c =
     (if coord_kind c = NoPrefixCache then Inr (map (\<lambda>_. 0) (single_type_managers c), c)
      else run_managers (\<lambda>i p m. let (n, m1) = get_num_common_prefix_blocks rid p m in Inr (n, p, m1)) c)"

definition c_remove_skipped_blocks :: "string \<Rightarrow> int \<Rightarrow> coordinator \<Rightarrow> py_exn + coordinator" where
  "c_remove_skipped_blocks rid num_computed c =
     bindE (run_managers (\<lambda>i p m.
       bindE (remove_skipped_blocks rid num_computed p m) (\<lambda>(p1, m1). Inr ((), p1, m1))) c) (\<lambda>(_, c1). Inr c1)"

text \<open>\<open>manager.req_to_blocks.get(request_id) or []\<close>.\<close>

definition c_get_blocks :: "string \<Rightarrow> coordinator \<Rightarrow> ref list list" where
  "c_get_blocks rid c = map (\<lambda>m. dd_get rid (req_to_blocks m)) (single_type_managers c)"

section \<open>The longest cache hit\<close>

definition find_hybrid_hit ::
  "hybrid_info \<Rightarrow> bytes list \<Rightarrow> int \<Rightarrow> coordinator \<Rightarrow> py_exn + (ref list list \<times> int)" where
  "find_hybrid_hit info hashes max_len c =
     bindE (find_full_hit hashes max_len (full_attention_group_ids info) (coord_pool c)
              (full_attention_spec info) (coord_eagle c) 1 1) (\<lambda>full_hits.
     bindE (group_item full_hits 0) (\<lambda>f0.
     bindE (find_longest_cache_hit (other_spec info) hashes
              (int (length f0) * block_size (full_attention_spec info)) (other_group_ids info) (coord_pool c)
              (other_spec info) (coord_eagle c) 1 1) (\<lambda>other_hits.
     bindE (group_item other_hits 0) (\<lambda>o0.
       (let hit_length = int (length o0) * block_size (other_spec info);
            fb = block_size (full_attention_spec info)
        in bindE (raise_if (hit_length mod fb \<noteq> 0) (AssertionError [])) (\<lambda>_.
           (let full_hits' = map (take (nat (hit_length div fb))) full_hits
            in Inr (if full_attn_first info then full_hits' @ other_hits else other_hits @ full_hits',
                    hit_length))))))))"

definition c_find_longest_cache_hit ::
  "bytes list \<Rightarrow> int \<Rightarrow> coordinator \<Rightarrow> py_exn + (ref list list \<times> int)" where
  "c_find_longest_cache_hit hashes max_len c =
     (case coord_kind c of
        NoPrefixCache \<Rightarrow> Inr (map (\<lambda>_. []) (single_type_managers c), 0)
      | Unitary spec bs \<Rightarrow>
          (case single_type_managers c of
             [] \<Rightarrow> Inl IndexError
           | m # _ \<Rightarrow>
               bindE (find_longest_cache_hit (mgr_spec m) hashes max_len [0] (coord_pool c) spec
                        (coord_eagle c) (coord_dcp c) (coord_pcp c)) (\<lambda>hits.
               bindE (group_item hits 0) (\<lambda>h0. Inr (hits, int (length h0) * bs))))
      | Hybrid info \<Rightarrow> find_hybrid_hit info hashes max_len c)"

end
