(* ===== verification/KV_Manager.thy ===== *)
theory KV_Manager
  imports KV_Coordinator
begin

text \<open>
  The KV cache manager (\<open>vllm/v1/core/kv_cache_manager.py\<close>), the interface between the scheduler
  and the KV cache.  The empty result is one shared object, which the source recognises by
  identity: the constructor \<open>EmptyBlocks\<close>.
\<close>

section \<open>Results\<close>

datatype KVCacheBlocks = EmptyBlocks | KVBlocks "ref list list"

definition blocks_of :: "nat \<Rightarrow> KVCacheBlocks \<Rightarrow> ref list list" where
  "blocks_of num_groups b = (case b of EmptyBlocks \<Rightarrow> replicate num_groups [] | KVBlocks bs \<Rightarrow> bs)"

definition blocks_add :: "nat \<Rightarrow> KVCacheBlocks \<Rightarrow> KVCacheBlocks \<Rightarrow> KVCacheBlocks" where
  "blocks_add n a b = KVBlocks (map2 (@) (blocks_of n a) (blocks_of n b))"

definition get_block_ids :: "nat \<Rightarrow> bool \<Rightarrow> block_pool \<Rightarrow> KVCacheBlocks \<Rightarrow> int list list option" where
  "get_block_ids n allow_none p b =
     (if allow_none \<and> list_all (\<lambda>g. g = []) (blocks_of n b) then None
      else Some (map (map (numbers p)) (blocks_of n b)))"

definition get_unhashed_block_ids :: "nat \<Rightarrow> block_pool \<Rightarrow> KVCacheBlocks \<Rightarrow> py_exn + int list" where
  "get_unhashed_block_ids n p b =
     (case blocks_of n b of
        [g] \<Rightarrow> Inr (map (numbers p) (filter (\<lambda>c. block_hash (blk p c) = None) g))
      | _ \<Rightarrow> Inl (AssertionError ''Only one group is supported''))"

definition new_empty :: "nat \<Rightarrow> KVCacheBlocks \<Rightarrow> KVCacheBlocks" where
  "new_empty n b = KVBlocks (map (\<lambda>_. []) (blocks_of n b))"

section \<open>State\<close>

record PrefixCacheStats =
  stats_reset :: bool
  requests :: int
  queries :: int
  hits :: int
  preempted_requests :: int
  preempted_queries :: int
  preempted_hits :: int

definition new_stats :: PrefixCacheStats where
  "new_stats = \<lparr> stats_reset = False, requests = 0, queries = 0, hits = 0,
                  preempted_requests = 0, preempted_queries = 0, preempted_hits = 0 \<rparr>"

definition stats_record :: "int \<Rightarrow> int \<Rightarrow> bool \<Rightarrow> PrefixCacheStats \<Rightarrow> PrefixCacheStats" where
  "stats_record num_toks num_hits preempted s =
     (if preempted
      then s\<lparr> preempted_requests := preempted_requests s + 1,
               preempted_queries := preempted_queries s + num_toks,
               preempted_hits := preempted_hits s + num_hits \<rparr>
      else s\<lparr> requests := requests s + 1, queries := queries s + num_toks, hits := hits s + num_hits \<rparr>)"

record kv_manager =
  km_max_model_len :: int
  km_caching :: bool
  prefix_cache_stats :: "PrefixCacheStats option"
  km_block_size :: "int option"
  coordinator :: coordinator
  num_kv_cache_groups :: nat

abbreviation km_pool :: "kv_manager \<Rightarrow> block_pool" where
  "km_pool k \<equiv> coord_pool (coordinator k)"

definition init_kv_manager ::
  "KVCacheConfig \<Rightarrow> int \<Rightarrow> bool \<Rightarrow> bool \<Rightarrow> bool \<Rightarrow> bool \<Rightarrow> int \<Rightarrow> int \<Rightarrow> py_exn + kv_manager" where
  "init_kv_manager cfg model_len caching use_eagle log_stats kv_events dcp pcp =
     bindE (if caching then
              (case remdups (map (block_size \<circ> kv_cache_spec) (kv_cache_groups cfg)) of
                 [b] \<Rightarrow>
                   if dcp * pcp > 1
                   then bindE (raise_if (length (kv_cache_groups cfg) \<noteq> 1) (AssertionError [])) (\<lambda>_.
                        Inr (Some (b * (dcp * pcp))))
                   else Inr (Some b)
               | _ \<Rightarrow> Inl (AssertionError ''Only one block size is supported for now''))
            else Inr None) (\<lambda>bs.
     bindE (get_kv_cache_coordinator cfg use_eagle caching kv_events dcp pcp) (\<lambda>c.
     Inr \<lparr> km_max_model_len = model_len, km_caching = caching,
            prefix_cache_stats = (if log_stats then Some new_stats else None),
            km_block_size = bs, coordinator = c,
            num_kv_cache_groups = length (kv_cache_groups cfg) \<rparr>))"

section \<open>Operations\<close>

definition create_kv_cache_blocks :: "ref list list \<Rightarrow> KVCacheBlocks" where
  "create_kv_cache_blocks bs = (if list_ex (\<lambda>g. g \<noteq> []) bs then KVBlocks bs else EmptyBlocks)"

definition make_prefix_cache_stats :: "kv_manager \<Rightarrow> PrefixCacheStats option \<times> kv_manager" where
  "make_prefix_cache_stats k =
     (case prefix_cache_stats k of
        None \<Rightarrow> (None, k)
      | Some s \<Rightarrow> (Some s, k\<lparr> prefix_cache_stats := Some new_stats \<rparr>))"

definition get_computed_blocks :: "Request \<Rightarrow> kv_manager \<Rightarrow> py_exn + ((KVCacheBlocks \<times> int) \<times> kv_manager)" where
  "get_computed_blocks request k =
     (if \<not> km_caching k \<or> skip_reading_prefix_cache request then Inr ((EmptyBlocks, 0), k)
      else
        bindE (c_find_longest_cache_hit (block_hashes request) (num_tokens request - 1) (coordinator k)) (\<lambda>(bs, n).
        Inr ((create_kv_cache_blocks bs, n),
             k\<lparr> prefix_cache_stats :=
                  map_option (stats_record (num_tokens request) n (num_preemptions request > 0))
                    (prefix_cache_stats k) \<rparr>)))"

definition allocate_slots ::
  "bool \<Rightarrow> Request \<Rightarrow> int \<Rightarrow> int \<Rightarrow> KVCacheBlocks option \<Rightarrow> int \<Rightarrow> bool \<Rightarrow> int \<Rightarrow> kv_manager
     \<Rightarrow> py_exn + (KVCacheBlocks option \<times> kv_manager)" where
  "allocate_slots use_int request num_new_tokens num_new_computed_tokens new_computed_blocks
       num_lookahead_tokens delay_cache_blocks num_encoder_tokens k =
     bindE (raise_if (num_new_tokens = 0) (ValueError ''num_new_tokens must be greater than 0'')) (\<lambda>_.
       (let rid = request_id request;
            new_blocks_obj = (case new_computed_blocks of Some b \<Rightarrow> b | None \<Rightarrow> EmptyBlocks);
            new_list = blocks_of (num_kv_cache_groups k) new_blocks_obj
        in bindE (c_remove_skipped_blocks rid (num_computed_tokens request) (coordinator k)) (\<lambda>c1.
           (let num_computed = num_computed_tokens request + num_new_computed_tokens;
                need_slot = min (num_computed + num_new_tokens + num_lookahead_tokens) (km_max_model_len k)
            in bindE (c_get_num_blocks_to_allocate rid need_slot new_list num_encoder_tokens c1) (\<lambda>(num_alloc, c2).
               if num_alloc > get_num_free_blocks (coord_pool c2) then Inr (None, k\<lparr> coordinator := c2 \<rparr>)
               else
                 bindE (if km_caching k
                        then bindE (touch new_list (coord_pool c2)) (\<lambda>p. Inr (c2\<lparr> coord_pool := p \<rparr>))
                        else bindE (raise_if (list_ex (\<lambda>g. g \<noteq> []) new_list)
                               (AssertionError ''Computed blocks should be empty when prefix caching is disabled'')) (\<lambda>_.
                             Inr c2)) (\<lambda>c3.
                 bindE (if new_blocks_obj \<noteq> EmptyBlocks then c_save_new_computed_blocks rid new_list c3 else Inr c3) (\<lambda>c4.
                 bindE (c_allocate_new_blocks use_int rid need_slot num_encoder_tokens c4) (\<lambda>(new_blocks, c5).
                 if \<not> km_caching k \<or> delay_cache_blocks
                 then Inr (Some (create_kv_cache_blocks new_blocks), k\<lparr> coordinator := c5 \<rparr>)
                 else
                   bindE (c_cache_blocks use_int request (min (num_computed + num_new_tokens) (num_tokens request)) c5) (\<lambda>c6.
                   Inr (Some (create_kv_cache_blocks new_blocks), k\<lparr> coordinator := c6 \<rparr>))))))))))"

definition km_free :: "Request \<Rightarrow> kv_manager \<Rightarrow> py_exn + kv_manager" where
  "km_free request k =
     bindE (c_free (request_id request) (coordinator k)) (\<lambda>c. Inr (k\<lparr> coordinator := c \<rparr>))"

definition km_reset_prefix_cache :: "kv_manager \<Rightarrow> bool \<times> kv_manager" where
  "km_reset_prefix_cache k =
     (case reset_prefix_cache (km_pool k) of
        (False, p) \<Rightarrow> (False, k\<lparr> coordinator := (coordinator k)\<lparr> coord_pool := p \<rparr> \<rparr>)
      | (True, p) \<Rightarrow>
          (True, k\<lparr> coordinator := (coordinator k)\<lparr> coord_pool := p \<rparr>,
                    prefix_cache_stats := map_option (\<lambda>s. s\<lparr> stats_reset := True \<rparr>) (prefix_cache_stats k) \<rparr>))"

definition km_get_num_common_prefix_blocks :: "string \<Rightarrow> kv_manager \<Rightarrow> py_exn + (int list \<times> kv_manager)" where
  "km_get_num_common_prefix_blocks rid k =
     bindE (c_get_num_common_prefix_blocks rid (coordinator k)) (\<lambda>(ns, c). Inr (ns, k\<lparr> coordinator := c \<rparr>))"

definition km_take_events :: "kv_manager \<Rightarrow> kv_event list \<times> kv_manager" where
  "km_take_events k =
     (case take_events (km_pool k) of
        (es, p) \<Rightarrow> (es, k\<lparr> coordinator := (coordinator k)\<lparr> coord_pool := p \<rparr> \<rparr>))"

definition km_get_blocks :: "string \<Rightarrow> kv_manager \<Rightarrow> KVCacheBlocks" where
  "km_get_blocks rid k = create_kv_cache_blocks (c_get_blocks rid (coordinator k))"

definition km_get_block_ids :: "string \<Rightarrow> kv_manager \<Rightarrow> int list list option" where
  "km_get_block_ids rid k = get_block_ids (num_kv_cache_groups k) False (km_pool k) (km_get_blocks rid k)"

definition km_cache_blocks :: "bool \<Rightarrow> Request \<Rightarrow> int \<Rightarrow> kv_manager \<Rightarrow> py_exn + kv_manager" where
  "km_cache_blocks use_int request num_computed k =
     (if km_caching k
      then bindE (c_cache_blocks use_int request num_computed (coordinator k)) (\<lambda>c. Inr (k\<lparr> coordinator := c \<rparr>))
      else Inr k)"

end
