(* ===== verification/KV_Holdings.thy ===== *)
theory KV_Holdings
  imports KV_Manager
begin

text \<open>
  Who holds which block: the reference count of a block is the number of times it occurs in the
  block lists of the requests, over all managers, and a block that is not cached yet has one holder
  only.  The theory states what a manager must keep of this, the contract of an operation that a
  coordinator runs on all managers, and the proofs for allocating, freeing and skipping blocks.
\<close>

section \<open>Holdings\<close>

definition held :: "manager \<Rightarrow> ref \<Rightarrow> nat" where
  "held m b = (\<Sum>r \<in> fmdom' (req_to_blocks m). count_list (dd_get r (req_to_blocks m)) b)"

definition held_all :: "manager list \<Rightarrow> ref \<Rightarrow> nat" where
  "held_all ms b = sum_list (map (\<lambda>m. held m b) ms)"

lemma held_all_simps [simp]: "held_all [] b = 0" "held_all (m # ms) b = held m b + held_all ms b"
  by (simp_all add: held_all_def)

lemma held_all_member: "i < length ms \<Longrightarrow> held (ms ! i) b \<le> held_all ms b"
  unfolding held_all_def by (intro member_le_sum_list) auto

lemma held_all_two:
  "i < length ms \<Longrightarrow> j < length ms \<Longrightarrow> i \<noteq> j \<Longrightarrow> held (ms ! i) b + held (ms ! j) b \<le> held_all ms b"
proof (induction ms arbitrary: i j)
  case (Cons m ms)
  show ?case
    using Cons.prems Cons.IH [of "i - 1" "j - 1"] held_all_member [of "i - 1" ms b] held_all_member [of "j - 1" ms b]
    by (cases i; cases j) auto
qed simp

lemma dd_get_upd [simp]: "dd_get k (fmupd j v d) = (if k = j then v else dd_get k d)"
  by (simp add: dd_get_def)

lemma dd_get_drop [simp]: "dd_get k (fmdrop j d) = (if k = j then [] else dd_get k d)"
  by (simp add: dd_get_def)

lemma dd_get_empty [simp]: "dd_get k fmempty = []"
  by (simp add: dd_get_def)

lemma finite_fmdom' [simp]: "finite (fmdom' d)"
  by (simp add: fmdom'_alt_def)

lemma dd_get_outside: "r \<notin> fmdom' d \<Longrightarrow> dd_get r d = []"
  by (simp add: dd_get_def fmdom'_notD)

lemma sum_upd:
  assumes "req_to_blocks m' = fmupd r l (req_to_blocks m)"
  shows "held m' b + count_list (dd_get r (req_to_blocks m)) b = held m b + count_list l b"
proof -
  let ?d = "req_to_blocks m"
  let ?c = "\<lambda>s. count_list (dd_get s ?d) b"
  have "held m' b = (\<Sum>s \<in> insert r (fmdom' ?d). count_list (dd_get s (fmupd r l ?d)) b)"
    by (simp add: held_def assms)
  also have "\<dots> = count_list l b + (\<Sum>s \<in> fmdom' ?d - {r}. ?c s)"
    by (simp add: sum.insert_remove)
  finally have 1: "held m' b = count_list l b + (\<Sum>s \<in> fmdom' ?d - {r}. ?c s)" .
  have "held m b = ?c r + (\<Sum>s \<in> fmdom' ?d - {r}. ?c s)"
  proof (cases "r \<in> fmdom' ?d")
    case True
    then show ?thesis by (simp add: held_def sum.remove)
  next
    case False
    then show ?thesis by (simp add: held_def dd_get_outside)
  qed
  with 1 show ?thesis by simp
qed

lemma sum_drop:
  assumes "req_to_blocks m' = fmdrop r (req_to_blocks m)"
  shows "held m' b + count_list (dd_get r (req_to_blocks m)) b = held m b"
proof -
  let ?d = "req_to_blocks m"
  have "held m' b = (\<Sum>s \<in> fmdom' ?d - {r}. count_list (dd_get s ?d) b)"
    by (simp add: held_def assms)
  then show ?thesis
    by (cases "r \<in> fmdom' ?d") (simp_all add: held_def sum.remove dd_get_outside)
qed

text \<open>The number of blocks of a request that are cached.\<close>

definition cached_count :: "string \<Rightarrow> manager \<Rightarrow> int" where
  "cached_count r m = (case fmlookup (num_cached_block m) r of Some n \<Rightarrow> n | None \<Rightarrow> 0)"

text \<open>The list of a request holds blocks of the pool, and no block twice, the null block apart; with
  caching enabled, the blocks after the \<open>n\<close> cached ones are not null blocks.\<close>

definition list_ok :: "block_pool \<Rightarrow> int \<Rightarrow> ref list \<Rightarrow> bool" where
  "list_ok p n bs \<longleftrightarrow>
     set bs \<subseteq> pool_blocks p \<and> distinct (filter (\<lambda>b. b \<noteq> Blk 0) bs) \<and> 0 \<le> n
     \<and> (enable_caching p \<longrightarrow> Blk 0 \<notin> set (drop (nat n) bs))"

text \<open>The blocks of a request that are not cached yet, which the model still writes to, and what they
  must satisfy: the request is their only holder and they are not in the prefix cache.\<close>

definition uncached :: "string \<Rightarrow> manager \<Rightarrow> ref list" where
  "uncached r m = drop (nat (cached_count r m)) (dd_get r (req_to_blocks m))"

definition exclusive :: "block_pool \<Rightarrow> ref \<Rightarrow> bool" where
  "exclusive p b \<longleftrightarrow> ref_cnt (blk p b) = 1 \<and> block_hash (blk p b) = None"

definition mgr_ok :: "block_pool \<Rightarrow> manager \<Rightarrow> bool" where
  "mgr_ok p m \<longleftrightarrow>
     (\<forall>r. list_ok p (cached_count r m) (dd_get r (req_to_blocks m))
        \<and> (\<forall>b \<in> set (uncached r m). b \<noteq> Blk 0 \<longrightarrow> exclusive p b))"

lemma list_ok_Nil [simp]: "list_ok p n [] \<longleftrightarrow> 0 \<le> n"
  by (simp add: list_ok_def)

lemma list_ok_append:
  "list_ok p n bs \<Longrightarrow> set new \<subseteq> pool_blocks p - {Blk 0} \<Longrightarrow> distinct new \<Longrightarrow> set bs \<inter> set new = {} \<Longrightarrow>
     list_ok p n (bs @ new)"
  by (auto simp: list_ok_def dest: in_set_dropD)

lemma list_ok_more: "list_ok p n bs \<Longrightarrow> n \<le> k \<Longrightarrow> list_ok p k bs"
  using set_drop_subset_set_drop [of "nat n" "nat k" bs] by (auto simp: list_ok_def nat_mono)

lemma list_ok_config: "same_config p p' \<Longrightarrow> list_ok p' n bs \<longleftrightarrow> list_ok p n bs"
  by (simp add: list_ok_def pool_blocks_config) (simp add: same_config_def)

text \<open>\<open>owns p xs H\<close>: the pool is consistent, with free list \<open>xs\<close>, and \<open>H\<close> counts the references;
  without caching no block has a hash.\<close>

definition owns :: "block_pool \<Rightarrow> ref list \<Rightarrow> (ref \<Rightarrow> nat) \<Rightarrow> bool" where
  "owns p xs H \<longleftrightarrow>
     pool_repr p xs \<and> (\<forall>b \<in> pool_blocks p. b \<noteq> Blk 0 \<longrightarrow> ref_cnt (blk p b) = int (H b))
     \<and> (\<not> enable_caching p \<longrightarrow> (\<forall>b \<in> pool_blocks p. block_hash (blk p b) = None))"

lemma ownsD:
  assumes "owns p xs H"
  shows "pool_repr p xs" "b \<in> pool_blocks p \<Longrightarrow> b \<noteq> Blk 0 \<Longrightarrow> ref_cnt (blk p b) = int (H b)"
    "\<not> enable_caching p \<Longrightarrow> b \<in> pool_blocks p \<Longrightarrow> block_hash (blk p b) = None"
  using assms by (auto simp: owns_def)

definition same_block :: "block_pool \<Rightarrow> block_pool \<Rightarrow> ref \<Rightarrow> bool" where
  "same_block p p' b \<longleftrightarrow> ref_cnt (blk p' b) = ref_cnt (blk p b) \<and> block_hash (blk p' b) = block_hash (blk p b)"

lemma same_block_refl [simp]: "same_block p p b"
  by (simp add: same_block_def)

lemma exclusive_same: "same_block p p' b \<Longrightarrow> exclusive p b \<Longrightarrow> exclusive p' b"
  by (simp add: same_block_def exclusive_def)

lemma held_count: "count_list (dd_get r (req_to_blocks m)) b \<le> held m b"
proof (cases "r \<in> fmdom' (req_to_blocks m)")
  case True
  then show ?thesis unfolding held_def by (intro member_le_sum) auto
next
  case False
  then show ?thesis by (simp add: dd_get_outside)
qed

lemma held_member: "b \<in> set (dd_get r (req_to_blocks m)) \<Longrightarrow> 0 < held m b"
  using held_count [of r m b] count_list_0_iff [of "dd_get r (req_to_blocks m)" b] by linarith

lemma uncached_member: "b \<in> set (uncached r m) \<Longrightarrow> b \<in> set (dd_get r (req_to_blocks m))"
  by (auto simp: uncached_def dest: in_set_dropD)

lemma mgr_okD:
  assumes "mgr_ok p m"
  shows "list_ok p (cached_count r m) (dd_get r (req_to_blocks m))"
    "b \<in> set (uncached r m) \<Longrightarrow> b \<noteq> Blk 0 \<Longrightarrow> exclusive p b"
    "b \<in> set (dd_get r (req_to_blocks m)) \<Longrightarrow> b \<in> pool_blocks p"
  using assms by (auto simp: mgr_ok_def list_ok_def)

text \<open>A manager is left alone by a change of the pool that keeps the exclusive blocks it holds.\<close>

lemma mgr_ok_frame:
  assumes "mgr_ok p m" and "same_config p p'"
    and "\<And>b. b \<in> pool_blocks p \<Longrightarrow> b \<noteq> Blk 0 \<Longrightarrow> exclusive p b \<Longrightarrow> 0 < held m b \<Longrightarrow> same_block p p' b"
  shows "mgr_ok p' m"
  unfolding mgr_ok_def
proof (intro allI conjI ballI impI)
  show "list_ok p' (cached_count r m) (dd_get r (req_to_blocks m))" for r
    using mgr_okD(1) [OF assms(1)] list_ok_config [OF assms(2)] by blast
  fix r b
  assume b: "b \<in> set (uncached r m)" "b \<noteq> Blk 0"
  then have "exclusive p b" "b \<in> pool_blocks p" "0 < held m b"
    using mgr_okD(2,3) [OF assms(1)] uncached_member held_member by blast+
  then show "exclusive p' b" using assms(3) b(2) exclusive_same by blast
qed

text \<open>An exclusive block is in one list only.\<close>

lemma exclusive_once:
  assumes "owns p xs (\<lambda>b. R b + held m b)" and "exclusive p b" and "b \<in> pool_blocks p" and "b \<noteq> Blk 0"
    and "0 < held m b"
  shows "R b = 0" "held m b = 1"
  using ownsD(2) [OF assms(1,3,4)] assms(2,5) by (auto simp: exclusive_def)

lemma held_two:
  assumes "b \<in> set (dd_get r (req_to_blocks m))" and "b \<in> set (dd_get s (req_to_blocks m))" and "r \<noteq> s"
  shows "2 \<le> held m b"
proof -
  let ?c = "\<lambda>s. count_list (dd_get s (req_to_blocks m)) b"
  have pos: "0 < ?c r" "0 < ?c s" using assms(1,2) by (simp_all add: count_list_0_iff flip: neq0_conv)
  have dom: "{r, s} \<subseteq> fmdom' (req_to_blocks m)" using assms(1,2) dd_get_outside by fastforce
  have "sum ?c {r, s} \<le> held m b" unfolding held_def by (rule sum_mono2) (use dom in auto)
  then show ?thesis using pos assms(3) by simp
qed

section \<open>Operations of one manager\<close>

lemma dd_read_simps:
  "fst (dd_read r m) = dd_get r (req_to_blocks m)"
  "held (snd (dd_read r m)) b = held m b"
  "dd_get s (req_to_blocks (snd (dd_read r m))) = dd_get s (req_to_blocks m)"
  "mgr_ok p (snd (dd_read r m)) \<longleftrightarrow> mgr_ok p m"
  "mgr_spec (snd (dd_read r m)) = mgr_spec m"
  "mgr_block_size (snd (dd_read r m)) = mgr_block_size m"
  "num_cached_block (snd (dd_read r m)) = num_cached_block m"
  "kv_cache_group_id (snd (dd_read r m)) = kv_cache_group_id m"
proof -
  have "req_to_blocks (snd (dd_read r m)) = fmupd r (dd_get r (req_to_blocks m)) (req_to_blocks m)"
    by (simp add: dd_read_def)
  from sum_upd [OF this, of b] show "held (snd (dd_read r m)) b = held m b" by simp
  show d: "dd_get s (req_to_blocks (snd (dd_read r m))) = dd_get s (req_to_blocks m)" for s
    by (simp add: dd_read_def)
  have c: "cached_count s (snd (dd_read r m)) = cached_count s m" for s by (simp add: cached_count_def dd_read_def)
  show "mgr_ok p (snd (dd_read r m)) \<longleftrightarrow> mgr_ok p m" unfolding mgr_ok_def uncached_def c d ..
qed (simp_all add: dd_read_def)

text \<open>What an operation on one manager leaves: the references and the invariant are kept, and no block
  changes that others hold and this manager does not.\<close>

definition same_manager :: "manager \<Rightarrow> manager \<Rightarrow> bool" where
  "same_manager m m' \<longleftrightarrow>
     mgr_spec m' = mgr_spec m \<and> mgr_block_size m' = mgr_block_size m \<and> kv_cache_group_id m' = kv_cache_group_id m"

definition op_result :: "(ref \<Rightarrow> nat) \<Rightarrow> block_pool \<Rightarrow> manager \<Rightarrow> block_pool \<Rightarrow> manager \<Rightarrow> bool" where
  "op_result R p m p' m' \<longleftrightarrow>
     (\<exists>xs. owns p' xs (\<lambda>b. R b + held m' b)) \<and> mgr_ok p' m' \<and> same_config p p' \<and> same_manager m m'
     \<and> (\<forall>b \<in> pool_blocks p. b \<noteq> Blk 0 \<longrightarrow> 0 < R b \<longrightarrow> held m b = 0 \<longrightarrow> same_block p p' b)"

lemma op_resultD:
  assumes "op_result R p m p' m'"
  shows "\<exists>xs. owns p' xs (\<lambda>b. R b + held m' b)" "mgr_ok p' m'" "same_config p p'" "same_manager m m'"
    "b \<in> pool_blocks p \<Longrightarrow> b \<noteq> Blk 0 \<Longrightarrow> 0 < R b \<Longrightarrow> held m b = 0 \<Longrightarrow> same_block p p' b"
  using assms by (simp_all add: op_result_def)

lemma op_result_others:
  assumes "owns p xs (\<lambda>b. (R b + held_all ms b) + held m b)" and "op_result (\<lambda>b. R b + held_all ms b) p m p1 m1"
    and "\<forall>n \<in> set ms. mgr_ok p n"
  shows "\<forall>n \<in> set ms. mgr_ok p1 n" "\<exists>xs1. owns p1 xs1 (\<lambda>b. (R b + held m1 b) + held_all ms b)"
proof -
  let ?R1 = "\<lambda>b. R b + held_all ms b"
  note d = op_resultD [OF assms(2)]
  have le: "held n b \<le> held_all ms b" if "n \<in> set ms" for n b
    unfolding held_all_def using that by (intro member_le_sum_list) auto
  show "\<forall>n \<in> set ms. mgr_ok p1 n"
  proof
    fix n
    assume n: "n \<in> set ms"
    show "mgr_ok p1 n"
    proof (rule mgr_ok_frame [OF _ d(3)])
      show "mgr_ok p n" using assms(3) n by simp
      fix b
      assume b: "b \<in> pool_blocks p" "b \<noteq> Blk 0" "exclusive p b" "0 < held n b"
      then have "held m b = 0" "0 < ?R1 b" using ownsD(2) [OF assms(1) b(1,2)] le [OF n, of b] by (auto simp: exclusive_def)
      then show "same_block p p1 b" by (rule d(5) [OF b(1,2), rotated])
    qed
  qed
  obtain xs1 where "owns p1 xs1 (\<lambda>b. ?R1 b + held m1 b)" using d(1) ..
  then have "owns p1 xs1 (\<lambda>b. (R b + held m1 b) + held_all ms b)" by (simp add: add_ac)
  then show "\<exists>xs1. owns p1 xs1 (\<lambda>b. (R b + held m1 b) + held_all ms b)" ..
qed

text \<open>The contract of an operation that a coordinator runs on its managers; \<open>pre\<close> is what the
  operation expects of a manager, under the configuration of the pool.\<close>

locale manager_op =
  fixes pre :: "block_pool \<Rightarrow> manager \<Rightarrow> bool"
    and f :: "nat \<Rightarrow> block_pool \<Rightarrow> manager \<Rightarrow> py_exn + ('a \<times> block_pool \<times> manager)"
  assumes pre_config: "same_config p p' \<Longrightarrow> pre p m \<Longrightarrow> pre p' m"
    and keeps: "owns p xs (\<lambda>b. R b + held m b) \<Longrightarrow> mgr_ok p m \<Longrightarrow> pre p m \<Longrightarrow>
      f i p m = Inr (x, p', m') \<Longrightarrow> op_result R p m p' m'"
begin

lemma for_managers_keeps:
  "owns p xs (\<lambda>b. R b + held_all ms b) \<Longrightarrow> \<forall>m \<in> set ms. mgr_ok p m \<and> pre p m \<Longrightarrow>
     for_managers f i p ms = Inr (ys, p', ms') \<Longrightarrow>
     (\<exists>xs'. owns p' xs' (\<lambda>b. R b + held_all ms' b)) \<and> (\<forall>m \<in> set ms'. mgr_ok p' m) \<and> same_config p p'
       \<and> list_all2 same_manager ms ms'
       \<and> (\<forall>b \<in> pool_blocks p. b \<noteq> Blk 0 \<longrightarrow> 0 < R b \<longrightarrow> held_all ms b = 0 \<longrightarrow> same_block p p' b)"
proof (induction ms arbitrary: i p xs R ys ms')
  case (Cons m ms)
  obtain x p1 m1 zs ms1 where s: "f i p m = Inr (x, p1, m1)" "for_managers f (i + 1) p1 ms = Inr (zs, p', ms1)"
    "ms' = m1 # ms1"
    using Cons.prems(3) by auto
  let ?R1 = "\<lambda>b. R b + held_all ms b" and ?R2 = "\<lambda>b. R b + held m1 b"
  have o1: "owns p xs (\<lambda>b. ?R1 b + held m b)" using Cons.prems(1) by (simp add: add_ac)
  have res: "op_result ?R1 p m p1 m1" using keeps [OF o1 _ _ s(1)] Cons.prems(2) by simp
  note x1 = op_resultD [OF res]
  have ms: "\<forall>n \<in> set ms. mgr_ok p n" using Cons.prems(2) by simp
  obtain xs1 where o2: "owns p1 xs1 (\<lambda>b. ?R2 b + held_all ms b)" using op_result_others(2) [OF o1 res ms] ..
  have ok: "\<forall>m \<in> set ms. mgr_ok p1 m \<and> pre p1 m"
    using op_result_others(1) [OF o1 res ms] Cons.prems(2) pre_config [OF x1(3)] by simp
  note ih = Cons.IH [OF o2 ok s(2)]
  obtain xs2 where own2: "owns p' xs2 (\<lambda>b. ?R2 b + held_all ms1 b)" using conjunct1 [OF ih] ..
  have rest: "\<forall>m \<in> set ms1. mgr_ok p' m" "same_config p1 p'" "list_all2 same_manager ms ms1"
    using ih by simp_all
  note x2 = own2 rest conjunct2 [OF conjunct2 [OF conjunct2 [OF conjunct2 [OF ih]]], rule_format]
  have "mgr_ok p' m1"
  proof (rule mgr_ok_frame [OF x1(2) x2(3)])
    fix b
    assume b: "b \<in> pool_blocks p1" "b \<noteq> Blk 0" "exclusive p1 b" "0 < held m1 b"
    then have "held_all ms b = 0" using ownsD(2) [OF o2 b(1,2)] by (auto simp: exclusive_def)
    moreover have "0 < ?R2 b" using b(4) by simp
    ultimately show "same_block p1 p' b" by (rule x2(5) [OF b(1,2), rotated])
  qed
  moreover have "same_block p p' b" if b: "b \<in> pool_blocks p" "b \<noteq> Blk 0" "0 < R b" "held_all (m # ms) b = 0" for b
  proof -
    have "same_block p p1 b" by (rule x1(5)) (use b in auto)
    moreover have "same_block p1 p' b" by (rule x2(5)) (use b pool_blocks_config [OF x1(3)] in auto)
    ultimately show ?thesis by (simp add: same_block_def)
  qed
  moreover have "owns p' xs2 (\<lambda>b. R b + held_all ms' b)" using x2(1) s(3) by (simp add: add_ac)
  ultimately show ?case
    using s(3) x1(4) x2(2,4) same_config_trans [OF x1(3) x2(3)] by (intro conjI) auto
qed auto

end

text \<open>An operation that, when its precondition holds, returns or raises one of the given exceptions.\<close>

locale manager_call = manager_op +
  fixes raises :: "py_exn \<Rightarrow> bool"
  assumes returns: "owns p xs (\<lambda>b. R b + held m b) \<Longrightarrow> mgr_ok p m \<Longrightarrow> pre p m \<Longrightarrow>
    (\<exists>r. f i p m = Inr r) \<or> (\<exists>e. f i p m = Inl e \<and> raises e)"
begin

lemma for_managers_returns:
  "owns p xs (\<lambda>b. R b + held_all ms b) \<Longrightarrow> \<forall>m \<in> set ms. mgr_ok p m \<and> pre p m \<Longrightarrow>
     (\<exists>r. for_managers f i p ms = Inr r) \<or> (\<exists>e. for_managers f i p ms = Inl e \<and> raises e)"
proof (induction ms arbitrary: i p xs R)
  case (Cons m ms)
  let ?R1 = "\<lambda>b. R b + held_all ms b"
  have o1: "owns p xs (\<lambda>b. ?R1 b + held m b)" using Cons.prems(1) by (simp add: add_ac)
  consider e where "f i p m = Inl e" "raises e" | x p1 m1 where "f i p m = Inr (x, p1, m1)"
    using returns [OF o1, of i] Cons.prems(2) by auto
  then show ?case
  proof cases
  case 1
  then show ?thesis by simp
  next
  case s: (2 x p1 m1)
  have res: "op_result ?R1 p m p1 m1" using keeps [OF o1 _ _ s] Cons.prems(2) by simp
  have ms: "\<forall>n \<in> set ms. mgr_ok p n" using Cons.prems(2) by simp
  obtain xs1 where o2: "owns p1 xs1 (\<lambda>b. (R b + held m1 b) + held_all ms b)" using op_result_others(2) [OF o1 res ms] ..
  have ok: "\<forall>m \<in> set ms. mgr_ok p1 m \<and> pre p1 m"
    using op_result_others(1) [OF o1 res ms] Cons.prems(2) pre_config [OF op_resultD(3) [OF res]] by simp
  show ?thesis using Cons.IH [OF o2 ok, of "i + 1"] s by auto
  qed
qed simp

end

text \<open>Allocation.\<close>

lemma new_blocks_fresh:
  assumes "owns p xs H" and "get_new_blocks ui n p = Inr (new, p')"
  shows "new = take n xs" "pool_repr p' (drop n xs)" "same_config p p'" "distinct new"
    "b \<in> set new \<Longrightarrow> b \<in> pool_blocks p \<and> b \<noteq> Blk 0 \<and> H b = 0 \<and> exclusive p' b"
    "b \<notin> set new \<Longrightarrow> same_block p p' b"
proof -
  note r = ownsD [OF assms(1)]
  have len: "n \<le> length xs"
    using assms(2) get_new_blocks_short [OF r(1), of n ui] by (cases "length xs < n") auto
  obtain p2 where p2: "get_new_blocks ui n p = Inr (take n xs, p2)" "pool_repr p2 (drop n xs)"
    "same_config p p2" "\<forall>b. ref_cnt (blk p2 b) = (if b \<in> set (take n xs) then 1 else ref_cnt (blk p b))"
    "\<forall>b. block_hash (blk p2 b) = (if b \<in> set (take n xs) \<and> enable_caching p then None else block_hash (blk p b))"
    using get_new_blocks_inv [OF r(1) len, of ui] by blast
  then have new: "new = take n xs" "p' = p2" using assms(2) by auto
  then show "new = take n xs" "pool_repr p' (drop n xs)" "same_config p p'" using p2 by auto
  show "distinct new" using pool_invD(3) [OF r(1)] queue_reprD(3) new(1) by (metis distinct_take)
  show "same_block p p' b" if "b \<notin> set new" using p2(4,5) new that by (simp add: same_block_def)
  show "b \<in> pool_blocks p \<and> b \<noteq> Blk 0 \<and> H b = 0 \<and> exclusive p' b" if b: "b \<in> set new"
  proof -
    have "b \<in> set xs" using b new(1) by (auto dest: in_set_takeD)
    then have *: "b \<in> pool_blocks p" "b \<noteq> Blk 0" "ref_cnt (blk p b) = 0" using pool_invD(7) [OF r(1), of b] by auto
    then have "H b = 0" using r(2) [of b] by auto
    moreover have "exclusive p' b" using p2(4,5) new b r(3) * by (cases "enable_caching p") (simp_all add: exclusive_def)
    ultimately show ?thesis using * by blast
  qed
qed

lemma attach_new:
  assumes "owns p xs (\<lambda>b. R b + held m b)" and "mgr_ok p m" and "get_new_blocks ui n p = Inr (new, p')"
    and "same_manager m m'" and "num_cached_block m' = num_cached_block m"
    and "req_to_blocks m' = fmupd rid (dd_get rid (req_to_blocks m) @ new) (req_to_blocks m)"
  shows "op_result R p m p' m'"
proof -
  note f = new_blocks_fresh [OF assms(1,3)] and r = ownsD [OF assms(1)]
  let ?blocks = "dd_get rid (req_to_blocks m)"
  have h: "held m' b = held m b + count_list new b" for b using sum_upd [OF assms(6), of b] by simp
  have cnt: "count_list new b = (if b \<in> set new then 1 else 0)" for b
    using count_list_filter_distinct [of "\<lambda>_. True" new b] f(4) by simp
  have cfg: "pool_blocks p' = pool_blocks p" "enable_caching p' = enable_caching p"
    using pool_blocks_config [OF f(3)] f(3) by (simp_all add: same_config_def)
  have "owns p' (drop n xs) (\<lambda>b. R b + held m' b)"
    unfolding owns_def cfg
  proof (intro conjI ballI impI)
    fix b
    assume b: "b \<in> pool_blocks p"
    show "ref_cnt (blk p' b) = int (R b + held m' b)" if "b \<noteq> Blk 0"
      using f(5,6) [of b] r(2) [OF b that] by (cases "b \<in> set new") (auto simp: h cnt exclusive_def same_block_def)
    show "block_hash (blk p' b) = None" if "\<not> enable_caching p"
      using f(5,6) [of b] r(3) [OF that b] by (cases "b \<in> set new") (auto simp: exclusive_def same_block_def)
  qed (rule f(2))
  moreover have "mgr_ok p' m'"
    unfolding mgr_ok_def
  proof (intro allI conjI ballI impI)
    fix s
    have c: "cached_count s m' = cached_count s m" by (simp add: cached_count_def assms(5))
    note l = mgr_okD(1) [OF assms(2), of s]
    have disj: "set ?blocks \<inter> set new = {}" using f(5) held_member [of _ rid m] by fastforce
    have "set new \<subseteq> pool_blocks p - {Blk 0}" using f(5) by auto
    then have "list_ok p (cached_count s m) (dd_get s (req_to_blocks m'))"
      using l list_ok_append [OF l _ f(4)] disj by (cases "s = rid") (simp_all add: assms(6))
    then show "list_ok p' (cached_count s m') (dd_get s (req_to_blocks m'))"
      using list_ok_config [OF f(3)] c by simp
    fix b
    assume b: "b \<in> set (uncached s m')" "b \<noteq> Blk 0"
    then have "b \<in> set new \<or> b \<in> set (uncached s m)"
      by (auto simp: uncached_def c assms(6) split: if_splits dest: in_set_dropD)
    then show "exclusive p' b"
    proof
      assume u: "b \<in> set (uncached s m)"
      then have "b \<notin> set new" using f(5) [of b] held_member [OF uncached_member] by force
      then show ?thesis using mgr_okD(2) [OF assms(2) u b(2)] f(6) exclusive_same by blast
    qed (use f(5) in blast)
  qed
  moreover have "same_block p p' b" if "0 < R b" for b using f(5,6) [of b] that by (cases "b \<in> set new") auto
  ultimately show ?thesis using f(3) assms(4) by (auto simp: op_result_def)
qed

lemma read_keeps:
  "owns p xs (\<lambda>b. R b + held m b) \<Longrightarrow> mgr_ok p m \<Longrightarrow> op_result R p m p (snd (dd_read r m))"
  by (auto simp: op_result_def same_manager_def same_block_def dd_read_simps)

lemma same_keeps: "owns p xs (\<lambda>b. R b + held m b) \<Longrightarrow> mgr_ok p m \<Longrightarrow> op_result R p m p m"
  by (auto simp: op_result_def same_manager_def same_block_def)

lemma allocate_keeps:
  assumes "owns p xs (\<lambda>b. R b + held m b)" and "mgr_ok p m"
    and "allocate_new_blocks ui rid n p m = Inr (new, p', m')"
  shows "op_result R p m p' m'"
proof -
  let ?blocks = "dd_get rid (req_to_blocks m)"
  let ?n = "cdiv (n + extra_tokens (mgr_spec m)) (mgr_block_size m) - int (length ?blocks)"
  obtain m1 where dd: "dd_read rid m = (?blocks, m1)" and m1: "m1 = snd (dd_read rid m)"
    by (cases "dd_read rid m") (simp add: dd_read_def)
  show ?thesis
  proof (cases "?n \<le> 0")
    case True
    then have "p' = p" "m' = m1" using assms(3) dd by (auto simp: allocate_new_blocks_def Let_def)
    then show ?thesis using read_keeps [OF assms(1,2)] m1 by simp
  next
    case False
    then obtain p1 where g: "get_new_blocks ui (nat ?n) p = Inr (new, p')"
      and m': "m' = m1\<lparr> req_to_blocks := fmupd rid (?blocks @ new) (req_to_blocks m1) \<rparr>"
      using assms(3) dd by (auto simp: allocate_new_blocks_def Let_def)
    show ?thesis
      by (rule attach_new [OF assms(1,2) g]) (simp_all add: m' m1 same_manager_def dd_read_def)
  qed
qed

text \<open>Giving back blocks.\<close>

lemma distinct_filter_count: "(\<And>b. P b \<Longrightarrow> count_list bs b \<le> 1) \<Longrightarrow> distinct (filter P bs)"
proof (induction bs)
  case (Cons a bs)
  have "count_list bs b \<le> 1" if "P b" for b
    using Cons.prems [OF that] by (simp split: if_splits)
  moreover have "a \<notin> set bs" if "P a"
  proof -
    have "count_list bs a = 0" using Cons.prems [OF that] by simp
    then show ?thesis by (simp add: count_list_0_iff)
  qed
  ultimately show ?case using Cons.IH by simp
qed simp

lemma release_owns:
  assumes "owns p xs (\<lambda>b. R b + c b)" and "set bs \<subseteq> pool_blocks p"
    and "distinct (filter (\<lambda>b. b \<noteq> Blk 0) bs)" and "\<And>b. b \<noteq> Blk 0 \<Longrightarrow> c' b + count_list bs b = c b"
  shows "\<exists>p'. free_blocks bs p = Inr p' \<and> owns p' (xs @ released bs p) (\<lambda>b. R b + c' b) \<and> same_config p p'
    \<and> (\<forall>b. b \<notin> set bs \<longrightarrow> same_block p p' b)"
proof -
  note r = ownsD [OF assms(1)]
  have "freeable bs p"
    unfolding freeable_def
  proof (intro conjI ballI impI)
    fix b
    assume b: "b \<in> set bs" "b \<noteq> Blk 0"
    then have "1 \<le> count_list bs b" using count_list_0_iff [of bs b] by linarith
    moreover have "ref_cnt (blk p b) = int (R b + c b)" using r(2) b assms(2) by blast
    ultimately show "1 \<le> ref_cnt (blk p b)" using assms(4) [OF b(2)] by linarith
  qed (use assms(2,3) in auto)
  then obtain p' where p': "free_blocks bs p = Inr p'" "pool_repr p' (xs @ released bs p)" "same_config p p'"
    "\<forall>c. ref_cnt (blk p' c) = ref_cnt (blk p c) - int (count_list bs c)"
    "\<forall>c. block_hash (blk p' c) = block_hash (blk p c)"
    using free_blocks_inv [OF r(1)] by blast
  have cfg: "pool_blocks p' = pool_blocks p" "enable_caching p' = enable_caching p"
    using pool_blocks_config [OF p'(3)] p'(3) by (simp_all add: same_config_def)
  have "owns p' (xs @ released bs p) (\<lambda>b. R b + c' b)"
    unfolding owns_def cfg
  proof (intro conjI ballI impI)
    fix b
    assume b: "b \<in> pool_blocks p"
    show "ref_cnt (blk p' b) = int (R b + c' b)" if "b \<noteq> Blk 0"
      using r(2) [OF b that] p'(4) assms(4) [OF that] by simp
    show "block_hash (blk p' b) = None" if "\<not> enable_caching p" using r(3) [OF that b] p'(5) by simp
  qed (rule p'(2))
  moreover have "same_block p p' b" if "b \<notin> set bs" for b
  proof -
    have "count_list bs b = 0" using that by (simp add: count_list_0_iff)
    then show ?thesis using p'(4,5) by (simp add: same_block_def)
  qed
  ultimately show ?thesis using p'(1,3) by blast
qed

text \<open>Giving back blocks of one manager.\<close>

lemma detach:
  assumes "owns p xs (\<lambda>b. R b + held m b)" and "mgr_ok p m" and "same_manager m m'"
    and "set bs \<subseteq> pool_blocks p" and "distinct (filter (\<lambda>b. b \<noteq> Blk 0) bs)"
    and cnt: "\<And>b. b \<noteq> Blk 0 \<Longrightarrow> held m' b + count_list bs b = held m b"
    and l: "\<And>r. list_ok p (cached_count r m') (dd_get r (req_to_blocks m'))"
    and u: "\<And>r b. b \<in> set (uncached r m') \<Longrightarrow> b \<noteq> Blk 0 \<Longrightarrow> b \<notin> set bs \<and> exclusive p b"
  shows "\<exists>p'. free_blocks bs p = Inr p' \<and> op_result R p m p' m' \<and> owns p' (xs @ released bs p) (\<lambda>b. R b + held m' b)"
proof -
  obtain p' where p': "free_blocks bs p = Inr p'" "owns p' (xs @ released bs p) (\<lambda>b. R b + held m' b)"
    "same_config p p'" "\<forall>b. b \<notin> set bs \<longrightarrow> same_block p p' b"
    using release_owns [OF assms(1,4,5) cnt] by blast
  have "mgr_ok p' m'"
    unfolding mgr_ok_def
  proof (intro allI conjI ballI impI)
    show "list_ok p' (cached_count r m') (dd_get r (req_to_blocks m'))" for r
      using l list_ok_config [OF p'(3)] by blast
    show "exclusive p' b" if "b \<in> set (uncached r m')" "b \<noteq> Blk 0" for r b
      using u [OF that] p'(4) exclusive_same by blast
  qed
  moreover have "same_block p p' b" if b: "b \<noteq> Blk 0" "held m b = 0" for b
  proof -
    have "b \<notin> set bs" using cnt [OF b(1)] b(2) by (auto simp: count_list_0_iff)
    then show ?thesis using p'(4) by blast
  qed
  ultimately have "op_result R p m p' m'" unfolding op_result_def using p'(2,3) assms(3) by auto
  then show ?thesis using p'(1,2) by blast
qed

lemma exclusive_elsewhere:
  assumes "owns p xs (\<lambda>b. R b + held m b)" and "mgr_ok p m" and "b \<in> set (uncached s m)" and "b \<noteq> Blk 0" and "s \<noteq> r"
  shows "b \<notin> set (dd_get r (req_to_blocks m))"
proof
  assume r: "b \<in> set (dd_get r (req_to_blocks m))"
  note b = mgr_okD(2) [OF assms(2-4)] mgr_okD(3) [OF assms(2) r]
  have "held m b = 1" by (rule exclusive_once(2) [OF assms(1) b(1,2) assms(4) held_member [OF r]])
  then show False using held_two [OF r uncached_member [OF assms(3)]] assms(5) by simp
qed

lemma mgr_free_keeps:
  assumes "owns p xs (\<lambda>b. R b + held m b)" and "mgr_ok p m"
  shows "\<exists>p' m'. mgr_free rid p m = Inr (p', m') \<and> op_result R p m p' m'
    \<and> req_to_blocks m' = fmdrop rid (req_to_blocks m)
    \<and> owns p' (xs @ released (rev (dd_get rid (req_to_blocks m))) p) (\<lambda>b. R b + held m' b)"
proof -
  let ?bs = "dd_get rid (req_to_blocks m)"
  define m' where "m' = m\<lparr> req_to_blocks := fmdrop rid (req_to_blocks m), num_cached_block := fmdrop rid (num_cached_block m) \<rparr>"
  note l = mgr_okD(1) [OF assms(2)]
  have c: "cached_count s m' = (if s = rid then 0 else cached_count s m)" for s by (simp add: cached_count_def m'_def)
  have u: "uncached s m' = (if s = rid then [] else uncached s m)" for s by (simp add: uncached_def c) (simp add: m'_def)
  have "\<exists>p'. free_blocks (rev ?bs) p = Inr p' \<and> op_result R p m p' m'
    \<and> owns p' (xs @ released (rev ?bs) p) (\<lambda>b. R b + held m' b)"
  proof (rule detach [OF assms])
    show "same_manager m m'" by (simp add: same_manager_def m'_def)
    show "set (rev ?bs) \<subseteq> pool_blocks p" "distinct (filter (\<lambda>b. b \<noteq> Blk 0) (rev ?bs))"
      using l [of rid] by (auto simp: list_ok_def simp flip: rev_filter)
    show "held m' b + count_list (rev ?bs) b = held m b" for b
      using sum_drop [of m' rid m b] by (simp add: m'_def)
    show "list_ok p (cached_count r m') (dd_get r (req_to_blocks m'))" for r using l [of r] c by (simp add: m'_def)
    show "b \<notin> set (rev ?bs) \<and> exclusive p b" if "b \<in> set (uncached r m')" "b \<noteq> Blk 0" for r b
      using exclusive_elsewhere [OF assms, of b r rid] mgr_okD(2) [OF assms(2), of b r] that
      by (simp add: u split: if_splits)
  qed
  then show ?thesis by (auto simp: mgr_free_def m'_def)
qed

lemma skip_loop_spec:
  "skip_loop null n blocks removed = Inr (blocks', removed') \<Longrightarrow>
     \<exists>rem. removed' = removed @ rem \<and> set rem \<subseteq> set blocks - {null}
       \<and> list_all2 (\<lambda>b c. c = null \<or> c = b) blocks blocks'
       \<and> (\<forall>b. b \<noteq> null \<longrightarrow> count_list blocks' b + count_list rem b = count_list blocks b)
       \<and> drop n blocks' = drop n blocks"
proof (induction n arbitrary: blocks removed)
  case (Suc n)
  show ?case
  proof (cases "blocks ! n = null")
    case True
    then show ?thesis using Suc.prems by (auto simp: list_all2_refl split: if_splits)
  next
    case False
    then have n: "n < length blocks"
      and s: "skip_loop null n (blocks[n := null]) (removed @ [blocks ! n]) = Inr (blocks', removed')"
      using Suc.prems by (auto split: if_splits)
    obtain rem where rem: "removed' = (removed @ [blocks ! n]) @ rem" "set rem \<subseteq> set (blocks[n := null]) - {null}"
      "list_all2 (\<lambda>b c. c = null \<or> c = b) (blocks[n := null]) blocks'"
      "\<forall>b. b \<noteq> null \<longrightarrow> count_list blocks' b + count_list rem b = count_list (blocks[n := null]) b"
      "drop n blocks' = drop n (blocks[n := null])"
      using Suc.IH [OF s] by blast
    have sub: "set (blocks[n := null]) \<subseteq> insert null (set blocks)" by (rule set_update_subset_insert)
    have cnt: "count_list (blocks[n := null]) b + count_list [blocks ! n] b = count_list blocks b" if "b \<noteq> null" for b
    proof -
      have "blocks = take n blocks @ blocks ! n # drop (Suc n) blocks" using n by (rule id_take_nth_drop)
      then have "count_list blocks b = count_list (take n blocks) b + count_list (blocks ! n # drop (Suc n) blocks) b"
        by (metis count_list_append)
      then show ?thesis using that n by (simp add: upd_conv_take_nth_drop)
    qed
    have "drop (Suc n) blocks' = drop 1 (drop n blocks')" by simp
    also have "\<dots> = drop (Suc n) blocks" unfolding rem(5) by (simp add: drop_update_cancel)
    finally have "drop (Suc n) blocks' = drop (Suc n) blocks" .
    moreover have "\<forall>b. b \<noteq> null \<longrightarrow> count_list blocks' b + count_list (blocks ! n # rem) b = count_list blocks b"
      using rem(4) cnt by fastforce
    moreover have "list_all2 (\<lambda>b c. c = null \<or> c = b) blocks blocks'"
    proof (rule list_all2_all_nthI)
      show "length blocks = length blocks'" using list_all2_lengthD [OF rem(3)] by simp
      fix i
      assume "i < length blocks"
      then show "blocks' ! i = null \<or> blocks' ! i = blocks ! i"
        using list_all2_nthD [OF rem(3), of i] by (cases "i = n") auto
    qed
    moreover have "set (blocks ! n # rem) \<subseteq> set blocks - {null}" using rem(2) sub False n by auto
    ultimately show ?thesis using rem(1) by (intro exI [of _ "blocks ! n # rem"]) simp
  qed
qed (auto simp: list_all2_refl)


text \<open>Skipping blocks outside the window: with caching, only cached blocks may be skipped.\<close>

definition skip_pre :: "string \<Rightarrow> int \<Rightarrow> block_pool \<Rightarrow> manager \<Rightarrow> bool" where
  "skip_pre rid n p m \<longleftrightarrow>
     (enable_caching p \<longrightarrow> 0 < get_num_skipped_tokens (mgr_spec m) n
        \<longrightarrow> get_num_skipped_tokens (mgr_spec m) n div mgr_block_size m \<le> cached_count rid m)"

lemma nulled_member: "list_all2 (\<lambda>b c. c = null \<or> c = b) xs ys \<Longrightarrow> c \<in> set ys \<Longrightarrow> c = null \<or> c \<in> set xs"
  by (induction rule: list_all2_induct) auto

lemma skipped_list_ok:
  assumes "list_ok p c blocks" and "skip_loop (Blk 0) n blocks [] = Inr (blocks', rem)"
    and "enable_caching p \<longrightarrow> int n \<le> c" and "Blk 0 \<in> pool_blocks p"
  shows "list_ok p c blocks'" "set rem \<subseteq> pool_blocks p" "distinct (filter (\<lambda>b. b \<noteq> Blk 0) rem)"
    "b \<noteq> Blk 0 \<Longrightarrow> count_list blocks' b + count_list rem b = count_list blocks b"
    "b \<noteq> Blk 0 \<Longrightarrow> b \<in> set (drop k blocks') \<Longrightarrow> b \<in> set (drop k blocks) \<and> b \<notin> set rem"
    "set rem \<subseteq> set blocks"
proof -
  have sp: "set rem \<subseteq> set blocks - {Blk 0}" "list_all2 (\<lambda>b c. c = Blk 0 \<or> c = b) blocks blocks'"
    "drop n blocks' = drop n blocks"
    and cnt: "\<And>b. b \<noteq> Blk 0 \<Longrightarrow> count_list blocks' b + count_list rem b = count_list blocks b"
    using skip_loop_spec [OF assms(2)] by auto
  have one: "count_list blocks b \<le> 1" if "b \<noteq> Blk 0" for b
    using count_list_filter_distinct [of "\<lambda>b. b \<noteq> Blk 0" blocks b] assms(1) that by (simp add: list_ok_def)
  show "set rem \<subseteq> set blocks" "set rem \<subseteq> pool_blocks p" using sp(1) assms(1) by (auto simp: list_ok_def)
  show "distinct (filter (\<lambda>b. b \<noteq> Blk 0) rem)"
    by (rule distinct_filter_count) (use cnt one in \<open>metis add_leD2\<close>)
  show "b \<noteq> Blk 0 \<Longrightarrow> count_list blocks' b + count_list rem b = count_list blocks b" by (rule cnt)
  have sub: "c = Blk 0 \<or> c \<in> set (drop k blocks)" if "c \<in> set (drop k blocks')" for c k
    using nulled_member [OF list_all2_dropI [OF sp(2), of k] that] .
  show "b \<in> set (drop k blocks) \<and> b \<notin> set rem" if b: "b \<noteq> Blk 0" "b \<in> set (drop k blocks')"
  proof -
    have "0 < count_list blocks' b" using in_set_dropD [OF b(2)] by (simp add: count_list_0_iff flip: neq0_conv)
    then have "count_list rem b = 0" using cnt [OF b(1)] one [OF b(1)] by linarith
    then show ?thesis using sub [OF b(2)] b(1) by (simp add: count_list_0_iff)
  qed
  have "set blocks' \<subseteq> pool_blocks p" using sub [of _ 0] assms(1,4) by (auto simp: list_ok_def)
  moreover have "distinct (filter (\<lambda>b. b \<noteq> Blk 0) blocks')"
    by (rule distinct_filter_count) (use cnt one in \<open>metis add_leD1\<close>)
  moreover have "Blk 0 \<notin> set (drop (nat c) blocks')" if "enable_caching p"
  proof -
    have "drop (nat c) blocks' = drop (nat c - n) (drop n blocks')" using assms(3) that by (simp add: nat_le_iff)
    also have "\<dots> = drop (nat c) blocks" unfolding sp(3) using assms(3) that by (simp add: nat_le_iff)
    finally show ?thesis using assms(1) that by (simp add: list_ok_def)
  qed
  ultimately show "list_ok p c blocks'" using assms(1) by (simp add: list_ok_def)
qed

lemma remove_skipped_keeps:
  assumes "owns p xs (\<lambda>b. R b + held m b)" and "mgr_ok p m" and "skip_pre rid n p m"
    and "remove_skipped_blocks rid n p m = Inr (p', m')"
  shows "op_result R p m p' m'"
proof (cases "get_num_skipped_tokens (mgr_spec m) n \<le> 0")
  case True
  then show ?thesis using assms same_keeps by (auto simp: remove_skipped_blocks_def)
next
  case False
  let ?n = "nat (get_num_skipped_tokens (mgr_spec m) n div mgr_block_size m)"
  let ?blocks = "dd_get rid (req_to_blocks m)"
  obtain m1 where dd: "dd_read rid m = (?blocks, m1)" and m1: "m1 = snd (dd_read rid m)"
    by (cases "dd_read rid m") (simp add: dd_read_def)
  obtain blocks' rem where sk: "skip_loop (null_block p) ?n ?blocks [] = Inr (blocks', rem)"
    and fr: "free_blocks rem p = Inr p'"
    and m': "m' = m1\<lparr> req_to_blocks := fmupd rid blocks' (req_to_blocks m1) \<rparr>"
    using assms(4) False dd by (auto simp: remove_skipped_blocks_def Let_def)
  note r = ownsD [OF assms(1)]
  note l = mgr_okD(1) [OF assms(2)]
  have null: "null_block p = Blk 0" "Blk 0 \<in> pool_blocks p" using pool_invD(2) [OF r(1)] null_in_pool [OF r(1)] by auto
  have b: "req_to_blocks m' = fmupd rid blocks' (req_to_blocks m)" "cached_count s m' = cached_count s m" for s
    by (simp_all add: m' m1 dd_read_def cached_count_def)
  have pre: "enable_caching p \<longrightarrow> int ?n \<le> cached_count rid m"
    using assms(3) False l [of rid] by (auto simp: skip_pre_def list_ok_def)
  note sl = skipped_list_ok [OF l sk [unfolded null(1)] pre null(2)]
  have "\<exists>q. free_blocks rem p = Inr q \<and> op_result R p m q m' \<and> owns q (xs @ released rem p) (\<lambda>b. R b + held m' b)"
  proof (rule detach [OF assms(1,2)])
    show "same_manager m m'" by (simp add: same_manager_def m' m1 dd_read_def)
    show "set rem \<subseteq> pool_blocks p" "distinct (filter (\<lambda>b. b \<noteq> Blk 0) rem)" by (fact sl)+
    show "held m' c + count_list rem c = held m c" if "c \<noteq> Blk 0" for c
      using sum_upd [OF b(1), of c] sl(4) [OF that] by simp
    show "list_ok p (cached_count s m') (dd_get s (req_to_blocks m'))" for s
      using l [of s] sl(1) by (simp add: b)
    show "c \<notin> set rem \<and> exclusive p c" if c: "c \<in> set (uncached s m')" "c \<noteq> Blk 0" for s c
    proof (cases "s = rid")
      case True
      then show ?thesis using c sl(5) [of c] mgr_okD(2) [OF assms(2), of c rid] by (simp add: uncached_def b)
    next
      case False
      then have "c \<in> set (uncached s m)" using c by (simp add: uncached_def b)
      then show ?thesis
        using exclusive_elsewhere [OF assms(1,2) _ c(2) False] mgr_okD(2) [OF assms(2) _ c(2)] sl(6) by blast
    qed
  qed
  then show ?thesis using fr by simp
qed

end
