(* ===== verification/KV_Ownership.thy ===== *)
theory KV_Ownership
  imports KV_Holdings
begin

text \<open>
  The ownership of blocks over the operations of the KV cache manager: the references of the block
  lists are the reference counts, and the blocks that are still written have one holder, in every
  state that the scheduler can reach; an allocation takes as many blocks as its check has counted.
\<close>

section \<open>Operations of one manager\<close>

text \<open>Caching full blocks.\<close>

lemma cache_loop_result:
  "pool_inv p xs P \<Longrightarrow> set bs \<subseteq> pool_blocks p - {Blk 0} \<Longrightarrow> cache_loop ui g bs hs (p, acc) = Inr (p', acc') \<Longrightarrow>
     pool_inv p' xs P \<and> same_config p p' \<and> (\<forall>c. ref_cnt (blk p' c) = ref_cnt (blk p c))
       \<and> (\<forall>c. c \<notin> set bs \<longrightarrow> block_hash (blk p' c) = block_hash (blk p c))"
proof (induction bs arbitrary: p hs acc)
  case (Cons b bs)
  obtain h hs' k where hs: "hs = h # hs'" "block_hash (blk p b) = None" "make_block_hash_with_group_id h g = Inr k"
    using Cons.prems(3) by (auto split: list.splits)
  have b: "b \<in> pool_blocks p" "b \<noteq> Blk 0" using Cons.prems(2) by auto
  let ?p1 = "set_heap (with_hash b k (blk p)) p"
  define p2 where "p2 = ?p1\<lparr> cached_block_hash_to_block := insert_block (numbers ?p1) k b (cached_block_hash_to_block p) \<rparr>"
  have inv: "pool_inv p2 xs P" unfolding p2_def by (rule cache_one_inv [OF Cons.prems(1) b hs(2)])
  have blk2: "blk p2 = with_hash b k (blk p)" and cfg: "same_config p p2" by (simp_all add: p2_def)
  have loop: "cache_loop ui g bs hs' (p2, acc @ [maybe_convert_block_hash ui h]) = Inr (p', acc')"
    using Cons.prems(3) hs by (simp add: set_block_hash_def p2_def Let_def)
  have "set bs \<subseteq> pool_blocks p2 - {Blk 0}" using Cons.prems(2) pool_blocks_config [OF cfg] by auto
  from Cons.IH [OF inv this loop] show ?case using blk2 same_config_trans [OF cfg] by auto
qed auto

lemma cache_full_result:
  assumes "pool_inv p xs P" and "set (py_slice blocks nc nf) \<subseteq> pool_blocks p - {Blk 0}"
    and "cache_full_blocks ui rq blocks nc nf bs g p = Inr p'"
  shows "pool_inv p' xs P \<and> same_config p p' \<and> (\<forall>c. ref_cnt (blk p' c) = ref_cnt (blk p c))
    \<and> (\<forall>c. c \<notin> set (py_slice blocks nc nf) \<longrightarrow> block_hash (blk p' c) = block_hash (blk p c))"
proof (cases "nc \<ge> nf")
  case True
  then show ?thesis using assms by (simp add: cache_full_blocks_def)
next
  case False
  obtain p1 new where c: "cache_loop ui g (py_slice blocks nc nf) (drop (nat nc) (block_hashes rq)) (p, []) = Inr (p1, new)"
    and p': "p' = p1 \<or> (\<exists>es. p' = p1\<lparr> kv_event_queue := es \<rparr>)"
    using assms(3) False by (auto simp: cache_full_blocks_def split: if_splits)
  note r = cache_loop_result [OF assms(1,2) c]
  from p' show ?thesis
  proof
    assume "p' = p1"
    then show ?thesis using r by simp
  next
    assume "\<exists>es. p' = p1\<lparr> kv_event_queue := es \<rparr>"
    then obtain es where "p' = p1\<lparr> kv_event_queue := es \<rparr>" by blast
    then show ?thesis using r by (auto simp: same_config_def)
  qed
qed

lemma cache_slice:
  assumes "list_ok p nc blocks" and "enable_caching p" and "nc < nf"
  shows "set (py_slice blocks nc nf) \<subseteq> pool_blocks p - {Blk 0}"
    "set (py_slice blocks nc nf) \<subseteq> set (drop (nat nc) blocks)"
    "b \<noteq> Blk 0 \<Longrightarrow> b \<in> set (drop (nat nf) blocks) \<Longrightarrow> b \<notin> set (py_slice blocks nc nf)"
proof -
  have ab: "nc = int (nat nc)" "nf = int (nat nf)" using assms(1,3) by (auto simp: list_ok_def)
  have sl: "py_slice blocks nc nf = drop (nat nc) (take (nat nf) blocks)" using py_slice_nat ab by metis
  show sub: "set (py_slice blocks nc nf) \<subseteq> set (drop (nat nc) blocks)"
    unfolding sl by (auto simp: drop_take dest: in_set_takeD)
  show "set (py_slice blocks nc nf) \<subseteq> pool_blocks p - {Blk 0}"
    using sub assms(1,2) by (auto simp: list_ok_def dest: in_set_dropD)
  assume b: "b \<noteq> Blk 0" "b \<in> set (drop (nat nf) blocks)"
  have "count_list blocks b \<le> 1"
    using count_list_filter_distinct [of "\<lambda>b. b \<noteq> Blk 0" blocks b] assms(1) b(1) by (simp add: list_ok_def)
  moreover have "count_list blocks b = count_list (take (nat nf) blocks) b + count_list (drop (nat nf) blocks) b"
    by (metis append_take_drop_id count_list_append)
  moreover have "0 < count_list (drop (nat nf) blocks) b" using b(2) by (simp add: count_list_0_iff flip: neq0_conv)
  ultimately have "b \<notin> set (take (nat nf) blocks)" using count_list_0_iff by fastforce
  then show "b \<notin> set (py_slice blocks nc nf)" unfolding sl by (auto dest: in_set_dropD)
qed

lemma cache_keeps:
  assumes "owns p xs (\<lambda>b. R b + held m b)" and "mgr_ok p m" and "enable_caching p"
    and "cache_blocks ui rq n p m = Inr (p', m')"
  shows "op_result R p m p' m'"
proof (cases "cached_count (request_id rq) m \<ge> n div mgr_block_size m")
  case True
  then have "p' = p" "m' = m" using assms(4) by (auto simp: cache_blocks_def cached_count_def split: if_splits)
  then show ?thesis using same_keeps [OF assms(1,2)] by simp
next
  case False
  let ?rid = "request_id rq" and ?nf = "n div mgr_block_size m"
  let ?nc = "cached_count ?rid m" and ?blocks = "dd_get ?rid (req_to_blocks m)"
  obtain m1 where dd: "dd_read ?rid m = (?blocks, m1)" and m1: "m1 = snd (dd_read ?rid m)"
    by (cases "dd_read ?rid m") (simp add: dd_read_def)
  have ca: "cache_full_blocks ui rq ?blocks ?nc ?nf (mgr_block_size m) (kv_cache_group_id m) p = Inr p'"
    and m': "m' = m1\<lparr> num_cached_block := fmupd ?rid ?nf (num_cached_block m1) \<rparr>"
    using assms(4) False dd by (auto simp: cache_blocks_def cached_count_def Let_def split: if_splits)
  note r = ownsD [OF assms(1)] and l = mgr_okD(1) [OF assms(2)]
  have nf: "?nc < ?nf" using False by simp
  note sl = cache_slice [OF l [of ?rid] assms(3) nf]
  note res = cache_full_result [OF r(1) sl(1) ca]
  have cfg1: "same_config p p'" using res by blast
  have cfg: "same_config p p'" "pool_blocks p' = pool_blocks p" "enable_caching p'"
    using cfg1 pool_blocks_config [OF cfg1] assms(3) by (simp_all add: same_config_def)
  have b: "dd_get s (req_to_blocks m') = dd_get s (req_to_blocks m)"
    "cached_count s m' = (if s = ?rid then ?nf else cached_count s m)" for s
    by (simp_all add: m' m1 dd_read_simps cached_count_def)
  have h: "held m' c = held m c" for c using dd_read_simps(2) [of ?rid m c] by (simp add: m' m1 held_def)
  have own: "owns p' xs (\<lambda>b. R b + held m' b)" using res r(2) cfg by (auto simp: owns_def h)
  have same: "same_block p p' c" if "c \<notin> set (py_slice ?blocks ?nc ?nf)" for c using res that by (simp add: same_block_def)
  have mem: "c \<in> set ?blocks" if "c \<in> set (py_slice ?blocks ?nc ?nf)" for c using sl(2) that by (auto dest: in_set_dropD)
  have "mgr_ok p' m'"
    unfolding mgr_ok_def
  proof (intro allI conjI ballI impI)
    fix s
    have "list_ok p (cached_count s m') (dd_get s (req_to_blocks m'))"
      using l [of s] list_ok_more [OF l [of ?rid], of ?nf] nf by (simp add: b)
    then show "list_ok p' (cached_count s m') (dd_get s (req_to_blocks m'))" using list_ok_config [OF cfg(1)] by blast
    fix c
    assume c: "c \<in> set (uncached s m')" "c \<noteq> Blk 0"
    have u: "c \<in> set (uncached s m)"
      using c(1) nf set_drop_subset_set_drop [of "nat ?nc" "nat ?nf" ?blocks] by (auto simp: uncached_def b nat_mono split: if_splits)
    have "c \<notin> set (py_slice ?blocks ?nc ?nf)"
    proof (cases "s = ?rid")
      case True
      then show ?thesis using c sl(3) [of c] by (simp add: uncached_def b)
    next
      case False
      then show ?thesis using exclusive_elsewhere [OF assms(1,2) u c(2) False] mem by blast
    qed
    then show "exclusive p' c" using mgr_okD(2) [OF assms(2) u c(2)] same exclusive_same by blast
  qed
  moreover have "same_block p p' c" if "held m c = 0" for c
    using same [of c] mem [of c] held_member [of c ?rid m] that by (cases "c \<in> set (py_slice ?blocks ?nc ?nf)") auto
  ultimately show ?thesis
    unfolding op_result_def using own cfg(1) by (auto simp: same_manager_def m' m1 dd_read_simps)
qed


section \<open>The operations of the coordinator\<close>

text \<open>\<open>coord_ok R c\<close>: the reference counts are the holdings of the managers, plus the references \<open>R\<close>
  of an operation in progress.\<close>

definition coord_ok :: "(ref \<Rightarrow> nat) \<Rightarrow> coordinator \<Rightarrow> bool" where
  "coord_ok R c \<longleftrightarrow>
     (\<exists>xs. owns (coord_pool c) xs (\<lambda>b. R b + held_all (single_type_managers c) b))
     \<and> (\<forall>m \<in> set (single_type_managers c). mgr_ok (coord_pool c) m)"

definition coord_like :: "coordinator \<Rightarrow> coordinator \<Rightarrow> bool" where
  "coord_like c c' \<longleftrightarrow>
     same_config (coord_pool c) (coord_pool c') \<and> list_all2 same_manager (single_type_managers c) (single_type_managers c')
     \<and> coord_kind c' = coord_kind c"

lemma same_manager_trans: "same_manager a b \<Longrightarrow> same_manager b c \<Longrightarrow> same_manager a c"
  by (simp add: same_manager_def)

lemma same_managers_trans:
  "list_all2 same_manager xs ys \<Longrightarrow> list_all2 same_manager ys zs \<Longrightarrow> list_all2 same_manager xs zs"
  by (rule list_all2_trans [of same_manager same_manager same_manager]) (rule same_manager_trans)

lemma coord_like_trans: "coord_like a b \<Longrightarrow> coord_like b c \<Longrightarrow> coord_like a c"
  using same_config_trans same_managers_trans by (simp add: coord_like_def) blast

lemma coord_like_refl [simp]: "coord_like c c"
  by (simp add: coord_like_def same_manager_def list_all2_refl)

lemma coord_likeD:
  assumes "coord_like c c'"
  shows "length (single_type_managers c') = length (single_type_managers c)"
    "enable_caching (coord_pool c') = enable_caching (coord_pool c)"
    "pool_blocks (coord_pool c') = pool_blocks (coord_pool c)" "coord_kind c' = coord_kind c"
  using assms pool_blocks_config [of "coord_pool c" "coord_pool c'"]
  by (auto simp: coord_like_def same_config_def dest: list_all2_lengthD)

context manager_op
begin

lemma run_managers_keeps:
  assumes "coord_ok R c" and "\<forall>m \<in> set (single_type_managers c). pre (coord_pool c) m"
    and "run_managers f c = Inr (ys, c')"
  shows "coord_ok R c' \<and> coord_like c c'"
proof -
  obtain xs where o: "owns (coord_pool c) xs (\<lambda>b. R b + held_all (single_type_managers c) b)"
    using conjunct1 [OF assms(1) [unfolded coord_ok_def]] ..
  have pre: "\<forall>m \<in> set (single_type_managers c). mgr_ok (coord_pool c) m \<and> pre (coord_pool c) m"
    using assms(1,2) by (simp add: coord_ok_def)
  obtain p ms where r: "for_managers f 0 (coord_pool c) (single_type_managers c) = Inr (ys, p, ms)"
    and c': "c' = c\<lparr> coord_pool := p, single_type_managers := ms \<rparr>"
    using assms(3) by (auto simp: run_managers_def)
  show ?thesis using for_managers_keeps [OF o pre r] by (simp add: coord_ok_def coord_like_def c')
qed

end

interpretation count: manager_op "\<lambda>_ _. True"
  "\<lambda>i p m. if is_cross (mgr_spec m)
           then (let (n, m1) = get_num_blocks_to_allocate rid enc [] p m in Inr (n, p, m1))
           else bindE (group_item new i) (\<lambda>bs. let (n, m1) = get_num_blocks_to_allocate rid n bs p m in Inr (n, p, m1))"
  for rid enc new n
proof (unfold_locales, simp)
  fix p xs R m i x p' m'
  assume o: "owns p xs (\<lambda>b. R b + held m b)" "mgr_ok p m"
    and f: "(if is_cross (mgr_spec m)
           then (let (n, m1) = get_num_blocks_to_allocate rid enc [] p m in Inr (n, p, m1))
           else bindE (group_item new i) (\<lambda>bs. let (n, m1) = get_num_blocks_to_allocate rid n bs p m in Inr (n, p, m1)))
         = Inr (x, p', m')"
  then have "p' = p \<and> m' = snd (dd_read rid m)"
    by (cases "group_item new i") (auto simp: get_num_blocks_to_allocate_def Let_def split: if_splits prod.splits)
  then show "op_result R p m p' m'" using read_keeps [OF o] by simp
qed

interpretation alloc: manager_op "\<lambda>_ _. True"
  "\<lambda>i p m. allocate_new_blocks ui rid (if is_cross (mgr_spec m) then enc else n) p m" for ui rid enc n
  by (unfold_locales, simp) (rule allocate_keeps)

interpretation cache: manager_op "\<lambda>p _. enable_caching p"
  "\<lambda>i p m. bindE (cache_blocks ui rq n p m) (\<lambda>(p1, m1). Inr ((), p1, m1))" for ui rq n
proof (unfold_locales, simp add: same_config_def)
  fix p xs R m i x p' m'
  assume o: "owns p xs (\<lambda>b. R b + held m b)" "mgr_ok p m" "enable_caching p"
    and "bindE (cache_blocks ui rq n p m) (\<lambda>(p1, m1). Inr ((), p1, m1)) = Inr (x, p', m')"
  then have "cache_blocks ui rq n p m = Inr (p', m')" by (cases "cache_blocks ui rq n p m") auto
  then show "op_result R p m p' m'" by (rule cache_keeps [OF o])
qed

interpretation skip: manager_op "skip_pre rid n"
  "\<lambda>i p m. bindE (remove_skipped_blocks rid n p m) (\<lambda>(p1, m1). Inr ((), p1, m1))" for rid n
proof (unfold_locales, simp add: skip_pre_def same_config_def)
  fix p xs R m i x p' m'
  assume o: "owns p xs (\<lambda>b. R b + held m b)" "mgr_ok p m" "skip_pre rid n p m"
    and "bindE (remove_skipped_blocks rid n p m) (\<lambda>(p1, m1). Inr ((), p1, m1)) = Inr (x, p', m')"
  then have "remove_skipped_blocks rid n p m = Inr (p', m')" by (cases "remove_skipped_blocks rid n p m") auto
  then show "op_result R p m p' m'" by (rule remove_skipped_keeps [OF o])
qed

interpretation release: manager_op "\<lambda>_ _. True"
  "\<lambda>i p m. bindE (mgr_free rid p m) (\<lambda>(p1, m1). Inr ((), p1, m1))" for rid
proof (unfold_locales, simp)
  fix p xs R m i x p' m'
  assume o: "owns p xs (\<lambda>b. R b + held m b)" "mgr_ok p m"
    and f: "bindE (mgr_free rid p m) (\<lambda>(p1, m1). Inr ((), p1, m1)) = Inr (x, p', m')"
  obtain p1 m1 where "mgr_free rid p m = Inr (p1, m1)" "op_result R p m p1 m1"
    using mgr_free_keeps [OF o] by blast
  then show "op_result R p m p' m'" using f by simp
qed

interpretation prefix: manager_op "\<lambda>_ _. True"
  "\<lambda>i p m. let (n, m1) = get_num_common_prefix_blocks rid p m in Inr (n, p, m1)" for rid
proof (unfold_locales, simp)
  fix p xs R m i x p' m'
  assume o: "owns p xs (\<lambda>b. R b + held m b)" "mgr_ok p m"
    and "(let (n, m1) = get_num_common_prefix_blocks rid p m in Inr (n, p, m1)) = Inr (x, p', m')"
  then have "p' = p \<and> (m' = m \<or> m' = snd (dd_read rid m))"
    by (auto simp: get_num_common_prefix_blocks_def Let_def split: if_splits prod.splits)
  then show "op_result R p m p' m'" using read_keeps [OF o] same_keeps [OF o] by auto
qed


text \<open>Blocks that a request may take over from the prefix cache: blocks of the pool, none twice in a
  group, all of them cached.\<close>

definition hits_ok :: "block_pool \<Rightarrow> ref list list \<Rightarrow> bool" where
  "hits_ok p gs \<longleftrightarrow>
     (\<forall>g \<in> set gs. set g \<subseteq> pool_blocks p \<and> distinct (filter (\<lambda>b. b \<noteq> Blk 0) g)
        \<and> (\<forall>b \<in> set g. b \<noteq> Blk 0 \<longrightarrow> block_hash (blk p b) \<noteq> None))"

lemma save_keeps:
  assumes "save_new_computed_blocks rid bs m = Inr m'" and "mgr_ok p m" and "hits_ok p [bs]"
  shows "mgr_ok p m' \<and> same_manager m m' \<and> held m' b = held m b + count_list bs b"
proof (cases "bs = [] \<and> m' = m")
  case True
  then show ?thesis using assms(2) by (simp add: same_manager_def)
next
  case False
  then have none: "fmlookup (num_cached_block m) rid = None" "\<not> is_cross (mgr_spec m)"
    using assms(1) by (auto simp: save_new_computed_blocks_def split: if_splits prod.splits)
  let ?old = "dd_get rid (req_to_blocks m)"
  obtain m1 where dd: "dd_read rid m = (?old, m1)" and m1: "m1 = snd (dd_read rid m)"
    by (cases "dd_read rid m") (simp add: dd_read_def)
  have old: "?old = []"
    and m': "m' = m1\<lparr> req_to_blocks := fmupd rid bs (req_to_blocks m1),
                      num_cached_block := fmupd rid (int (length bs)) (num_cached_block m1) \<rparr>"
    using assms(1) none dd by (auto simp: save_new_computed_blocks_def split: if_splits)
  have req: "req_to_blocks m' = fmupd rid bs (req_to_blocks m1)" by (simp add: m')
  have g: "dd_get s (req_to_blocks m') = (if s = rid then bs else dd_get s (req_to_blocks m))"
    "cached_count s m' = (if s = rid then int (length bs) else cached_count s m)" for s
    by (simp_all add: m' m1 dd_read_simps cached_count_def)
  have "list_ok p (int (length bs)) bs" using assms(3) by (simp add: hits_ok_def list_ok_def)
  then have "mgr_ok p m'" using mgr_okD(1,2) [OF assms(2)] by (simp add: mgr_ok_def uncached_def g)
  moreover have "held m' b = held m b + count_list bs b"
    using sum_upd [OF req, of b] by (simp add: m1 dd_read_simps old)
  ultimately show ?thesis by (simp add: same_manager_def m' m1 dd_read_simps)
qed

lemma save_managers:
  assumes "hits_ok p gs"
  shows "for_managers (\<lambda>i p m. bindE (group_item gs i) (\<lambda>bs.
             bindE (save_new_computed_blocks rid bs m) (\<lambda>m1. Inr ((), p, m1)))) i p ms = Inr (ys, p', ms')
         \<Longrightarrow> \<forall>m \<in> set ms. mgr_ok p m \<Longrightarrow> length gs = i + length ms
         \<Longrightarrow> p' = p \<and> (\<forall>m \<in> set ms'. mgr_ok p m) \<and> list_all2 same_manager ms ms'
             \<and> held_all ms' b = held_all ms b + count_list (concat (drop i gs)) b"
proof (induction ms arbitrary: i ys ms')
  case (Cons m ms)
  then obtain m1 ms1 zs where s: "save_new_computed_blocks rid (gs ! i) m = Inr m1" "ms' = m1 # ms1" "i < length gs"
    "for_managers (\<lambda>i p m. bindE (group_item gs i) (\<lambda>bs.
        bindE (save_new_computed_blocks rid bs m) (\<lambda>m1. Inr ((), p, m1)))) (i + 1) p ms = Inr (zs, p', ms1)"
    by (auto simp: group_item_def split: if_splits)
  have hk: "hits_ok p [gs ! i]" using assms nth_mem [OF s(3)] unfolding hits_ok_def by force
  have one: "mgr_ok p m1 \<and> same_manager m m1 \<and> held m1 b = held m b + count_list (gs ! i) b"
    by (rule save_keeps [OF s(1) _ hk]) (use Cons.prems(2) in simp)
  have "concat (drop i gs) = gs ! i @ concat (drop (i + 1) gs)" using s(3) by (simp flip: Cons_nth_drop_Suc)
  moreover have "p' = p \<and> (\<forall>m \<in> set ms1. mgr_ok p m) \<and> list_all2 same_manager ms ms1
      \<and> held_all ms1 b = held_all ms b + count_list (concat (drop (i + 1) gs)) b"
    using Cons.IH [OF s(4)] Cons.prems(2,3) by simp
  ultimately show ?case using one s(2) by simp
qed auto

lemma touch_owns:
  assumes "owns p xs H" and "hits_ok p gs"
  shows "\<exists>p'. touch gs p = Inr p' \<and> owns p' (filter (\<lambda>c. c \<notin> set (concat gs)) xs) (\<lambda>b. count_list (concat gs) b + H b)
    \<and> same_config p p' \<and> (\<forall>c. block_hash (blk p' c) = block_hash (blk p c))
    \<and> (\<forall>b. b \<noteq> Blk 0 \<longrightarrow> exclusive p b \<longrightarrow> same_block p p' b)"
proof -
  note r = ownsD [OF assms(1)]
  have "set (concat gs) \<subseteq> pool_blocks p" using assms(2) by (auto simp: hits_ok_def)
  then obtain p' where p': "touch gs p = Inr p'" "pool_repr p' (filter (\<lambda>c. c \<notin> set (concat gs)) xs)" "same_config p p'"
    "\<forall>c. ref_cnt (blk p' c) = ref_cnt (blk p c) + int (count_list (concat gs) c)"
    "\<forall>c. block_hash (blk p' c) = block_hash (blk p c)"
    using touch_blocks_inv [OF r(1)] unfolding touch_concat by blast
  have cfg: "pool_blocks p' = pool_blocks p" "enable_caching p' = enable_caching p"
    using pool_blocks_config [OF p'(3)] p'(3) by (simp_all add: same_config_def)
  have "owns p' (filter (\<lambda>c. c \<notin> set (concat gs)) xs) (\<lambda>b. count_list (concat gs) b + H b)"
    unfolding owns_def cfg using p'(2,4,5) r(2,3) by simp
  moreover have "same_block p p' b" if "b \<noteq> Blk 0" "exclusive p b" for b
  proof -
    have "b \<notin> set (concat gs)" using that assms(2) unfolding hits_ok_def exclusive_def by force
    then have "count_list (concat gs) b = 0" by (simp only: count_list_0_iff not_False_eq_True)
    then show ?thesis using p'(4,5) by (simp add: same_block_def)
  qed
  ultimately show ?thesis using p'(1,3,5) by blast
qed


section \<open>The KV cache manager\<close>

text \<open>The groups that a coordinator searches are its groups.\<close>

fun kind_ok :: "nat \<Rightarrow> coordinator_kind \<Rightarrow> bool" where
  "kind_ok n NoPrefixCache \<longleftrightarrow> True"
| "kind_ok n (Unitary _ _) \<longleftrightarrow> n = 1"
| "kind_ok n (Hybrid info) \<longleftrightarrow>
     length (full_attention_group_ids info) + length (other_group_ids info) = n
     \<and> set (full_attention_group_ids info) \<union> set (other_group_ids info) \<subseteq> {..<n}"

definition kv_ok :: "kv_manager \<Rightarrow> bool" where
  "kv_ok k \<longleftrightarrow>
     coord_ok (\<lambda>_. 0) (coordinator k) \<and> km_caching k = enable_caching (km_pool k)
     \<and> num_kv_cache_groups k = length (single_type_managers (coordinator k))
     \<and> kind_ok (num_kv_cache_groups k) (coord_kind (coordinator k))"

text \<open>What the scheduler guarantees of a call of \<open>allocate_slots\<close>: the computed blocks come from the
  prefix cache, there is a list for every group, they are given only to a request without tokens
  to skip, and blocks that leave the window have been cached.\<close>

definition slots_pre :: "Request \<Rightarrow> KVCacheBlocks option \<Rightarrow> kv_manager \<Rightarrow> bool" where
  "slots_pre rq new k \<longleftrightarrow>
     (let gs = blocks_of (num_kv_cache_groups k) (case new of Some b \<Rightarrow> b | None \<Rightarrow> EmptyBlocks);
          ms = single_type_managers (coordinator k);
          n = num_computed_tokens rq
      in length gs = num_kv_cache_groups k \<and> hits_ok (km_pool k) gs
         \<and> ((\<forall>g \<in> set gs. g = []) \<or> (\<forall>m \<in> set ms. get_num_skipped_tokens (mgr_spec m) n \<le> 0))
         \<and> (\<forall>m \<in> set ms. skip_pre (request_id rq) n (km_pool k) m))"

lemma kv_ok_like: "kv_ok k \<Longrightarrow> coord_ok (\<lambda>_. 0) c \<Longrightarrow> coord_like (coordinator k) c \<Longrightarrow> kv_ok (k\<lparr> coordinator := c \<rparr>)"
  using coord_likeD [of "coordinator k" c] unfolding kv_ok_def by auto

lemma hits_ok_like:
  "hits_ok p gs \<Longrightarrow> same_config p p' \<Longrightarrow> (\<forall>g \<in> set gs. g = []) \<or> (\<forall>c. block_hash (blk p' c) = block_hash (blk p c))
     \<Longrightarrow> hits_ok p' gs"
  using pool_blocks_config [of p p'] by (auto simp: hits_ok_def)

lemma no_skip:
  "\<forall>m \<in> set ms. get_num_skipped_tokens (mgr_spec m) n \<le> 0 \<Longrightarrow>
     for_managers (\<lambda>i p m. bindE (remove_skipped_blocks rid n p m) (\<lambda>(p1, m1). Inr ((), p1, m1))) i p ms
       = Inr (map (\<lambda>_. ()) ms, p, ms)"
  by (induction ms arbitrary: i) (auto simp: remove_skipped_blocks_def)

lemma c_skip_keeps:
  assumes "coord_ok R c" and "c_remove_skipped_blocks rid n c = Inr c'"
    and "\<forall>m \<in> set (single_type_managers c). skip_pre rid n (coord_pool c) m"
  shows "coord_ok R c'" "coord_like c c'"
    "\<forall>m \<in> set (single_type_managers c). get_num_skipped_tokens (mgr_spec m) n \<le> 0 \<Longrightarrow> c' = c"
proof -
  obtain ys where r: "run_managers (\<lambda>i p m. bindE (remove_skipped_blocks rid n p m) (\<lambda>(p1, m1). Inr ((), p1, m1))) c
      = Inr (ys, c')"
    using assms(2) by (auto simp: c_remove_skipped_blocks_def)
  show "coord_ok R c'" "coord_like c c'" using skip.run_managers_keeps [OF assms(1,3) r] by auto
  show "c' = c" if "\<forall>m \<in> set (single_type_managers c). get_num_skipped_tokens (mgr_spec m) n \<le> 0"
    using r by (simp add: run_managers_def no_skip [OF that])
qed

lemma skipped_hits:
  assumes "coord_ok R c" and "c_remove_skipped_blocks rid n c = Inr c'"
    and "\<forall>m \<in> set (single_type_managers c). skip_pre rid n (coord_pool c) m"
    and "(\<forall>g \<in> set gs. g = []) \<or> (\<forall>m \<in> set (single_type_managers c). get_num_skipped_tokens (mgr_spec m) n \<le> 0)"
    and "hits_ok (coord_pool c) gs"
  shows "hits_ok (coord_pool c') gs"
  using assms(4)
proof
  assume "\<forall>g \<in> set gs. g = []"
  then show ?thesis using hits_ok_like [OF assms(5)] c_skip_keeps(2) [OF assms(1-3)] by (simp add: coord_like_def)
qed (use c_skip_keeps(3) [OF assms(1-3)] assms(5) in simp)

lemma c_count_keeps:
  assumes "coord_ok R c" and "c_get_num_blocks_to_allocate rid n gs enc c = Inr (k, c')"
  shows "coord_ok R c'" "coord_like c c'"
  using count.run_managers_keeps [OF assms(1) _, of rid enc gs n] assms(2)
  by (auto simp: c_get_num_blocks_to_allocate_def)

lemma count_managers:
  "for_managers (\<lambda>i p m. if is_cross (mgr_spec m)
       then (let (n, m1) = get_num_blocks_to_allocate rid enc [] p m in Inr (n, p, m1))
       else bindE (group_item gs i) (\<lambda>bs. let (n, m1) = get_num_blocks_to_allocate rid n bs p m in Inr (n, p, m1)))
     i p ms = Inr (ns, p', ms') \<Longrightarrow> p' = p \<and> ms' = map (\<lambda>m. snd (dd_read rid m)) ms"
  by (induction ms arbitrary: i ns ms')
    (auto simp: get_num_blocks_to_allocate_def Let_def group_item_def split: if_splits prod.splits)

lemma count_pool:
  assumes "c_get_num_blocks_to_allocate rid n gs enc c = Inr (k, c')"
  shows "coord_pool c' = coord_pool c"
    "single_type_managers c' = map (\<lambda>m. snd (dd_read rid m)) (single_type_managers c)"
  using assms count_managers [of rid enc gs n 0 "coord_pool c" "single_type_managers c"]
  by (auto simp: c_get_num_blocks_to_allocate_def run_managers_def)

lemma c_alloc_keeps:
  assumes "coord_ok R c" and "c_allocate_new_blocks ui rid n enc c = Inr (new, c')"
  shows "coord_ok R c'" "coord_like c c'"
  using alloc.run_managers_keeps [OF assms(1) _, of ui rid enc n] assms(2)
  by (auto simp: c_allocate_new_blocks_def)

lemma c_cache_keeps:
  assumes "coord_ok R c" and "enable_caching (coord_pool c)" and "c_cache_blocks ui rq n c = Inr c'"
  shows "coord_ok R c'" "coord_like c c'"
  using cache.run_managers_keeps [OF assms(1) _, of ui rq n] assms(2,3)
  by (auto simp: c_cache_blocks_def)

lemma c_free_keeps:
  assumes "coord_ok R c" and "c_free rid c = Inr c'"
  shows "coord_ok R c'" "coord_like c c'"
  using release.run_managers_keeps [OF assms(1) _, of rid] assms(2)
  by (auto simp: c_free_def)

lemma c_prefix_keeps:
  assumes "coord_ok R c" and "c_get_num_common_prefix_blocks rid c = Inr (ns, c')"
  shows "coord_ok R c'" "coord_like c c'"
  using prefix.run_managers_keeps [OF assms(1) _, of rid] assms
  by (auto simp: c_get_num_common_prefix_blocks_def split: if_splits)


lemma touch_keeps:
  assumes "coord_ok (\<lambda>_. 0) c" and "hits_ok (coord_pool c) gs" and "touch gs (coord_pool c) = Inr p"
  shows "coord_ok (\<lambda>b. count_list (concat gs) b) (c\<lparr> coord_pool := p \<rparr>)" "coord_like c (c\<lparr> coord_pool := p \<rparr>)"
    "hits_ok p gs"
proof -
  let ?ms = "single_type_managers c"
  obtain xs where o: "owns (coord_pool c) xs (\<lambda>b. 0 + held_all ?ms b)"
    using conjunct1 [OF assms(1) [unfolded coord_ok_def]] ..
  obtain p' where t: "touch gs (coord_pool c) = Inr p'"
    "owns p' (filter (\<lambda>c. c \<notin> set (concat gs)) xs) (\<lambda>b. count_list (concat gs) b + (0 + held_all ?ms b))"
    "same_config (coord_pool c) p'" "\<forall>b. block_hash (blk p' b) = block_hash (blk (coord_pool c) b)"
    "\<forall>b. b \<noteq> Blk 0 \<longrightarrow> exclusive (coord_pool c) b \<longrightarrow> same_block (coord_pool c) p' b"
    using touch_owns [OF o assms(2)] by (elim exE conjE)
  have p: "p' = p" using t(1) assms(3) by simp
  have "mgr_ok p' m" if "m \<in> set ?ms" for m
    by (rule mgr_ok_frame [OF _ t(3)]) (use assms(1) that t(5) in \<open>auto simp: coord_ok_def\<close>)
  then show "coord_ok (\<lambda>b. count_list (concat gs) b) (c\<lparr> coord_pool := p \<rparr>)"
    using t(2) unfolding coord_ok_def p by auto
  show "coord_like c (c\<lparr> coord_pool := p \<rparr>)" using t(3) p by (simp add: coord_like_def same_manager_def list_all2_refl)
  show "hits_ok p gs" using hits_ok_like [OF assms(2) t(3)] t(4) p by blast
qed

lemma c_save_keeps:
  assumes "coord_ok (\<lambda>b. count_list (concat gs) b) c" and "hits_ok (coord_pool c) gs"
    and "length gs = length (single_type_managers c)" and "c_save_new_computed_blocks rid gs c = Inr c'"
  shows "coord_ok (\<lambda>_. 0) c'" "coord_like c c'"
proof -
  let ?ms = "single_type_managers c"
  obtain ys p' ms' where r: "for_managers (\<lambda>i p m. bindE (group_item gs i) (\<lambda>bs.
      bindE (save_new_computed_blocks rid bs m) (\<lambda>m1. Inr ((), p, m1)))) 0 (coord_pool c) ?ms = Inr (ys, p', ms')"
    and c': "c' = c\<lparr> coord_pool := p', single_type_managers := ms' \<rparr>"
    using assms(4) by (auto simp: c_save_new_computed_blocks_def run_managers_def)
  have ok: "\<forall>m \<in> set ?ms. mgr_ok (coord_pool c) m" using assms(1) by (simp add: coord_ok_def)
  have len: "length gs = 0 + length ?ms" using assms(3) by simp
  note s = save_managers [OF assms(2) r ok len]
  have p': "p' = coord_pool c" and ms': "\<forall>m \<in> set ms'. mgr_ok p' m" "list_all2 same_manager ?ms ms'"
    using s by auto
  have h: "held_all ms' b = held_all ?ms b + count_list (concat gs) b" for b using s [of b] by simp
  have "(\<lambda>b. count_list (concat gs) b + held_all ?ms b) = (\<lambda>b. 0 + held_all ms' b)" using h by (simp add: fun_eq_iff)
  then show "coord_ok (\<lambda>_. 0) c'"
    using assms(1) ms'(1) unfolding coord_ok_def c' by (simp add: p')
  show "coord_like c c'" using ms'(2) by (simp add: coord_like_def c' p')
qed

text \<open>Taking over the computed blocks: the middle part of \<open>allocate_slots\<close>.\<close>

lemma take_over_keeps:
  assumes "coord_ok (\<lambda>_. 0) c" and "hits_ok (coord_pool c) gs" and "length gs = length (single_type_managers c)"
    and "gs = blocks_of n obj"
    and t: "(if caching then bindE (touch gs (coord_pool c)) (\<lambda>p. Inr (c\<lparr> coord_pool := p \<rparr>))
             else bindE (raise_if (list_ex (\<lambda>g. g \<noteq> []) gs) e) (\<lambda>_. Inr c)) = Inr c3"
    and s: "(if obj \<noteq> EmptyBlocks then c_save_new_computed_blocks rid gs c3 else Inr c3) = Inr c4"
  shows "coord_ok (\<lambda>_. 0) c4" "coord_like c c4"
proof -
  have "coord_ok (\<lambda>b. count_list (concat gs) b) c3 \<and> coord_like c c3 \<and> hits_ok (coord_pool c3) gs"
  proof (cases caching)
    case True
    then obtain p where "touch gs (coord_pool c) = Inr p" "c3 = c\<lparr> coord_pool := p \<rparr>"
      using t by (cases "touch gs (coord_pool c)") auto
    then show ?thesis using touch_keeps [OF assms(1,2)] by simp
  next
    case False
    then have e: "concat gs = []" "c3 = c" using t by (auto simp: list_ex_iff split: if_splits)
    show ?thesis using assms(1,2) e(2) by (simp add: e(1))
  qed
  then have c3: "coord_ok (\<lambda>b. count_list (concat gs) b) c3" "coord_like c c3" "hits_ok (coord_pool c3) gs" by auto
  show "coord_ok (\<lambda>_. 0) c4"
  proof (cases "obj = EmptyBlocks")
    case True
    then have e: "concat gs = []" using assms(4) by (simp add: blocks_of_def)
    show ?thesis using c3(1) s True by (simp add: e)
  next
    case False
    then show ?thesis using c_save_keeps [OF c3(1,3)] coord_likeD(1) [OF c3(2)] assms(3) s by simp
  qed
  show "coord_like c c4"
    using c_save_keeps(2) [OF c3(1,3)] coord_likeD(1) [OF c3(2)] assms(3) s coord_like_trans [OF c3(2)] c3(2)
    by (auto split: if_splits)
qed

abbreviation computed_lists :: "KVCacheBlocks option \<Rightarrow> kv_manager \<Rightarrow> ref list list" where
  "computed_lists new k \<equiv> blocks_of (num_kv_cache_groups k) (case new of Some b \<Rightarrow> b | None \<Rightarrow> EmptyBlocks)"

lemma bind_stages:
  "bindE t (\<lambda>x. bindE (s x) (\<lambda>y. bindE (a y) (\<lambda>(u, v). f u v))) = Inr r \<Longrightarrow>
     \<exists>x y u v. t = Inr x \<and> s x = Inr y \<and> a y = Inr (u, v) \<and> f u v = Inr r"
  by auto

text \<open>The stages of a call of \<open>allocate_slots\<close> that returns.\<close>

lemma allocate_slots_stages:
  assumes "allocate_slots ui rq n nc new la delay enc k = Inr (res, k')"
  obtains (refused) c1 na c2 where
      "c_remove_skipped_blocks (request_id rq) (num_computed_tokens rq) (coordinator k) = Inr c1"
      "c_get_num_blocks_to_allocate (request_id rq) (min (num_computed_tokens rq + nc + n + la) (km_max_model_len k))
         (computed_lists new k) enc c1 = Inr (na, c2)"
      "na > get_num_free_blocks (coord_pool c2)" "res = None" "k' = k\<lparr> coordinator := c2 \<rparr>"
    | (given) c1 na c2 c3 c4 bs c5 c6 where
      "c_remove_skipped_blocks (request_id rq) (num_computed_tokens rq) (coordinator k) = Inr c1"
      "c_get_num_blocks_to_allocate (request_id rq) (min (num_computed_tokens rq + nc + n + la) (km_max_model_len k))
         (computed_lists new k) enc c1 = Inr (na, c2)"
      "(if km_caching k then bindE (touch (computed_lists new k) (coord_pool c2)) (\<lambda>p. Inr (c2\<lparr> coord_pool := p \<rparr>))
        else bindE (raise_if (list_ex (\<lambda>g. g \<noteq> []) (computed_lists new k))
               (AssertionError ''Computed blocks should be empty when prefix caching is disabled'')) (\<lambda>_. Inr c2)) = Inr c3"
      "(if (case new of Some b \<Rightarrow> b | None \<Rightarrow> EmptyBlocks) \<noteq> EmptyBlocks
        then c_save_new_computed_blocks (request_id rq) (computed_lists new k) c3 else Inr c3) = Inr c4"
      "c_allocate_new_blocks ui (request_id rq) (min (num_computed_tokens rq + nc + n + la) (km_max_model_len k)) enc c4
         = Inr (bs, c5)"
      "(if \<not> km_caching k \<or> delay then Inr c5
        else c_cache_blocks ui rq (min (num_computed_tokens rq + nc + n) (num_tokens rq)) c5) = Inr c6"
      "res = Some (create_kv_cache_blocks bs)" "k' = k\<lparr> coordinator := c6 \<rparr>"
proof -
  let ?slot = "min (num_computed_tokens rq + nc + n + la) (km_max_model_len k)"
  let ?gs = "computed_lists new k"
  obtain c1 where 1: "c_remove_skipped_blocks (request_id rq) (num_computed_tokens rq) (coordinator k) = Inr c1"
    using assms by (auto simp: allocate_slots_def Let_def split: if_splits)
  obtain na c2 where 2: "c_get_num_blocks_to_allocate (request_id rq) ?slot ?gs enc c1 = Inr (na, c2)"
    using assms 1 by (auto simp: allocate_slots_def Let_def split: if_splits)
  show thesis
  proof (cases "na > get_num_free_blocks (coord_pool c2)")
    case True
    then show thesis using refused [OF 1 2 True] assms 1 2 by (auto simp: allocate_slots_def Let_def split: if_splits)
  next
    case False
    let ?touch = "if km_caching k then bindE (touch ?gs (coord_pool c2)) (\<lambda>p. Inr (c2\<lparr> coord_pool := p \<rparr>))
        else bindE (raise_if (list_ex (\<lambda>g. g \<noteq> []) ?gs)
               (AssertionError ''Computed blocks should be empty when prefix caching is disabled'')) (\<lambda>_. Inr c2)"
    let ?save = "\<lambda>c3. if (case new of Some b \<Rightarrow> b | None \<Rightarrow> EmptyBlocks) \<noteq> EmptyBlocks
        then c_save_new_computed_blocks (request_id rq) ?gs c3 else Inr c3"
    have stages: "bindE ?touch (\<lambda>c3. bindE (?save c3) (\<lambda>c4.
        bindE (c_allocate_new_blocks ui (request_id rq) ?slot enc c4) (\<lambda>(bs, c5).
        if \<not> km_caching k \<or> delay then Inr (Some (create_kv_cache_blocks bs), k\<lparr> coordinator := c5 \<rparr>)
        else bindE (c_cache_blocks ui rq (min (num_computed_tokens rq + nc + n) (num_tokens rq)) c5) (\<lambda>c6.
             Inr (Some (create_kv_cache_blocks bs), k\<lparr> coordinator := c6 \<rparr>))))) = Inr (res, k')"
      using assms 1 2 False by (simp add: allocate_slots_def Let_def split: if_splits)
    obtain c3 c4 bs c5 where s: "?touch = Inr c3" "?save c3 = Inr c4"
      "c_allocate_new_blocks ui (request_id rq) ?slot enc c4 = Inr (bs, c5)"
      "(if \<not> km_caching k \<or> delay then Inr (Some (create_kv_cache_blocks bs), k\<lparr> coordinator := c5 \<rparr>)
        else bindE (c_cache_blocks ui rq (min (num_computed_tokens rq + nc + n) (num_tokens rq)) c5) (\<lambda>c6.
             Inr (Some (create_kv_cache_blocks bs), k\<lparr> coordinator := c6 \<rparr>))) = Inr (res, k')"
      using bind_stages [OF stages] by (elim exE conjE)
    show thesis
      using s(4) given [OF 1 2 s(1-3)]
      by (cases "c_cache_blocks ui rq (min (num_computed_tokens rq + nc + n) (num_tokens rq)) c5") (auto split: if_splits)
  qed
qed


lemma allocate_slots_keeps:
  assumes "kv_ok k" and "slots_pre rq new k" and "allocate_slots ui rq n nc new la delay enc k = Inr (res, k')"
  shows "kv_ok k'"
proof -
  let ?rid = "request_id rq" and ?c = "coordinator k" and ?gs = "computed_lists new k"
  have ok: "coord_ok (\<lambda>_. 0) ?c" and cach: "km_caching k = enable_caching (coord_pool ?c)"
    and grp: "num_kv_cache_groups k = length (single_type_managers ?c)"
    using assms(1) by (auto simp: kv_ok_def)
  have pre: "length ?gs = length (single_type_managers ?c)" "hits_ok (coord_pool ?c) ?gs"
    "(\<forall>g \<in> set ?gs. g = []) \<or> (\<forall>m \<in> set (single_type_managers ?c). get_num_skipped_tokens (mgr_spec m) (num_computed_tokens rq) \<le> 0)"
    "\<forall>m \<in> set (single_type_managers ?c). skip_pre ?rid (num_computed_tokens rq) (coord_pool ?c) m"
    using assms(2) grp cach by (simp_all add: slots_pre_def Let_def)
  have fin: "kv_ok (k\<lparr> coordinator := c \<rparr>)" if "coord_ok (\<lambda>_. 0) c" "coord_like ?c c" for c
    by (rule kv_ok_like [OF assms(1) that])
  have hits: "hits_ok (coord_pool c1) ?gs"
    if "c_remove_skipped_blocks ?rid (num_computed_tokens rq) ?c = Inr c1" for c1
    by (rule skipped_hits [OF ok that pre(4,3,2)])
  from assms(3) show ?thesis
  proof (cases rule: allocate_slots_stages)
    case (refused c1 na c2)
    note k1 = c_skip_keeps [OF ok refused(1) pre(4)]
    note k2 = c_count_keeps [OF k1(1) refused(2)]
    show ?thesis using fin [OF k2(1) coord_like_trans [OF k1(2) k2(2)]] refused(5) by simp
  next
    case (given c1 na c2 c3 c4 bs c5 c6)
    note k1 = c_skip_keeps [OF ok given(1) pre(4)]
    note k2 = c_count_keeps [OF k1(1) given(2)]
    have c12: "coord_pool c2 = coord_pool c1" by (rule count_pool(1) [OF given(2)])
    note l2 = coord_like_trans [OF k1(2) k2(2)]
    have len: "length ?gs = length (single_type_managers c2)" using pre(1) coord_likeD(1) [OF l2] by simp
    note k4 = take_over_keeps [OF k2(1) hits [OF given(1), folded c12] len refl given(3,4)]
    note k5 = c_alloc_keeps [OF k4(1) given(5)]
    note l5 = coord_like_trans [OF coord_like_trans [OF l2 k4(2)] k5(2)]
    have k6: "coord_ok (\<lambda>_. 0) c6 \<and> coord_like c5 c6"
      using given(6) k5(1) c_cache_keeps [OF k5(1)] cach coord_likeD(2) [OF l5] by (auto split: if_splits)
    show ?thesis using fin [OF conjunct1 [OF k6] coord_like_trans [OF l5 conjunct2 [OF k6]]] given(8) by simp
  qed
qed


section \<open>The KV cache manager as a transition system\<close>

definition kv_init :: "kv_manager \<Rightarrow> bool" where
  "kv_init k \<longleftrightarrow>
     (\<exists>cfg len caching eagle log evs dcp pcp. init_kv_manager cfg len caching eagle log evs dcp pcp = Inr k)"

text \<open>One call of a method that returns, by a scheduler that respects the contract of
  \<open>allocate_slots\<close>.\<close>

inductive kv_step :: "kv_manager \<Rightarrow> kv_manager \<Rightarrow> bool" where
  slots: "slots_pre rq new k \<Longrightarrow> allocate_slots ui rq n nc new la delay enc k = Inr (res, k') \<Longrightarrow> kv_step k k'"
| free: "km_free rq k = Inr k' \<Longrightarrow> kv_step k k'"
| cache: "km_cache_blocks ui rq n k = Inr k' \<Longrightarrow> kv_step k k'"
| computed: "get_computed_blocks rq k = Inr (res, k') \<Longrightarrow> kv_step k k'"
| prefix: "km_get_num_common_prefix_blocks rid k = Inr (ns, k') \<Longrightarrow> kv_step k k'"
| reset: "km_reset_prefix_cache k = (ok, k') \<Longrightarrow> kv_step k k'"
| events: "km_take_events k = (evs, k') \<Longrightarrow> kv_step k k'"
| stats: "make_prefix_cache_stats k = (st, k') \<Longrightarrow> kv_step k k'"

lemma kv_ok_stats [simp]: "kv_ok (k\<lparr> prefix_cache_stats := s \<rparr>) \<longleftrightarrow> kv_ok k"
  by (simp add: kv_ok_def)

lemma coord_ok_pool:
  assumes "coord_ok R c" and "\<And>xs. pool_repr (coord_pool c) xs \<Longrightarrow> pool_repr p xs" and "same_config (coord_pool c) p"
    and "\<And>b. ref_cnt (blk p b) = ref_cnt (blk (coord_pool c) b)"
    and "\<And>b. b \<in> pool_blocks p \<Longrightarrow> block_hash (blk p b) = None \<or> block_hash (blk p b) = block_hash (blk (coord_pool c) b)"
  shows "coord_ok R (c\<lparr> coord_pool := p \<rparr>)"
proof -
  let ?p = "coord_pool c" and ?ms = "single_type_managers c"
  obtain xs where o: "owns ?p xs (\<lambda>b. R b + held_all ?ms b)" using conjunct1 [OF assms(1) [unfolded coord_ok_def]] ..
  have cfg: "pool_blocks p = pool_blocks ?p" "enable_caching p = enable_caching ?p"
    using pool_blocks_config [OF assms(3)] assms(3) by (simp_all add: same_config_def)
  have "owns p xs (\<lambda>b. R b + held_all ?ms b)"
    unfolding owns_def cfg using ownsD [OF o] assms(2,4,5) cfg by (metis (full_types))
  moreover have "mgr_ok p m" if "m \<in> set ?ms" for m
  proof (rule mgr_ok_frame [OF _ assms(3)])
    show "mgr_ok ?p m" using assms(1) that by (simp add: coord_ok_def)
    show "same_block ?p p b" if "b \<in> pool_blocks ?p" "exclusive ?p b" for b
      using assms(4) [of b] assms(5) [of b] that cfg by (auto simp: same_block_def exclusive_def)
  qed
  ultimately show ?thesis unfolding coord_ok_def by auto
qed

lemma kv_step_ok:
  assumes "kv_ok k" and "kv_step k k'"
  shows "kv_ok k'"
proof -
  have ok: "coord_ok (\<lambda>_. 0) (coordinator k)" using assms(1) by (simp add: kv_ok_def)
  note like = kv_ok_like [OF assms(1)]
  from assms(2) show ?thesis
  proof cases
    case (slots rq new ui n nc la delay enc res)
    then show ?thesis using allocate_slots_keeps [OF assms(1)] by blast
  next
    case (free rq)
    then obtain c where c: "c_free (request_id rq) (coordinator k) = Inr c" "k' = k\<lparr> coordinator := c \<rparr>"
      by (auto simp: km_free_def)
    show ?thesis unfolding c(2) by (rule like [OF c_free_keeps [OF ok c(1)]])
  next
    case (cache ui rq n)
    show ?thesis
    proof (cases "km_caching k")
      case True
      then obtain c where c: "c_cache_blocks ui rq n (coordinator k) = Inr c" "k' = k\<lparr> coordinator := c \<rparr>"
        using cache by (auto simp: km_cache_blocks_def)
      have "enable_caching (km_pool k)" using True assms(1) by (simp add: kv_ok_def)
      then show ?thesis unfolding c(2) by (intro like c_cache_keeps [OF ok _ c(1)])
    qed (use cache assms(1) in \<open>simp add: km_cache_blocks_def\<close>)
  next
    case (computed rq res)
    then show ?thesis using assms(1) by (auto simp: get_computed_blocks_def split: if_splits)
  next
    case (prefix rid ns)
    then obtain c where c: "c_get_num_common_prefix_blocks rid (coordinator k) = Inr (ns, c)" "k' = k\<lparr> coordinator := c \<rparr>"
      by (auto simp: km_get_num_common_prefix_blocks_def)
    show ?thesis unfolding c(2) by (rule like [OF c_prefix_keeps [OF ok c(1)]])
  next
    case (reset ok)
    let ?c = "coordinator k"
    obtain p where p: "reset_prefix_cache (km_pool k) = (ok, p)"
      "k' = k\<lparr> coordinator := ?c\<lparr> coord_pool := p \<rparr> \<rparr> \<or> (\<exists>s. k' = k\<lparr> coordinator := ?c\<lparr> coord_pool := p \<rparr>, prefix_cache_stats := s \<rparr>)"
      using reset by (auto simp: km_reset_prefix_cache_def split: prod.splits bool.splits)
    have inv: "pool_repr p xs \<and> same_config (km_pool k) p \<and> (\<forall>b. ref_cnt (blk p b) = ref_cnt (blk (km_pool k) b))
        \<and> (\<forall>b \<in> pool_blocks p. block_hash (blk p b) = None \<or> block_hash (blk p b) = block_hash (blk (km_pool k) b))"
      if "pool_repr (km_pool k) xs" for xs
      using reset_inv [OF that p(1)] pool_blocks_config [of "km_pool k" p] by (cases ok) auto
    obtain xs where "pool_repr (km_pool k) xs" using ok unfolding coord_ok_def owns_def by auto
    note inv1 = inv [OF this]
    have "coord_ok (\<lambda>_. 0) (?c\<lparr> coord_pool := p \<rparr>)" by (rule coord_ok_pool [OF ok]) (use inv inv1 in auto)
    moreover have "coord_like ?c (?c\<lparr> coord_pool := p \<rparr>)" using inv1 by (simp add: coord_like_def same_manager_def list_all2_refl)
    ultimately have "kv_ok (k\<lparr> coordinator := ?c\<lparr> coord_pool := p \<rparr> \<rparr>)" by (rule like)
    then show ?thesis using p(2) by auto
  next
    case (events evs)
    let ?c = "coordinator k"
    obtain p where p: "take_events (km_pool k) = (evs, p)" "k' = k\<lparr> coordinator := ?c\<lparr> coord_pool := p \<rparr> \<rparr>"
      using events by (auto simp: km_take_events_def split: prod.splits)
    then have *: "p = km_pool k \<or> p = (km_pool k)\<lparr> kv_event_queue := [] \<rparr>" by (auto simp: take_events_def split: if_splits)
    have "coord_ok (\<lambda>_. 0) (?c\<lparr> coord_pool := p \<rparr>)"
      by (rule coord_ok_pool) (use assms(1) * in \<open>auto simp: kv_ok_def same_config_def\<close>)
    moreover have "coord_like ?c (?c\<lparr> coord_pool := p \<rparr>)" using * by (auto simp: coord_like_def same_config_def same_manager_def list_all2_refl)
    ultimately have "kv_ok (k\<lparr> coordinator := ?c\<lparr> coord_pool := p \<rparr> \<rparr>)" by (rule like)
    then show ?thesis using p(2) by auto
  next
    case (stats st)
    then show ?thesis using assms(1) by (auto simp: make_prefix_cache_stats_def split: option.splits)
  qed
qed


lemma init_coordinator_ok:
  assumes "init_coordinator cfg eagle caching evs dcp pcp = Inr c"
  shows "coord_ok (\<lambda>_. 0) c" "enable_caching (coord_pool c) = caching"
    "length (single_type_managers c) = length (kv_cache_groups cfg)"
proof -
  let ?gs = "zip [0..<length (kv_cache_groups cfg)] (kv_cache_groups cfg)"
  obtain p ms where p: "init_pool (nat (num_blocks cfg)) caching evs = Inr p"
    and ms: "mapE (\<lambda>(i, g). new_manager (kv_cache_spec g) i dcp pcp) ?gs = Inr ms"
    and c: "c = \<lparr> coord_kind = NoPrefixCache, coord_caching = caching, coord_eagle = eagle,
            coord_dcp = dcp, coord_pcp = pcp, coord_pool = p, single_type_managers = ms \<rparr>"
    using assms by (auto simp: init_coordinator_def)
  have n: "0 < nat (num_blocks cfg)" using p by (auto simp: init_pool_def)
  obtain q where q: "init_pool (nat (num_blocks cfg)) caching evs = Inr q" "pool_repr q (map Blk [1..<nat (num_blocks cfg)])"
    "num_gpu_blocks q = nat (num_blocks cfg)" "enable_caching q = caching" "\<forall>b. block_hash (blk q b) = None"
    using init_pool_inv [OF n, of caching evs] by blast
  have pq: "q = p" using p q(1) by simp
  have len: "length ms = length ?gs" using mapE_Inr_length [OF ms] .
  have new: "req_to_blocks m = fmempty \<and> num_cached_block m = fmempty" if "m \<in> set ms" for m
    using mapE_Inr_set [OF ms that] by (auto simp: new_manager_def split: if_splits)
  have h: "held_all ms b = 0" for b unfolding held_all_def using new by (simp add: held_def)
  have "mgr_ok p m" if "m \<in> set ms" for m
    using new [OF that] by (simp add: mgr_ok_def list_ok_def uncached_def cached_count_def)
  moreover have "owns p (map Blk [1..<nat (num_blocks cfg)]) (\<lambda>b. 0 + held_all ms b)"
    unfolding owns_def
  proof (intro conjI ballI impI)
    show "pool_repr p (map Blk [1..<nat (num_blocks cfg)])" using q(2) pq by simp
    show "ref_cnt (blk p b) = int (0 + held_all ms b)" if "b \<in> pool_blocks p" "b \<noteq> Blk 0" for b
    proof -
      have "b \<in> set (map Blk [1..<nat (num_blocks cfg)])" using that q(3) pq by (auto simp: pool_blocks_def)
      then show ?thesis using pool_invD(7) [OF q(2), of b] pq h by simp
    qed
  qed (use q(5) pq in simp)
  ultimately show "coord_ok (\<lambda>_. 0) c" by (auto simp: coord_ok_def c)
  show "enable_caching (coord_pool c) = caching" using q(4) pq c by simp
  show "length (single_type_managers c) = length (kv_cache_groups cfg)" using len c by simp
qed

lemma split_groups_ok:
  "foldE split_group xs (full, other, fids, oids) = Inr (full', other', fids', oids') \<Longrightarrow>
     length fids' + length oids' = length fids + length oids + length xs
     \<and> set fids' \<union> set oids' \<subseteq> set fids \<union> set oids \<union> fst ` set xs"
proof (induction xs arbitrary: full other fids oids)
  case (Cons x xs)
  obtain i g where x: "x = (i, g)" by (cases x)
  show ?case
  proof (cases "is_full_attention (kv_cache_spec g)")
    case True
    then have "foldE split_group xs (Some (kv_cache_spec g), other, fids @ [i], oids) = Inr (full', other', fids', oids')"
      using Cons.prems x by (auto split: if_splits)
    from Cons.IH [OF this] show ?thesis using x by auto
  next
    case False
    then have "foldE split_group xs (full, Some (kv_cache_spec g), fids, oids @ [i]) = Inr (full', other', fids', oids')"
      using Cons.prems x by (auto split: if_splits)
    from Cons.IH [OF this] show ?thesis using x by auto
  qed
qed simp

lemma verify_groups_ok:
  assumes "verify_and_split_kv_cache_groups groups caching = Inr info"
  shows "kind_ok (length groups) (Hybrid info)"
proof -
  obtain full other fids oids where f: "foldE split_group (zip [0..<length groups] groups) (None, None, [], []) = Inr (full, other, fids, oids)"
    and i: "full_attention_group_ids info = fids" "other_group_ids info = oids"
    using assms by (auto simp: verify_and_split_kv_cache_groups_def split: if_splits)
  have "fst ` set (zip [0..<length groups] groups) \<subseteq> {..<length groups}" by (auto dest: set_zip_leftD)
  then have "set fids \<union> set oids \<subseteq> {..<length groups}" using split_groups_ok [OF f] by (metis (no_types, lifting) Un_empty_left empty_set subset_trans)
  then show ?thesis using split_groups_ok [OF f] i by simp
qed

lemma coord_ok_kind [simp]: "coord_ok R (c\<lparr> coord_kind := x \<rparr>) \<longleftrightarrow> coord_ok R c"
  by (simp add: coord_ok_def)

lemma kv_init_ok:
  assumes "kv_init k"
  shows "kv_ok k"
proof -
  obtain cfg len caching eagle log evs dcp pcp where i: "init_kv_manager cfg len caching eagle log evs dcp pcp = Inr k"
    using assms by (auto simp: kv_init_def)
  then obtain c where c: "get_kv_cache_coordinator cfg eagle caching evs dcp pcp = Inr c"
    and k: "coordinator k = c" "km_caching k = caching" "num_kv_cache_groups k = length (kv_cache_groups cfg)"
    by (auto simp: init_kv_manager_def)
  obtain c0 kind where "init_coordinator cfg eagle caching evs dcp pcp = Inr c0" "c = c0\<lparr> coord_kind := kind \<rparr>"
    "kind_ok (length (kv_cache_groups cfg)) kind"
  proof (cases caching)
    case True
    show thesis
    proof (cases "length (kv_cache_groups cfg) = 1")
      case True
      then obtain g where g: "kv_cache_groups cfg = [g]" by (auto simp: length_Suc_conv)
      then show thesis using that c \<open>caching\<close> by (auto simp: get_kv_cache_coordinator_def Let_def)
    next
      case False
      then obtain c0 info where "init_coordinator cfg eagle caching evs dcp pcp = Inr c0" "c = c0\<lparr> coord_kind := Hybrid info \<rparr>"
        "verify_and_split_kv_cache_groups (kv_cache_groups cfg) caching = Inr info"
        using c \<open>caching\<close> by (cases "kv_cache_groups cfg" rule: remdups_adj.cases) (auto simp: get_kv_cache_coordinator_def Let_def)
      then show thesis using that verify_groups_ok by blast
    qed
  next
    case False
    then have "init_coordinator cfg eagle caching evs dcp pcp = Inr c" using c by (simp add: get_kv_cache_coordinator_def)
    moreover then have "coord_kind c = NoPrefixCache" by (auto simp: init_coordinator_def)
    ultimately show thesis using that [of c "coord_kind c"] by simp
  qed
  then show ?thesis using init_coordinator_ok [of cfg eagle caching evs dcp pcp c0] k by (simp add: kv_ok_def)
qed

interpretation kv: invariant_system kv_init kv_step kv_ok
  by unfold_locales (fact kv_init_ok, fact kv_step_ok)


section \<open>Properties\<close>

text \<open>C27.  In every state that the scheduler can reach, the reference count of a block other than the
  null block is the number of its occurrences in the block lists of the requests, over all managers;
  and the free list holds exactly the blocks that occur in none, each once.\<close>

theorem blocks_owned:
  assumes "kv_init k0" and "kv_step\<^sup>*\<^sup>* k0 k"
  shows "\<exists>xs. get_all_free_blocks (free_block_queue (km_pool k)) = Some (Inr xs) \<and> distinct xs
    \<and> (\<forall>b \<in> pool_blocks (km_pool k). b \<noteq> null_block (km_pool k) \<longrightarrow>
         ref_cnt (blk (km_pool k) b) = int (held_all (single_type_managers (coordinator k)) b)
         \<and> (b \<in> set xs \<longleftrightarrow> held_all (single_type_managers (coordinator k)) b = 0))"
proof -
  let ?ms = "single_type_managers (coordinator k)"
  have "coord_ok (\<lambda>_. 0) (coordinator k)" using kv.reachable_good [OF assms] by (simp add: kv_ok_def)
  then obtain xs where o: "owns (km_pool k) xs (\<lambda>b. 0 + held_all ?ms b)" unfolding coord_ok_def by blast
  note r = ownsD [OF o] and q = pool_invD [OF ownsD(1) [OF o]]
  have "get_all_free_blocks (free_block_queue (km_pool k)) = Some (Inr xs)" by (rule get_all_repr [OF q(3)])
  moreover have "distinct xs" by (rule queue_reprD(3) [OF q(3)])
  moreover have "b \<in> set xs \<longleftrightarrow> held_all ?ms b = 0" if "b \<in> pool_blocks (km_pool k)" "b \<noteq> Blk 0" for b
    using q(7) [of b] r(2) [OF that] that by auto
  ultimately show ?thesis using r(2) q(2) by (intro exI [of _ xs]) auto
qed

text \<open>C28.  No two requests write to the same block: in every state that the scheduler can reach, a
  block that a request holds and that is not cached yet occurs once in the list of that request and in
  no other list of any manager, is not free, and cannot be found through the prefix cache.\<close>

theorem written_blocks_exclusive:
  assumes "kv_init k0" and "kv_step\<^sup>*\<^sup>* k0 k"
    and "i < length (single_type_managers (coordinator k))"
    and "b \<in> set (uncached r (single_type_managers (coordinator k) ! i))" and "b \<noteq> null_block (km_pool k)"
  shows "count_list (dd_get r (req_to_blocks (single_type_managers (coordinator k) ! i))) b = 1
    \<and> (\<forall>j s. j < length (single_type_managers (coordinator k)) \<longrightarrow> (j, s) \<noteq> (i, r) \<longrightarrow>
         b \<notin> set (dd_get s (req_to_blocks (single_type_managers (coordinator k) ! j))))
    \<and> ref_cnt (blk (km_pool k) b) = 1
    \<and> (\<forall>key. (key, b) \<notin> map_pairs (cached_block_hash_to_block (km_pool k)))"
proof -
  let ?ms = "single_type_managers (coordinator k)" and ?p = "km_pool k"
  have ok: "coord_ok (\<lambda>_. 0) (coordinator k)" using kv.reachable_good [OF assms(1,2)] by (simp add: kv_ok_def)
  then obtain xs where o: "owns ?p xs (\<lambda>b. 0 + held_all ?ms b)" unfolding coord_ok_def by blast
  have m: "mgr_ok ?p (?ms ! i)" using ok assms(3) by (simp add: coord_ok_def)
  have null: "b \<noteq> Blk 0" using assms(5) pool_invD(2) [OF ownsD(1) [OF o]] by simp
  note ex = mgr_okD(2) [OF m assms(4) null] and mem = uncached_member [OF assms(4)]
  have pool: "b \<in> pool_blocks ?p" by (rule mgr_okD(3) [OF m mem])
  have one: "held_all ?ms b = 1" using ownsD(2) [OF o pool null] ex by (simp add: exclusive_def)
  have elsewhere: "b \<notin> set (dd_get s (req_to_blocks (?ms ! j)))" if j: "j < length ?ms" "(j, s) \<noteq> (i, r)" for j s
  proof
    assume b: "b \<in> set (dd_get s (req_to_blocks (?ms ! j)))"
    show False
    proof (cases "j = i")
      case True
      then have "2 \<le> held (?ms ! i) b" using held_two [OF mem, of s] b j(2) by auto
      then show False using held_all_member [OF assms(3), of b] one by simp
    next
      case False
      then show False
        using held_all_two [OF assms(3) j(1), of b] held_member [OF mem] held_member [OF b] one by simp
    qed
  qed
  have "count_list (dd_get r (req_to_blocks (?ms ! i))) b = 1"
    using count_list_filter_distinct [of "\<lambda>b. b \<noteq> Blk 0" "dd_get r (req_to_blocks (?ms ! i))" b] mgr_okD(1) [OF m, of r] null mem
    by (simp add: list_ok_def)
  moreover have "(key, b) \<notin> map_pairs (cached_block_hash_to_block ?p)" for key
    using pool_invD(10) [OF ownsD(1) [OF o]] ex by (simp add: exclusive_def)
  ultimately show ?thesis using elsewhere ex by (simp add: exclusive_def)
qed


subsection \<open>Witnesses\<close>

text \<open>A cache of four blocks of two tokens for one full attention layer, and a request of three
  tokens that gets its slots.\<close>

definition sample_spec :: kv_spec where
  "sample_spec = FullAttentionSpec 2 \<lparr> num_kv_heads = 1, head_size = 1, dtype = ''float16'' \<rparr> None None"

definition sample_config :: KVCacheConfig where
  "sample_config = \<lparr> num_blocks = 4, kv_cache_tensors = [],
      kv_cache_groups = [\<lparr> layer_names = [''l''], kv_cache_spec = sample_spec \<rparr>] \<rparr>"

definition sample_kv :: kv_manager where
  "sample_kv = \<lparr> km_max_model_len = 100, km_caching = True, prefix_cache_stats = None, km_block_size = Some 2,
     coordinator = \<lparr> coord_kind = Unitary sample_spec 2, coord_caching = True, coord_eagle = False, coord_dcp = 1,
       coord_pcp = 1, coord_pool = sample_pool,
       single_type_managers = [\<lparr> mgr_spec = sample_spec, mgr_block_size = 2, req_to_blocks = fmempty,
         num_cached_block = fmempty, kv_cache_group_id = 0 \<rparr>] \<rparr>,
     num_kv_cache_groups = 1 \<rparr>"

lemma sample_kv_init: "kv_init sample_kv"
proof -
  have "init_kv_manager sample_config 100 True False False True 1 1 = Inr sample_kv"
    using sample_pool_init(1)
    by (simp add: init_kv_manager_def sample_config_def sample_spec_def sample_kv_def get_kv_cache_coordinator_def
        init_coordinator_def new_manager_def)
  then show ?thesis unfolding kv_init_def by blast
qed

lemma sample_slots:
  "\<exists>k. allocate_slots True (sample_request [5, 6, 7] []) 3 0 None 0 True 0 sample_kv
      = Inr (Some (KVBlocks [[Blk 1, Blk 2]]), k)
    \<and> length (single_type_managers (coordinator k)) = 1
    \<and> uncached ''r'' (single_type_managers (coordinator k) ! 0) = [Blk 1, Blk 2]
    \<and> null_block (km_pool k) = Blk 0"
proof -
  note r = pool_invD [OF sample_pool_init(2)]
  have free: "get_num_free_blocks sample_pool = 3"
    using queue_reprD(6) [OF r(3)] by (simp add: get_num_free_blocks_def)
  obtain p where p: "get_new_blocks True 2 sample_pool = Inr ([Blk 1, Blk 2], p)" "pool_repr p [Blk 3]"
    using get_new_blocks_inv [OF sample_pool_init(2), of 2 True] by auto
  then show ?thesis
    using free pool_invD(2) [OF p(2)]
    by (simp add: allocate_slots_def sample_kv_def sample_spec_def sample_request_def blocks_of_def
         c_remove_skipped_blocks_def run_managers_def remove_skipped_blocks_def c_get_num_blocks_to_allocate_def
         group_item_def get_num_blocks_to_allocate_def cdiv_def dd_read_def dd_get_def touch_def
         c_allocate_new_blocks_def allocate_new_blocks_def create_kv_cache_blocks_def uncached_def cached_count_def)
qed

lemma sample_slots_pre: "slots_pre (sample_request [5, 6, 7] []) None sample_kv"
  by (simp add: slots_pre_def blocks_of_def sample_kv_def sample_spec_def hits_ok_def skip_pre_def)

theorem blocks_owned_witness:
  "kv_init sample_kv \<and> (\<exists>xs. get_all_free_blocks (free_block_queue (km_pool sample_kv)) = Some (Inr xs) \<and> distinct xs)"
  using blocks_owned [OF sample_kv_init rtranclp.rtrancl_refl] sample_kv_init by blast

theorem written_blocks_exclusive_witness:
  "\<exists>k. kv_step\<^sup>*\<^sup>* sample_kv k \<and> Blk 1 \<in> set (uncached ''r'' (single_type_managers (coordinator k) ! 0))
     \<and> ref_cnt (blk (km_pool k) (Blk 1)) = 1"
proof -
  obtain k where k: "allocate_slots True (sample_request [5, 6, 7] []) 3 0 None 0 True 0 sample_kv
      = Inr (Some (KVBlocks [[Blk 1, Blk 2]]), k)"
    "length (single_type_managers (coordinator k)) = 1"
    "uncached ''r'' (single_type_managers (coordinator k) ! 0) = [Blk 1, Blk 2]" "null_block (km_pool k) = Blk 0"
    using sample_slots by blast
  have s: "kv_step\<^sup>*\<^sup>* sample_kv k" using kv_step.slots [OF sample_slots_pre k(1)] by blast
  show ?thesis
    using written_blocks_exclusive [OF sample_kv_init s, of 0 "Blk 1" "''r''"] k s by auto
qed

end
