(* ===== verification/KV_Progress.thy ===== *)
theory KV_Progress
  imports KV_Ownership
begin

text \<open>
  Progress of the KV cache manager: freeing a request always succeeds, and an allocation finds the
  blocks it was promised by the check of \<open>allocate_slots\<close> as long as no manager holds more than the
  request needs.
\<close>

section \<open>Calls that return\<close>

context manager_call
begin

lemma run_managers_returns:
  assumes "coord_ok R c" and "\<forall>m \<in> set (single_type_managers c). pre (coord_pool c) m"
  shows "(\<exists>ys c'. run_managers f c = Inr (ys, c')) \<or> (\<exists>e. run_managers f c = Inl e \<and> raises e)"
proof -
  obtain xs where o: "owns (coord_pool c) xs (\<lambda>b. R b + held_all (single_type_managers c) b)"
    using conjunct1 [OF assms(1) [unfolded coord_ok_def]] ..
  have pre: "\<forall>m \<in> set (single_type_managers c). mgr_ok (coord_pool c) m \<and> pre (coord_pool c) m"
    using assms by (simp add: coord_ok_def)
  show ?thesis using for_managers_returns [OF o pre, of 0] by (auto simp: run_managers_def)
qed

end

interpretation release_call: manager_call "\<lambda>_ _. True"
  "\<lambda>i p m. bindE (mgr_free rid p m) (\<lambda>(p1, m1). Inr ((), p1, m1))" "\<lambda>_. False" for rid
proof unfold_locales
  fix p xs R m i
  assume o: "owns p xs (\<lambda>b. R b + held m b)" "mgr_ok p m"
  obtain p1 m1 where "mgr_free rid p m = Inr (p1, m1)" using mgr_free_keeps [OF o] by blast
  then show "(\<exists>r. bindE (mgr_free rid p m) (\<lambda>(p1, m1). Inr ((), p1, m1)) = Inr r)
    \<or> (\<exists>e. bindE (mgr_free rid p m) (\<lambda>(p1, m1). Inr ((), p1, m1)) = Inl e \<and> False)" by simp
qed

text \<open>Skipping returns when the request has the blocks to skip.\<close>

definition skip_ready :: "string \<Rightarrow> int \<Rightarrow> block_pool \<Rightarrow> manager \<Rightarrow> bool" where
  "skip_ready rid n p m \<longleftrightarrow>
     skip_pre rid n p m \<and>
     (0 < get_num_skipped_tokens (mgr_spec m) n
        \<longrightarrow> nat (get_num_skipped_tokens (mgr_spec m) n div mgr_block_size m) \<le> length (dd_get rid (req_to_blocks m)))"

lemma skip_loop_returns: "n \<le> length blocks \<Longrightarrow> \<exists>r. skip_loop null n blocks removed = Inr r"
  by (induction n arbitrary: blocks removed) auto

lemma remove_skipped_returns:
  assumes "owns p xs (\<lambda>b. R b + held m b)" and "mgr_ok p m" and "skip_ready rid n p m"
  shows "\<exists>r. remove_skipped_blocks rid n p m = Inr r"
proof (cases "get_num_skipped_tokens (mgr_spec m) n \<le> 0")
  case True
  then show ?thesis by (simp add: remove_skipped_blocks_def)
next
  case False
  let ?n = "nat (get_num_skipped_tokens (mgr_spec m) n div mgr_block_size m)"
  let ?blocks = "dd_get rid (req_to_blocks m)"
  note r = ownsD [OF assms(1)] and l = mgr_okD(1) [OF assms(2), of rid]
  have null: "null_block p = Blk 0" "Blk 0 \<in> pool_blocks p" using pool_invD(2) [OF r(1)] null_in_pool [OF r(1)] by auto
  have len: "?n \<le> length ?blocks" using assms(3) False by (simp add: skip_ready_def)
  obtain blocks' rem where sk: "skip_loop (Blk 0) ?n ?blocks [] = Inr (blocks', rem)"
    using skip_loop_returns [OF len, of "Blk 0" "[]"] by auto
  have pre: "enable_caching p \<longrightarrow> int ?n \<le> cached_count rid m"
    using assms(3) False l by (auto simp: skip_ready_def skip_pre_def list_ok_def)
  note sl = skipped_list_ok [OF l sk pre null(2)]
  have cnt: "held m b - count_list rem b + count_list rem b = held m b" if "b \<noteq> Blk 0" for b
  proof -
    have "count_list rem b \<le> count_list ?blocks b" using sl(4) [OF that] by simp
    also have "\<dots> \<le> held m b" using held_count [of rid m b] .
    finally show ?thesis by simp
  qed
  obtain q where "free_blocks rem p = Inr q"
    using release_owns [OF assms(1) sl(2,3) cnt] by blast
  then show ?thesis using False sk by (auto simp: remove_skipped_blocks_def Let_def null(1) dd_read_def)
qed

interpretation skip_call: manager_call "skip_ready rid n"
  "\<lambda>i p m. bindE (remove_skipped_blocks rid n p m) (\<lambda>(p1, m1). Inr ((), p1, m1))" "\<lambda>_. False" for rid n
proof unfold_locales
  show "skip_ready rid n p' m" if "same_config p p'" "skip_ready rid n p m" for p p' m
    using that by (simp add: skip_ready_def skip_pre_def same_config_def)
  show "op_result R p m p' m'"
    if "owns p xs (\<lambda>b. R b + held m b)" "mgr_ok p m" "skip_ready rid n p m"
      "bindE (remove_skipped_blocks rid n p m) (\<lambda>(p1, m1). Inr ((), p1, m1)) = Inr (x, p', m')" for p xs R m x p' m'
    using skip.keeps [of p xs R m rid n] that by (simp add: skip_ready_def)
  show "(\<exists>r. bindE (remove_skipped_blocks rid n p m) (\<lambda>(p1, m1). Inr ((), p1, m1)) = Inr r)
      \<or> (\<exists>e. bindE (remove_skipped_blocks rid n p m) (\<lambda>(p1, m1). Inr ((), p1, m1)) = Inl e \<and> False)"
    if "owns p xs (\<lambda>b. R b + held m b)" "mgr_ok p m" "skip_ready rid n p m" for p xs R m
    using remove_skipped_returns [OF that] by auto
qed

text \<open>Caching returns when there is a hash for every full block; when an event is to be written, it may
  instead fail to find the hash of the parent block.  \<open>ev\<close> says whether events are enabled.\<close>

definition parent_missing :: "bool \<Rightarrow> py_exn \<Rightarrow> bool" where
  "parent_missing ev e \<longleftrightarrow> ev \<and> (e = AssertionError [] \<or> e = IndexError)"

definition cache_ready :: "Request \<Rightarrow> int \<Rightarrow> bool \<Rightarrow> block_pool \<Rightarrow> manager \<Rightarrow> bool" where
  "cache_ready rq n ev p m \<longleftrightarrow>
     enable_caching p \<and> enable_kv_cache_events p = ev \<and> \<not> is_cross (mgr_spec m) \<and> kv_cache_group_id m < 2 ^ 32
     \<and> n div mgr_block_size m \<le> int (length (block_hashes rq))"

lemma cache_returns:
  assumes "owns p xs (\<lambda>b. R b + held m b)" and "mgr_ok p m" and "cache_ready rq n ev p m"
  shows "(\<exists>r. cache_blocks ui rq n p m = Inr r) \<or> (\<exists>e. cache_blocks ui rq n p m = Inl e \<and> parent_missing ev e)"
proof (cases "cached_count (request_id rq) m \<ge> n div mgr_block_size m")
  case True
  then show ?thesis using assms(3) by (auto simp: cache_blocks_def cache_ready_def cached_count_def)
next
  case False
  let ?rid = "request_id rq" and ?nf = "n div mgr_block_size m"
  let ?nc = "cached_count ?rid m" and ?blocks = "dd_get ?rid (req_to_blocks m)"
  let ?sl = "py_slice ?blocks ?nc ?nf"
  note r = ownsD [OF assms(1)] and l = mgr_okD(1) [OF assms(2), of ?rid]
  have pre: "enable_caching p" "enable_kv_cache_events p = ev" "\<not> is_cross (mgr_spec m)" "kv_cache_group_id m < 2 ^ 32"
    "?nf \<le> int (length (block_hashes rq))" using assms(3) by (simp_all add: cache_ready_def)
  have nf: "?nc < ?nf" using False by simp
  note sl = cache_slice [OF l pre(1) nf]
  have sleq: "?sl = drop (nat ?nc) (take (nat ?nf) ?blocks)"
    using py_slice_nat [of ?blocks "nat ?nc" "nat ?nf"] l nf by (simp add: list_ok_def)
  have "distinct (filter (\<lambda>b. b \<noteq> Blk 0) ?sl)"
  proof (rule distinct_filter_count)
    fix b
    assume b: "b \<noteq> Blk 0"
    have "count_list ?sl b \<le> count_list ?blocks b"
      unfolding sleq by (metis append_take_drop_id count_list_append le_add1 le_add2 order_trans)
    also have "\<dots> \<le> 1"
      using count_list_filter_distinct [of "\<lambda>b. b \<noteq> Blk 0" ?blocks b] l b by (simp add: list_ok_def)
    finally show "count_list ?sl b \<le> 1" .
  qed
  moreover have "filter (\<lambda>b. b \<noteq> Blk 0) ?sl = ?sl" using sl(1) by (auto intro: filter_True)
  moreover have "block_hash (blk p b) = None" if "b \<in> set ?sl" for b
    using mgr_okD(2) [OF assms(2), of b ?rid] sl(1,2) that by (auto simp: uncached_def exclusive_def)
  ultimately have ca: "cacheable ?sl p" using sl(1) by (simp add: cacheable_def)
  have len: "length ?sl \<le> length (drop (nat ?nc) (block_hashes rq))" using pre(5) l nf by (auto simp: sleq list_ok_def)
  obtain p1 acc where "cache_loop ui (kv_cache_group_id m) ?sl (drop (nat ?nc) (block_hashes rq)) (p, []) = Inr (p1, acc)"
    "same_config p p1"
    using cache_loop_inv [OF r(1) ca len pre(4), of ui "[]"] by blast
  moreover have "enable_kv_cache_events p1 = ev" using pre(2) \<open>same_config p p1\<close> by (simp add: same_config_def)
  moreover have "(\<exists>h. parent_hash ui ?blocks ?nc p1 = Inr h) \<or> (\<exists>e. parent_hash ui ?blocks ?nc p1 = Inl e \<and> (e = AssertionError [] \<or> e = IndexError))"
    by (cases "block_hash (blk p1 (?blocks ! nat (?nc - 1)))") (simp_all add: parent_hash_def of_option_def)
  ultimately show ?thesis
    using nf pre
    by (cases ev) (auto simp: cache_blocks_def cache_full_blocks_def cached_count_def dd_read_def Let_def parent_missing_def)
qed

interpretation cache_call: manager_call "cache_ready rq n ev"
  "\<lambda>i p m. bindE (cache_blocks ui rq n p m) (\<lambda>(p1, m1). Inr ((), p1, m1))" "parent_missing ev" for ui rq n ev
proof unfold_locales
  show "cache_ready rq n ev p' m" if "same_config p p'" "cache_ready rq n ev p m" for p p' m
    using that by (simp add: cache_ready_def same_config_def)
  show "op_result R p m p' m'"
    if "owns p xs (\<lambda>b. R b + held m b)" "mgr_ok p m" "cache_ready rq n ev p m"
      "bindE (cache_blocks ui rq n p m) (\<lambda>(p1, m1). Inr ((), p1, m1)) = Inr (x, p', m')" for p xs R m x p' m'
    using cache.keeps [of p xs R m ui rq n] that by (simp add: cache_ready_def)
  show "(\<exists>r. bindE (cache_blocks ui rq n p m) (\<lambda>(p1, m1). Inr ((), p1, m1)) = Inr r)
      \<or> (\<exists>e. bindE (cache_blocks ui rq n p m) (\<lambda>(p1, m1). Inr ((), p1, m1)) = Inl e \<and> parent_missing ev e)"
    if "owns p xs (\<lambda>b. R b + held m b)" "mgr_ok p m" "cache_ready rq n ev p m" for p xs R m
    using cache_returns [OF that, of ui] by auto
qed


section \<open>Counting the blocks\<close>

definition required_blocks :: "int \<Rightarrow> int \<Rightarrow> manager \<Rightarrow> int" where
  "required_blocks tok enc m =
     cdiv ((if is_cross (mgr_spec m) then enc else tok) + extra_tokens (mgr_spec m)) (mgr_block_size m)"

definition num_held :: "string \<Rightarrow> manager \<Rightarrow> int" where
  "num_held rid m = int (length (dd_get rid (req_to_blocks m)))"

lemma free_of_repr: "pool_repr p xs \<Longrightarrow> get_num_free_blocks p = int (length xs)"
  using queue_reprD(6) [OF pool_invD(3)] by (simp add: get_num_free_blocks_def)

text \<open>An allocation on one manager takes what is missing from the free blocks.\<close>

lemma allocate_returns:
  assumes "owns p xs (\<lambda>b. R b + held m b)" and "mgr_ok p m"
    and "required_blocks tok enc m - num_held rid m \<le> get_num_free_blocks p"
  shows "\<exists>new p' m'. allocate_new_blocks ui rid (if is_cross (mgr_spec m) then enc else tok) p m = Inr (new, p', m')
    \<and> get_num_free_blocks p' = get_num_free_blocks p - max 0 (required_blocks tok enc m - num_held rid m)"
proof -
  let ?n = "required_blocks tok enc m - num_held rid m"
  note r = ownsD [OF assms(1)]
  show ?thesis
  proof (cases "?n \<le> 0")
    case True
    then show ?thesis by (simp add: allocate_new_blocks_def required_blocks_def num_held_def dd_read_def)
  next
    case False
    have len: "nat ?n \<le> length xs" using assms(3) free_of_repr [OF r(1)] by simp
    obtain p1 where p1: "get_new_blocks ui (nat ?n) p = Inr (take (nat ?n) xs, p1)" "pool_repr p1 (drop (nat ?n) xs)"
      using get_new_blocks_inv [OF r(1) len, of ui] by blast
    have "get_num_free_blocks p1 = get_num_free_blocks p - ?n"
      using free_of_repr [OF r(1)] free_of_repr [OF p1(2)] len False by simp
    then show ?thesis
      using p1(1) False
      by (cases "is_cross (mgr_spec m)") (auto simp: allocate_new_blocks_def required_blocks_def num_held_def dd_read_def Let_def)
  qed
qed

lemma alloc_managers_return:
  "owns p xs (\<lambda>b. R b + held_all ms b) \<Longrightarrow> \<forall>m \<in> set ms. mgr_ok p m \<Longrightarrow>
     (\<Sum>m \<leftarrow> ms. max 0 (required_blocks tok enc m - num_held rid m)) \<le> get_num_free_blocks p \<Longrightarrow>
     \<exists>r. for_managers (\<lambda>i p m. allocate_new_blocks ui rid (if is_cross (mgr_spec m) then enc else tok) p m) i p ms = Inr r"
proof (induction ms arbitrary: i p xs R)
  case (Cons m ms)
  let ?need = "\<lambda>m. max 0 (required_blocks tok enc m - num_held rid m)"
  have o1: "owns p xs (\<lambda>b. (R b + held_all ms b) + held m b)" using Cons.prems(1) by (simp add: add_ac)
  have m: "mgr_ok p m" "\<forall>n \<in> set ms. mgr_ok p n" using Cons.prems(2) by auto
  have rest: "0 \<le> (\<Sum>m \<leftarrow> ms. ?need m)" by (rule sum_list_nonneg) auto
  then have "required_blocks tok enc m - num_held rid m \<le> get_num_free_blocks p" using Cons.prems(3) by simp
  from allocate_returns [OF o1 m(1) this, of ui] obtain new p1 m1 where
    a: "allocate_new_blocks ui rid (if is_cross (mgr_spec m) then enc else tok) p m = Inr (new, p1, m1)"
      "get_num_free_blocks p1 = get_num_free_blocks p - ?need m" by blast
  note res = allocate_keeps [OF o1 m(1) a(1)]
  obtain xs1 where o2: "owns p1 xs1 (\<lambda>b. (R b + held m1 b) + held_all ms b)" using op_result_others(2) [OF o1 res m(2)] ..
  have "(\<Sum>m \<leftarrow> ms. ?need m) \<le> get_num_free_blocks p1" using Cons.prems(3) a(2) by simp
  from Cons.IH [OF o2 op_result_others(1) [OF o1 res m(2)] this, of "i + 1"] show ?case using a(1) by auto
qed simp

text \<open>The value of the check.\<close>

definition evictable :: "block_pool \<Rightarrow> ref list \<Rightarrow> int" where
  "evictable p g = int (length (filter (\<lambda>b. ref_cnt (blk p b) = 0 \<and> \<not> is_null (blk p b)) g))"

definition counted_blocks :: "string \<Rightarrow> int \<Rightarrow> int \<Rightarrow> block_pool \<Rightarrow> ref list \<times> manager \<Rightarrow> int" where
  "counted_blocks rid tok enc p = (\<lambda>(g, m).
     required_blocks tok enc m - (if is_cross (mgr_spec m) then 0 else int (length g)) - num_held rid m
       + (if is_cross (mgr_spec m) then 0 else evictable p g))"

text \<open>What the allocation takes from the free list: the computed blocks that are not in use, and the
  blocks that are missing after them.\<close>

definition taken_blocks :: "string \<Rightarrow> int \<Rightarrow> int \<Rightarrow> block_pool \<Rightarrow> ref list \<times> manager \<Rightarrow> int" where
  "taken_blocks rid tok enc p = (\<lambda>(g, m).
     max 0 (required_blocks tok enc m - int (length g) - num_held rid m) + evictable p g)"

lemma count_managers_value:
  "length gs = i + length ms \<Longrightarrow>
     for_managers (\<lambda>i p m. if is_cross (mgr_spec m)
       then (let (n, m1) = get_num_blocks_to_allocate rid enc [] p m in Inr (n, p, m1))
       else bindE (group_item gs i) (\<lambda>bs. let (n, m1) = get_num_blocks_to_allocate rid tok bs p m in Inr (n, p, m1)))
     i p ms = Inr (map (counted_blocks rid tok enc p) (zip (drop i gs) ms), p, map (\<lambda>m. snd (dd_read rid m)) ms)"
proof (induction ms arbitrary: i)
  case (Cons m ms)
  have "drop i gs = gs ! i # drop (i + 1) gs" using Cons.prems by (simp add: Cons_nth_drop_Suc)
  moreover have "i < length gs" using Cons.prems by simp
  ultimately show ?case
    using Cons.IH [of "i + 1"] Cons.prems
    by (simp add: get_num_blocks_to_allocate_def Let_def group_item_def counted_blocks_def required_blocks_def
        num_held_def evictable_def dd_read_def)
qed simp

lemma c_count_value:
  assumes "length gs = length (single_type_managers c)"
  shows "c_get_num_blocks_to_allocate rid tok gs enc c
    = Inr (\<Sum>x \<leftarrow> zip gs (single_type_managers c). counted_blocks rid tok enc (coord_pool c) x,
           c\<lparr> single_type_managers := map (\<lambda>m. snd (dd_read rid m)) (single_type_managers c) \<rparr>)"
  using count_managers_value [of gs 0 "single_type_managers c" rid enc tok "coord_pool c"] assms
  by (simp add: c_get_num_blocks_to_allocate_def run_managers_def)


section \<open>Taking over computed blocks\<close>

lemma evictable_concat: "evictable p (concat gs) = (\<Sum>g \<leftarrow> gs. evictable p g)"
  by (induction gs) (simp_all add: evictable_def)

lemma touch_returns:
  assumes "owns p xs H" and "hits_ok p gs"
  shows "\<exists>p'. touch gs p = Inr p' \<and> get_num_free_blocks p - (\<Sum>g \<leftarrow> gs. evictable p g) \<le> get_num_free_blocks p'"
proof -
  let ?out = "filter (\<lambda>c. c \<notin> set (concat gs)) xs" and ?in = "filter (\<lambda>c. c \<in> set (concat gs)) xs"
  note r = ownsD [OF assms(1)]
  obtain p' where p': "touch gs p = Inr p'" "owns p' ?out (\<lambda>b. count_list (concat gs) b + H b)"
    using touch_owns [OF assms] by blast
  have "set ?in \<subseteq> set (filter (\<lambda>b. ref_cnt (blk p b) = 0 \<and> \<not> is_null (blk p b)) (concat gs))"
    using pool_invD(7) [OF r(1)] pool_invD(5) [OF r(1)] by auto
  then have "card (set ?in) \<le> nat (evictable p (concat gs))"
    unfolding evictable_def nat_int using card_mono [OF finite_set] card_length order_trans by metis
  moreover have "card (set ?in) = length ?in"
    by (rule distinct_card) (use queue_reprD(3) [OF pool_invD(3) [OF r(1)]] in simp)
  moreover have "length xs = length ?in + length ?out" by (simp only: sum_length_filter_compl)
  ultimately have "int (length xs) - evictable p (concat gs) \<le> int (length ?out)"
    by (simp add: evictable_def)
  then show ?thesis
    using p'(1) free_of_repr [OF r(1)] free_of_repr [OF ownsD(1) [OF p'(2)]] unfolding evictable_concat by auto
qed

definition save_ok :: "string \<Rightarrow> ref list \<Rightarrow> manager \<Rightarrow> bool" where
  "save_ok rid g m \<longleftrightarrow>
     (if is_cross (mgr_spec m) then g = []
      else if fmlookup (num_cached_block m) rid = None then dd_get rid (req_to_blocks m) = []
      else g = [])"

lemma save_returns:
  "save_ok rid g m \<Longrightarrow> \<exists>m'. save_new_computed_blocks rid g m = Inr m' \<and> same_manager m m'
     \<and> num_held rid m' = num_held rid m + int (length g)"
  by (auto simp: save_ok_def save_new_computed_blocks_def dd_read_def same_manager_def num_held_def split: if_splits)

lemma save_managers_return:
  "length gs = i + length ms \<Longrightarrow> \<forall>(g, m) \<in> set (zip (drop i gs) ms). save_ok rid g m \<Longrightarrow>
     \<exists>ys ms'. for_managers (\<lambda>i p m. bindE (group_item gs i) (\<lambda>bs.
             bindE (save_new_computed_blocks rid bs m) (\<lambda>m1. Inr ((), p, m1)))) i p ms = Inr (ys, p, ms')
       \<and> list_all2 (\<lambda>(g, m) m'. same_manager m m' \<and> num_held rid m' = num_held rid m + int (length g)) (zip (drop i gs) ms) ms'"
proof (induction ms arbitrary: i)
  case (Cons m ms)
  have d: "drop i gs = gs ! i # drop (i + 1) gs" "i < length gs" using Cons.prems(1) by (simp_all add: Cons_nth_drop_Suc)
  have "save_ok rid (gs ! i) m" using Cons.prems(2) d by simp
  then obtain m1 where m1: "save_new_computed_blocks rid (gs ! i) m = Inr m1" "same_manager m m1"
    "num_held rid m1 = num_held rid m + int (length (gs ! i))" using save_returns by blast
  have "\<forall>(g, m) \<in> set (zip (drop (i + 1) gs) ms). save_ok rid g m" using Cons.prems(2) d by simp
  then obtain ys ms' where "for_managers (\<lambda>i p m. bindE (group_item gs i) (\<lambda>bs.
             bindE (save_new_computed_blocks rid bs m) (\<lambda>m1. Inr ((), p, m1)))) (i + 1) p ms = Inr (ys, p, ms')"
    "list_all2 (\<lambda>(g, m) m'. same_manager m m' \<and> num_held rid m' = num_held rid m + int (length g)) (zip (drop (i + 1) gs) ms) ms'"
    using Cons.IH [of "i + 1"] Cons.prems(1) by auto
  then show ?case using m1 d by (auto simp: group_item_def)
qed simp

text \<open>What skipping and counting keep of a manager.\<close>

definition kept :: "string \<Rightarrow> manager \<Rightarrow> manager \<Rightarrow> bool" where
  "kept rid m m' \<longleftrightarrow>
     same_manager m m' \<and> length (dd_get rid (req_to_blocks m')) = length (dd_get rid (req_to_blocks m))
     \<and> num_cached_block m' = num_cached_block m"

lemma kept_read: "kept rid m (snd (dd_read r m))"
  by (simp add: kept_def same_manager_def dd_read_simps)

lemma skip_loop_length: "skip_loop null n blocks removed = Inr (blocks', rem) \<Longrightarrow> length blocks' = length blocks"
  by (induction n arbitrary: blocks removed) (auto split: if_splits)

lemma remove_skipped_kept: "remove_skipped_blocks rid n p m = Inr (p', m') \<Longrightarrow> kept rid m m'"
  by (auto simp: remove_skipped_blocks_def Let_def dd_read_def kept_def same_manager_def
      dest: skip_loop_length split: if_splits)

lemma skip_managers_kept:
  "for_managers (\<lambda>i p m. bindE (remove_skipped_blocks rid n p m) (\<lambda>(p1, m1). Inr ((), p1, m1))) i p ms = Inr (ys, p', ms')
     \<Longrightarrow> list_all2 (kept rid) ms ms'"
  by (induction ms arbitrary: i p ys ms') (auto dest: remove_skipped_kept)

lemma kept_facts:
  assumes "kept rid m m'"
  shows "required_blocks tok enc m' = required_blocks tok enc m" "num_held rid m' = num_held rid m"
    "save_ok rid g m' \<longleftrightarrow> save_ok rid g m" "is_cross (mgr_spec m') \<longleftrightarrow> is_cross (mgr_spec m)"
  using assms by (auto simp: kept_def same_manager_def required_blocks_def num_held_def save_ok_def simp flip: length_0_conv)


section \<open>Allocation of slots\<close>

definition slots_ready :: "Request \<Rightarrow> int \<Rightarrow> int \<Rightarrow> KVCacheBlocks option \<Rightarrow> int \<Rightarrow> bool \<Rightarrow> int \<Rightarrow> kv_manager \<Rightarrow> bool" where
  "slots_ready rq n nc new la delay enc k \<longleftrightarrow>
     (let gs = computed_lists new k;
          ms = single_type_managers (coordinator k);
          rid = request_id rq;
          tok = min (num_computed_tokens rq + nc + n + la) (km_max_model_len k)
      in n \<noteq> 0
         \<and> (\<forall>m \<in> set ms. skip_ready rid (num_computed_tokens rq) (km_pool k) m)
         \<and> (\<not> km_caching k \<longrightarrow> (\<forall>g \<in> set gs. g = []))
         \<and> (\<forall>(g, m) \<in> set (zip gs ms). (is_cross (mgr_spec m) \<longrightarrow> g = [])
              \<and> ((case new of Some b \<Rightarrow> b | None \<Rightarrow> EmptyBlocks) \<noteq> EmptyBlocks \<longrightarrow> save_ok rid g m))
         \<and> (km_caching k \<and> \<not> delay \<longrightarrow>
              (\<forall>m \<in> set ms. cache_ready rq (min (num_computed_tokens rq + nc + n) (num_tokens rq))
                 (enable_kv_cache_events (km_pool k)) (km_pool k) m)))"

lemma zip_kept:
  assumes "list_all2 (kept rid) ms ms'" and "\<forall>(g, m) \<in> set (zip gs ms). P g m" and "\<And>g m m'. kept rid m m' \<Longrightarrow> P g m \<Longrightarrow> P g m'"
  shows "\<forall>(g, m) \<in> set (zip gs ms'). P g m"
proof clarify
  fix g m'
  assume "(g, m') \<in> set (zip gs ms')"
  then obtain i where i: "i < length gs" "i < length ms'" "g = gs ! i" "m' = ms' ! i" by (auto simp: set_zip)
  then have "i < length ms" using list_all2_lengthD [OF assms(1)] by simp
  then have "P (gs ! i) (ms ! i)" using assms(2) i(1) by (force simp: set_zip)
  moreover have "kept rid (ms ! i) (ms' ! i)" using list_all2_nthD [OF assms(1) \<open>i < length ms\<close>] .
  ultimately show "P g m'" using assms(3) i(3,4) by blast
qed

text \<open>What is missing after the computed blocks are taken over.\<close>

lemma sum_needed:
  "list_all2 (\<lambda>(g, m) m'. same_manager m m' \<and> num_held rid m' = num_held rid m + int (length g)) zs ms \<Longrightarrow>
   (\<Sum>m \<leftarrow> ms. max 0 (required_blocks tok enc m - num_held rid m))
     = (\<Sum>x \<leftarrow> zs. taken_blocks rid tok enc p x) - (\<Sum>x \<leftarrow> zs. evictable p (fst x))"
proof (induction rule: list_all2_induct)
  case (Cons z zs m ms)
  obtain g n where z: "z = (g, n)" by (cases z)
  have "required_blocks tok enc m = required_blocks tok enc n" "num_held rid m = num_held rid n + int (length g)"
    using Cons.hyps(1) z by (auto simp: required_blocks_def same_manager_def)
  then have "max 0 (required_blocks tok enc m - num_held rid m) = taken_blocks rid tok enc p z - evictable p (fst z)"
    using z by (auto simp: taken_blocks_def algebra_simps)
  then show ?case using Cons.IH by simp
qed simp

lemma sum_taken_counted:
  "\<forall>(g, m) \<in> set zs. (is_cross (mgr_spec m) \<longrightarrow> g = []) \<and> int (length g) + num_held rid m \<le> required_blocks tok enc m \<Longrightarrow>
   (\<Sum>x \<leftarrow> zs. taken_blocks rid tok enc p x) = (\<Sum>x \<leftarrow> zs. counted_blocks rid tok enc p x)"
  by (rule arg_cong [where f = sum_list], rule map_cong)
    (auto simp: taken_blocks_def counted_blocks_def evictable_def)

lemma sum_counted_le:
  "\<forall>(g, m) \<in> set zs. is_cross (mgr_spec m) \<longrightarrow> g = [] \<Longrightarrow>
   (\<Sum>x \<leftarrow> zs. counted_blocks rid tok enc p x) \<le> (\<Sum>x \<leftarrow> zs. taken_blocks rid tok enc p x)"
  by (rule sum_list_mono) (auto simp: taken_blocks_def counted_blocks_def evictable_def)

lemma take_over_returns:
  assumes "coord_ok (\<lambda>_. 0) c" and "hits_ok (coord_pool c) gs" and "length gs = length (single_type_managers c)"
    and "gs = blocks_of n obj" and "\<not> caching \<longrightarrow> (\<forall>g \<in> set gs. g = [])"
    and z: "\<forall>(g, m) \<in> set (zip gs (single_type_managers c)). (is_cross (mgr_spec m) \<longrightarrow> g = [])
      \<and> (obj \<noteq> EmptyBlocks \<longrightarrow> save_ok rid g m)"
    and le: "(\<Sum>x \<leftarrow> zip gs (single_type_managers c). taken_blocks rid tok enc (coord_pool c) x)
      \<le> get_num_free_blocks (coord_pool c)"
  shows "\<exists>c3 c4 bs c5.
    (if caching then bindE (touch gs (coord_pool c)) (\<lambda>p. Inr (c\<lparr> coord_pool := p \<rparr>))
     else bindE (raise_if (list_ex (\<lambda>g. g \<noteq> []) gs) e) (\<lambda>_. Inr c)) = Inr c3
    \<and> (if obj \<noteq> EmptyBlocks then c_save_new_computed_blocks rid gs c3 else Inr c3) = Inr c4
    \<and> c_allocate_new_blocks ui rid tok enc c4 = Inr (bs, c5)"
proof -
  let ?p = "coord_pool c" and ?ms = "single_type_managers c"
  let ?Q = "\<lambda>(g, m) m'. same_manager m m' \<and> num_held rid m' = num_held rid m + int (length g)"
  obtain xs where o: "owns ?p xs (\<lambda>b. 0 + held_all ?ms b)" using conjunct1 [OF assms(1) [unfolded coord_ok_def]] ..
  obtain p3 where t: "(if caching then bindE (touch gs ?p) (\<lambda>p. Inr (c\<lparr> coord_pool := p \<rparr>))
     else bindE (raise_if (list_ex (\<lambda>g. g \<noteq> []) gs) e) (\<lambda>_. Inr c)) = Inr (c\<lparr> coord_pool := p3 \<rparr>)"
    and f3: "get_num_free_blocks ?p - (\<Sum>g \<leftarrow> gs. evictable ?p g) \<le> get_num_free_blocks p3"
  proof (cases caching)
    case True
    then show ?thesis using that touch_returns [OF o assms(2)] by auto
  next
    case False
    then have e: "\<forall>g \<in> set gs. g = []" using assms(5) by simp
    then have "(\<Sum>g \<leftarrow> gs. evictable ?p g) = 0" by (induction gs) (auto simp: evictable_def)
    then show ?thesis using that [of ?p] False e by (auto simp: list_ex_iff)
  qed
  let ?c3 = "c\<lparr> coord_pool := p3 \<rparr>"
  obtain ms4 where s: "(if obj \<noteq> EmptyBlocks then c_save_new_computed_blocks rid gs ?c3 else Inr ?c3)
      = Inr (?c3\<lparr> single_type_managers := ms4 \<rparr>)"
    and q: "list_all2 ?Q (zip gs ?ms) ms4"
  proof (cases "obj = EmptyBlocks")
    case True
    then have "\<forall>g \<in> set gs. g = []" using assms(4) by (simp add: blocks_of_def)
    then have "list_all2 ?Q (zip gs ?ms) ?ms"
      using assms(3) by (auto simp: list_all2_conv_all_nth same_manager_def)
    then show ?thesis using that [of ?ms] True by simp
  next
    case False
    have sv: "\<forall>(g, m) \<in> set (zip (drop 0 gs) ?ms). save_ok rid g m" using z False by auto
    obtain ys ms' where "for_managers (\<lambda>i p m. bindE (group_item gs i) (\<lambda>bs.
             bindE (save_new_computed_blocks rid bs m) (\<lambda>m1. Inr ((), p, m1)))) 0 p3 ?ms = Inr (ys, p3, ms')"
      "list_all2 ?Q (zip (drop 0 gs) ?ms) ms'"
      using save_managers_return [OF _ sv, of p3] assms(3) by auto
    then show ?thesis using that [of ms'] False by (simp add: c_save_new_computed_blocks_def run_managers_def)
  qed
  let ?c4 = "?c3\<lparr> single_type_managers := ms4 \<rparr>"
  have ok4: "coord_ok (\<lambda>_. 0) ?c4" by (rule take_over_keeps(1) [OF assms(1-4) t s])
  then obtain xs4 where o4: "owns p3 xs4 (\<lambda>b. 0 + held_all ms4 b)" unfolding coord_ok_def by auto
  have "(\<Sum>m \<leftarrow> ms4. max 0 (required_blocks tok enc m - num_held rid m))
      = (\<Sum>x \<leftarrow> zip gs ?ms. taken_blocks rid tok enc ?p x) - (\<Sum>x \<leftarrow> zip gs ?ms. evictable ?p (fst x))"
    by (rule sum_needed [OF q])
  also have "(\<Sum>x \<leftarrow> zip gs ?ms. evictable ?p (fst x)) = (\<Sum>g \<leftarrow> gs. evictable ?p g)"
  proof -
    have "map (\<lambda>x. evictable ?p (fst x)) (zip gs ?ms) = map (evictable ?p) gs" by (rule nth_equalityI) (use assms(3) in auto)
    then show ?thesis by simp
  qed
  finally have "(\<Sum>m \<leftarrow> ms4. max 0 (required_blocks tok enc m - num_held rid m)) \<le> get_num_free_blocks p3"
    using le f3 by linarith
  from alloc_managers_return [OF o4 _ this, of ui 0] ok4 obtain r where
    "for_managers (\<lambda>i p m. allocate_new_blocks ui rid (if is_cross (mgr_spec m) then enc else tok) p m) 0 p3 ms4 = Inr r"
    by (auto simp: coord_ok_def)
  then have "\<exists>bs c5. c_allocate_new_blocks ui rid tok enc ?c4 = Inr (bs, c5)"
    by (cases r) (simp add: c_allocate_new_blocks_def run_managers_def)
  then show ?thesis using t s by blast
qed

lemma cache_ready_kept:
  "same_config p p' \<Longrightarrow> same_manager m m' \<Longrightarrow> cache_ready rq n ev p m \<Longrightarrow> cache_ready rq n ev p' m'"
  by (simp add: cache_ready_def same_config_def same_manager_def)

lemma c_cache_returns:
  assumes "coord_ok R c" and "coord_like c0 c" and "\<forall>m \<in> set (single_type_managers c0). cache_ready rq n ev (coord_pool c0) m"
  shows "(\<exists>c'. c_cache_blocks ui rq n c = Inr c') \<or> (\<exists>e. c_cache_blocks ui rq n c = Inl e \<and> parent_missing ev e)"
proof -
  have "cache_ready rq n ev (coord_pool c) m" if "m \<in> set (single_type_managers c)" for m
  proof -
    obtain i where i: "i < length (single_type_managers c)" "m = single_type_managers c ! i" using \<open>m \<in> _\<close> by (auto simp: in_set_conv_nth)
    moreover have "i < length (single_type_managers c0)" using i(1) coord_likeD(1) [OF assms(2)] by simp
    ultimately show ?thesis
      using assms(2,3) list_all2_nthD [of same_manager "single_type_managers c0" "single_type_managers c" i]
        cache_ready_kept [of "coord_pool c0" "coord_pool c" "single_type_managers c0 ! i" m rq n ev]
      by (simp add: coord_like_def)
  qed
  then show ?thesis using cache_call.run_managers_returns [OF assms(1), of rq n ev ui] by (auto simp: c_cache_blocks_def)
qed

lemma counted_kept:
  assumes "list_all2 (kept rid) ms ms'"
  shows "map (counted_blocks rid tok enc p) (zip gs ms') = map (counted_blocks rid tok enc p) (zip gs ms)"
proof (rule nth_equalityI)
  show "length (map (counted_blocks rid tok enc p) (zip gs ms')) = length (map (counted_blocks rid tok enc p) (zip gs ms))"
    using list_all2_lengthD [OF assms] by simp
  fix i
  assume "i < length (map (counted_blocks rid tok enc p) (zip gs ms'))"
  then have "kept rid (ms ! i) (ms' ! i)" "i < length gs" "i < length ms" "i < length ms'"
    using list_all2_nthD [OF assms, of i] list_all2_lengthD [OF assms] by auto
  then show "map (counted_blocks rid tok enc p) (zip gs ms') ! i = map (counted_blocks rid tok enc p) (zip gs ms) ! i"
    using kept_facts [of rid "ms ! i" "ms' ! i"] by (simp add: counted_blocks_def)
qed

lemma taken_kept:
  assumes "list_all2 (kept rid) ms ms'"
  shows "map (taken_blocks rid tok enc p) (zip gs ms') = map (taken_blocks rid tok enc p) (zip gs ms)"
proof (rule nth_equalityI)
  show "length (map (taken_blocks rid tok enc p) (zip gs ms')) = length (map (taken_blocks rid tok enc p) (zip gs ms))"
    using list_all2_lengthD [OF assms] by simp
  fix i
  assume "i < length (map (taken_blocks rid tok enc p) (zip gs ms'))"
  then have "kept rid (ms ! i) (ms' ! i)" "i < length gs" "i < length ms" "i < length ms'"
    using list_all2_nthD [OF assms, of i] list_all2_lengthD [OF assms] by auto
  then show "map (taken_blocks rid tok enc p) (zip gs ms') ! i = map (taken_blocks rid tok enc p) (zip gs ms) ! i"
    using kept_facts [of rid "ms ! i" "ms' ! i"] by (simp add: taken_blocks_def)
qed

text \<open>The stages of an allocation after the check, from the coordinator \<open>c1\<close> that skipping leaves.\<close>

lemma stages_return:
  assumes "coord_ok (\<lambda>_. 0) c1" and "hits_ok (coord_pool c1) gs" and "length gs = length (single_type_managers c1)"
    and "gs = blocks_of num obj" and "\<not> caching \<longrightarrow> (\<forall>g \<in> set gs. g = [])"
    and "\<forall>(g, m) \<in> set (zip gs (single_type_managers c1)). (is_cross (mgr_spec m) \<longrightarrow> g = [])
      \<and> (obj \<noteq> EmptyBlocks \<longrightarrow> save_ok rid g m)"
    and "(\<Sum>x \<leftarrow> zip gs (single_type_managers c1). taken_blocks rid tok enc (coord_pool c1) x)
      \<le> get_num_free_blocks (coord_pool c1)"
    and c2: "c2 = c1\<lparr> single_type_managers := map (\<lambda>m. snd (dd_read rid m)) (single_type_managers c1) \<rparr>"
  shows "\<exists>c3 c4 bs c5.
    (if caching then bindE (touch gs (coord_pool c2)) (\<lambda>p. Inr (c2\<lparr> coord_pool := p \<rparr>))
     else bindE (raise_if (list_ex (\<lambda>g. g \<noteq> []) gs) e) (\<lambda>_. Inr c2)) = Inr c3
    \<and> (if obj \<noteq> EmptyBlocks then c_save_new_computed_blocks rid gs c3 else Inr c3) = Inr c4
    \<and> c_allocate_new_blocks ui rid tok enc c4 = Inr (bs, c5)
    \<and> coord_ok (\<lambda>_. 0) c5 \<and> coord_like c1 c5"
proof -
  let ?ms = "single_type_managers c1"
  have kept: "list_all2 (kept rid) ?ms (single_type_managers c2)"
    unfolding c2 by (simp add: list_all2_conv_all_nth kept_read)
  note k2 = c_count_keeps [OF assms(1) c_count_value [OF assms(3), of rid tok enc], folded c2]
  have len: "length gs = length (single_type_managers c2)" and pool: "coord_pool c2 = coord_pool c1"
    using assms(3) by (simp_all add: c2)
  have z2: "\<forall>(g, m) \<in> set (zip gs (single_type_managers c2)). (is_cross (mgr_spec m) \<longrightarrow> g = [])
      \<and> (obj \<noteq> EmptyBlocks \<longrightarrow> save_ok rid g m)"
    by (rule zip_kept [OF kept assms(6)]) (simp add: kept_facts)
  have le2: "(\<Sum>x \<leftarrow> zip gs (single_type_managers c2). taken_blocks rid tok enc (coord_pool c2) x)
      \<le> get_num_free_blocks (coord_pool c2)"
    using assms(7) taken_kept [OF kept, of tok enc "coord_pool c1" gs] by (simp add: pool)
  note h2 = assms(2) [folded pool]
  obtain c3 c4 bs c5 where s: "(if caching then bindE (touch gs (coord_pool c2)) (\<lambda>p. Inr (c2\<lparr> coord_pool := p \<rparr>))
     else bindE (raise_if (list_ex (\<lambda>g. g \<noteq> []) gs) e) (\<lambda>_. Inr c2)) = Inr c3"
    "(if obj \<noteq> EmptyBlocks then c_save_new_computed_blocks rid gs c3 else Inr c3) = Inr c4"
    "c_allocate_new_blocks ui rid tok enc c4 = Inr (bs, c5)"
    using take_over_returns [OF k2(1) h2 len assms(4,5) z2 le2] by blast
  note k4 = take_over_keeps [OF k2(1) h2 len assms(4) s(1,2)]
  note k5 = c_alloc_keeps [OF k4(1) s(3)]
  show ?thesis using s k5(1) coord_like_trans [OF k2(2) coord_like_trans [OF k4(2) k5(2)]] by blast
qed

section \<open>Properties\<close>

text \<open>C29.  An allocation finds the blocks it was promised.  In every state that the scheduler can reach,
  for a call with new tokens that brings computed blocks only to a request without blocks and, when the
  call caches, has a hash for every full block and no cross-attention group (the conditions of
  \<open>slots_ready\<close>): \<open>allocate_slots\<close> returns \<open>None\<close> when the blocks counted by its check exceed the
  free blocks; it returns blocks when what it takes from the free list does not exceed it, or else
  caching with KV events enabled finds no hash of a parent block.  The count is never above what is taken,
  and the two agree, so that these are all the cases, unless a manager holds more blocks than the request
  needs; then the count can be too low.\<close>

theorem allocation_as_counted:
  assumes "kv_init k0" and "kv_step\<^sup>*\<^sup>* k0 k" and "slots_pre rq new k" and "slots_ready rq n nc new la delay enc k"
    and "tok = min (num_computed_tokens rq + nc + n + la) (km_max_model_len k)"
  shows "\<exists>c1 zs counted taken free.
      c_remove_skipped_blocks (request_id rq) (num_computed_tokens rq) (coordinator k) = Inr c1
    \<and> zs = zip (computed_lists new k) (single_type_managers c1) \<and> free = get_num_free_blocks (coord_pool c1)
    \<and> counted = (\<Sum>x \<leftarrow> zs. counted_blocks (request_id rq) tok enc (coord_pool c1) x)
    \<and> taken = (\<Sum>x \<leftarrow> zs. taken_blocks (request_id rq) tok enc (coord_pool c1) x)
    \<and> (counted > free \<longrightarrow> (\<exists>k'. allocate_slots ui rq n nc new la delay enc k = Inr (None, k')))
    \<and> (taken \<le> free \<longrightarrow> (\<exists>bs k'. allocate_slots ui rq n nc new la delay enc k = Inr (Some bs, k'))
         \<or> km_caching k \<and> \<not> delay \<and> (\<exists>e. allocate_slots ui rq n nc new la delay enc k = Inl e
              \<and> parent_missing (enable_kv_cache_events (km_pool k)) e))
    \<and> counted \<le> taken
    \<and> ((\<forall>(g, m) \<in> set zs. int (length g) + num_held (request_id rq) m \<le> required_blocks tok enc m) \<longrightarrow> counted = taken)"
proof -
  let ?rid = "request_id rq" and ?c = "coordinator k" and ?gs = "computed_lists new k"
  note tok = assms(5)
  let ?obj = "case new of Some b \<Rightarrow> b | None \<Rightarrow> EmptyBlocks"
  let ?cache = "min (num_computed_tokens rq + nc + n) (num_tokens rq)"
  have kv: "kv_ok k" by (rule kv.reachable_good [OF assms(1,2)])
  have ok: "coord_ok (\<lambda>_. 0) ?c" using kv by (simp add: kv_ok_def)
  have pre: "length ?gs = length (single_type_managers ?c)" "hits_ok (coord_pool ?c) ?gs"
    "(\<forall>g \<in> set ?gs. g = []) \<or> (\<forall>m \<in> set (single_type_managers ?c). get_num_skipped_tokens (mgr_spec m) (num_computed_tokens rq) \<le> 0)"
    "\<forall>m \<in> set (single_type_managers ?c). skip_pre ?rid (num_computed_tokens rq) (coord_pool ?c) m"
    using assms(3) kv by (simp_all add: slots_pre_def Let_def kv_ok_def)
  have rdy: "n \<noteq> 0" "\<forall>m \<in> set (single_type_managers ?c). skip_ready ?rid (num_computed_tokens rq) (coord_pool ?c) m"
    "\<not> km_caching k \<longrightarrow> (\<forall>g \<in> set ?gs. g = [])"
    "\<forall>(g, m) \<in> set (zip ?gs (single_type_managers ?c)). (is_cross (mgr_spec m) \<longrightarrow> g = [])
       \<and> (?obj \<noteq> EmptyBlocks \<longrightarrow> save_ok ?rid g m)"
    "km_caching k \<and> \<not> delay \<longrightarrow> (\<forall>m \<in> set (single_type_managers ?c).
       cache_ready rq ?cache (enable_kv_cache_events (coord_pool ?c)) (coord_pool ?c) m)"
    using assms(4) by (simp_all add: slots_ready_def Let_def)
  obtain ys c1 where r1: "run_managers (\<lambda>i p m. bindE (remove_skipped_blocks ?rid (num_computed_tokens rq) p m)
      (\<lambda>(p1, m1). Inr ((), p1, m1))) ?c = Inr (ys, c1)"
    using skip_call.run_managers_returns [OF ok rdy(2)] by blast
  then have c1: "c_remove_skipped_blocks ?rid (num_computed_tokens rq) ?c = Inr c1" by (simp add: c_remove_skipped_blocks_def)
  note k1 = c_skip_keeps [OF ok c1 pre(4)] and hits = skipped_hits [OF ok c1 pre(4,3,2)]
  have kept1: "list_all2 (kept ?rid) (single_type_managers ?c) (single_type_managers c1)"
    using r1 skip_managers_kept by (auto simp: run_managers_def)
  have len: "length ?gs = length (single_type_managers c1)" using pre(1) coord_likeD(1) [OF k1(2)] by simp
  have z: "\<forall>(g, m) \<in> set (zip ?gs (single_type_managers c1)). (is_cross (mgr_spec m) \<longrightarrow> g = [])
       \<and> (?obj \<noteq> EmptyBlocks \<longrightarrow> save_ok ?rid g m)"
    by (rule zip_kept [OF kept1 rdy(4)]) (simp add: kept_facts)
  let ?zs = "zip ?gs (single_type_managers c1)" and ?free = "get_num_free_blocks (coord_pool c1)"
  let ?S = "\<Sum>x \<leftarrow> ?zs. counted_blocks ?rid tok enc (coord_pool c1) x"
  let ?T = "\<Sum>x \<leftarrow> ?zs. taken_blocks ?rid tok enc (coord_pool c1) x"
  let ?call = "allocate_slots ui rq n nc new la delay enc k"
  note cnt = c_count_value [OF len, of ?rid tok enc]
  have leq: "?S \<le> ?T" by (rule sum_counted_le) (use z in auto)
  have eq: "?S = ?T" if "\<forall>(g, m) \<in> set ?zs. int (length g) + num_held ?rid m \<le> required_blocks tok enc m"
    by (rule sum_taken_counted [symmetric]) (use z that in auto)
  have refused: "\<exists>k'. ?call = Inr (None, k')" if "?S > ?free"
    using that c1 cnt rdy(1) by (simp add: allocate_slots_def Let_def tok)
  have granted: "(\<exists>bs k'. ?call = Inr (Some bs, k'))
      \<or> km_caching k \<and> \<not> delay \<and> (\<exists>e. ?call = Inl e \<and> parent_missing (enable_kv_cache_events (coord_pool ?c)) e)"
    if le: "?T \<le> ?free"
  proof -
    let ?e = "AssertionError ''Computed blocks should be empty when prefix caching is disabled''"
    let ?c2 = "c1\<lparr> single_type_managers := map (\<lambda>m. snd (dd_read ?rid m)) (single_type_managers c1) \<rparr>"
    have False': "\<not> ?S > ?free" using leq le by simp
    obtain c3 c4 bs c5 where s:
      "(if km_caching k then bindE (touch ?gs (coord_pool ?c2)) (\<lambda>p. Inr (?c2\<lparr> coord_pool := p \<rparr>))
        else bindE (raise_if (list_ex (\<lambda>g. g \<noteq> []) ?gs) ?e) (\<lambda>_. Inr ?c2)) = Inr c3"
      "(if ?obj \<noteq> EmptyBlocks then c_save_new_computed_blocks ?rid ?gs c3 else Inr c3) = Inr c4"
      "c_allocate_new_blocks ui ?rid tok enc c4 = Inr (bs, c5)" "coord_ok (\<lambda>_. 0) c5" "coord_like c1 c5"
      using stages_return [OF k1(1) hits len refl rdy(3) z le refl, of ?e ui] by (elim exE conjE)
    let ?r = "if \<not> km_caching k \<or> delay then Inr c5 else c_cache_blocks ui rq ?cache c5"
    have "(\<exists>c6. ?r = Inr c6) \<or> km_caching k \<and> \<not> delay \<and> (\<exists>e. ?r = Inl e \<and> parent_missing (enable_kv_cache_events (coord_pool ?c)) e)"
      using c_cache_returns [OF s(4) coord_like_trans [OF k1(2) s(5)], of rq ?cache "enable_kv_cache_events (coord_pool ?c)" ui] rdy(5)
      by auto
    moreover have "?call = bindE ?r (\<lambda>c6. Inr (Some (create_kv_cache_blocks bs), k\<lparr> coordinator := c6 \<rparr>))"
      unfolding allocate_slots_def Let_def using rdy(1) c1 cnt False' s(1-3) by (simp add: tok split: if_splits)
    ultimately show ?thesis by (elim disjE exE conjE) simp_all
  qed
  show ?thesis
    by (rule exI [of _ c1], rule exI [of _ ?zs], rule exI [of _ ?S], rule exI [of _ ?T], rule exI [of _ ?free])
      (intro conjI impI c1 refl refused granted leq eq)
qed

lemma free_managers_drop:
  "for_managers (\<lambda>i p m. bindE (mgr_free rid p m) (\<lambda>(p1, m1). Inr ((), p1, m1))) i p ms = Inr (ys, p', ms') \<Longrightarrow>
     list_all2 (\<lambda>m m'. req_to_blocks m' = fmdrop rid (req_to_blocks m)) ms ms'"
  by (induction ms arbitrary: i p ys ms') (auto simp: mgr_free_def)

text \<open>C30.  Freeing a request never fails: in every state that the scheduler can reach, for a request
  that holds blocks or not, \<open>free\<close> returns, the entry of the request is gone from every manager and the
  entries of the other requests are as before.\<close>

theorem free_always_returns:
  assumes "kv_init k0" and "kv_step\<^sup>*\<^sup>* k0 k"
  shows "\<exists>k'. km_free rq k = Inr k' \<and> kv_step k k'
    \<and> list_all2 (\<lambda>m m'. req_to_blocks m' = fmdrop (request_id rq) (req_to_blocks m))
        (single_type_managers (coordinator k)) (single_type_managers (coordinator k'))"
proof -
  have ok: "coord_ok (\<lambda>_. 0) (coordinator k)" using kv.reachable_good [OF assms] by (simp add: kv_ok_def)
  obtain ys c where c: "run_managers (\<lambda>i p m. bindE (mgr_free (request_id rq) p m) (\<lambda>(p1, m1). Inr ((), p1, m1))) (coordinator k)
      = Inr (ys, c)"
    using release_call.run_managers_returns [OF ok, of "request_id rq"] by auto
  then have f: "km_free rq k = Inr (k\<lparr> coordinator := c \<rparr>)" by (simp add: km_free_def c_free_def)
  have "list_all2 (\<lambda>m m'. req_to_blocks m' = fmdrop (request_id rq) (req_to_blocks m))
      (single_type_managers (coordinator k)) (single_type_managers c)"
    using c free_managers_drop by (auto simp: run_managers_def)
  then show ?thesis using f kv_step.free [OF f] by auto
qed

subsection \<open>The check with a negative count\<close>

definition cross_config :: KVCacheConfig where
  "cross_config = \<lparr> num_blocks = 4, kv_cache_tensors = [],
      kv_cache_groups =
        [\<lparr> layer_names = [''l''], kv_cache_spec = sample_spec \<rparr>,
         \<lparr> layer_names = [''x''],
            kv_cache_spec = CrossAttentionSpec 2 \<lparr> num_kv_heads = 1, head_size = 1, dtype = ''float16'' \<rparr> \<rparr>] \<rparr>"

lemmas slots_eval = allocate_slots_def blocks_of_def c_remove_skipped_blocks_def run_managers_def
  remove_skipped_blocks_def c_get_num_blocks_to_allocate_def group_item_def get_num_blocks_to_allocate_def cdiv_def
  dd_read_def dd_get_def c_allocate_new_blocks_def allocate_new_blocks_def create_kv_cache_blocks_def

text \<open>With cross-attention the check of \<open>allocate_slots\<close> does not protect the allocation.  A
  decoding step counts no encoder tokens, so the blocks that the cross-attention manager already holds make
  its count negative and hide the missing blocks of the other managers: in a state that the scheduler
  reaches with one allocation, the next one passes the check with no free block left and raises
  \<open>ValueError\<close>.\<close>

lemma cross_attention_overcommit:
  "\<exists>k0 k rq. kv_init k0 \<and> kv_step k0 k \<and> slots_pre rq None k \<and> get_num_free_blocks (km_pool k) = 0
     \<and> allocate_slots True rq 1 0 None 0 False 0 k = Inl (ValueError ''Cannot get free blocks from the pool'')"
proof -
  obtain p where p: "init_pool 4 False False = Inr p" "pool_repr p (map Blk [1..<4])"
    using init_pool_inv [of 4 False False] by auto
  have xs: "map Blk [1..<4] = [Blk 1, Blk 2, Blk 3]" by (simp add: upt_rec)
  obtain p1 where p1: "get_new_blocks True 1 p = Inr ([Blk 1], p1)" "pool_repr p1 [Blk 2, Blk 3]"
    using get_new_blocks_inv [OF p(2), of 1 True] unfolding xs by auto
  obtain p2 where p2: "get_new_blocks True 2 p1 = Inr ([Blk 2, Blk 3], p2)" "pool_repr p2 []"
    using get_new_blocks_inv [OF p1(2), of 2 True] by auto
  have p3: "get_new_blocks True 1 p2 = Inl (ValueError ''Cannot get free blocks from the pool'')"
    using get_new_blocks_short [OF p2(2), of 1 True] by simp
  have free: "get_num_free_blocks p = 3" "get_num_free_blocks p2 = 0"
    using free_of_repr [OF p(2)] free_of_repr [OF p2(2)] by simp_all
  let ?rq = "sample_request [5, 6] []" and ?rq1 = "(sample_request [5, 6] [7])\<lparr> num_computed_tokens := 2 \<rparr>"
  obtain k0 where k0: "init_kv_manager cross_config 100 False False False False 1 1 = Inr k0"
    "single_type_managers (coordinator k0) =
       [\<lparr> mgr_spec = sample_spec, mgr_block_size = 2, req_to_blocks = fmempty, num_cached_block = fmempty, kv_cache_group_id = 0 \<rparr>,
        \<lparr> mgr_spec = CrossAttentionSpec 2 \<lparr> num_kv_heads = 1, head_size = 1, dtype = ''float16'' \<rparr>, mgr_block_size = 2,
           req_to_blocks = fmempty, num_cached_block = fmempty, kv_cache_group_id = 1 \<rparr>]"
    "km_pool k0 = p" "km_max_model_len k0 = 100" "\<not> km_caching k0" "num_kv_cache_groups k0 = 2"
    using p(1) by (simp add: init_kv_manager_def cross_config_def sample_spec_def get_kv_cache_coordinator_def
        init_coordinator_def new_manager_def)
  have two: "replicate 2 [] = [[], [] :: ref list]" by (simp add: numeral_2_eq_2)
  have "\<exists>r k. allocate_slots True ?rq 2 0 None 0 False 4 k0 = Inr (r, k) \<and> get_num_free_blocks (km_pool k) = 0
      \<and> slots_pre ?rq1 None k \<and> allocate_slots True ?rq1 1 0 None 0 False 0 k = Inl (ValueError ''Cannot get free blocks from the pool'')"
    using k0 p1(1) p2(1) p3 free
    by (simp add: slots_eval two Let_def sample_spec_def sample_request_def slots_pre_def hits_ok_def skip_pre_def)
  then obtain r k where k: "allocate_slots True ?rq 2 0 None 0 False 4 k0 = Inr (r, k)" "get_num_free_blocks (km_pool k) = 0"
    "slots_pre ?rq1 None k" "allocate_slots True ?rq1 1 0 None 0 False 0 k = Inl (ValueError ''Cannot get free blocks from the pool'')"
    by blast
  have "slots_pre ?rq None k0"
    using k0 by (simp add: slots_pre_def blocks_of_def hits_ok_def skip_pre_def sample_spec_def sample_request_def two)
  then have "kv_step k0 k" using k(1) by (rule kv_step.slots)
  moreover have "kv_init k0" using k0(1) unfolding kv_init_def by blast
  ultimately show ?thesis using k(2-4) by blast
qed


subsection \<open>Witnesses\<close>

text \<open>Without KV events, two tokens of a request with one full block: the block is allocated and cached.\<close>

theorem allocation_as_counted_witness:
  "\<exists>k0 bs k. kv_init k0 \<and> km_caching k0
     \<and> allocate_slots True ((sample_request [5, 6] [])\<lparr> block_hashes := sample_hashes \<rparr>) 2 0 None 0 False 0 k0 = Inr (Some bs, k)"
proof -
  let ?rq = "(sample_request [5, 6] [])\<lparr> block_hashes := sample_hashes \<rparr>"
  obtain p where p: "init_pool 4 True False = Inr p" "pool_repr p (map Blk [1..<4])" "enable_caching p"
    using init_pool_inv [of 4 True False] by auto
  have ev: "\<not> enable_kv_cache_events p"
    using p(1) by (auto simp: init_pool_def Let_def split: if_splits)
  obtain k0 where k0: "init_kv_manager sample_config 100 True False False False 1 1 = Inr k0"
    "single_type_managers (coordinator k0) =
       [\<lparr> mgr_spec = sample_spec, mgr_block_size = 2, req_to_blocks = fmempty, num_cached_block = fmempty, kv_cache_group_id = 0 \<rparr>]"
    "km_pool k0 = p" "km_max_model_len k0 = 100" "km_caching k0" "num_kv_cache_groups k0 = 1"
    using p(1) by (simp add: init_kv_manager_def sample_config_def sample_spec_def get_kv_cache_coordinator_def
        init_coordinator_def new_manager_def)
  have init: "kv_init k0" using k0(1) unfolding kv_init_def by blast
  have pre: "slots_pre ?rq None k0"
    using k0 by (simp add: slots_pre_def blocks_of_def hits_ok_def skip_pre_def sample_spec_def sample_request_def)
  have ready: "slots_ready ?rq 2 0 None 0 False 0 k0"
    using k0 p ev by (simp add: slots_ready_def blocks_of_def sample_spec_def skip_ready_def skip_pre_def
        num_held_def required_blocks_def cdiv_def sample_request_def dd_get_def cache_ready_def num_tokens_def)
  have skip: "c_remove_skipped_blocks (request_id ?rq) (num_computed_tokens ?rq) (coordinator k0) = Inr (coordinator k0)"
    using k0 by (simp add: c_remove_skipped_blocks_def run_managers_def remove_skipped_blocks_def sample_spec_def)
  have free: "get_num_free_blocks p = 3" using free_of_repr [OF p(2)] by simp
  show ?thesis
    using allocation_as_counted [OF init rtranclp.rtrancl_refl pre ready refl, of True] init k0(2-6) skip free ev
    by (auto simp: parent_missing_def blocks_of_def taken_blocks_def required_blocks_def num_held_def cdiv_def
        sample_spec_def sample_request_def evictable_def dd_get_def)
qed

theorem free_always_returns_witness:
  "kv_init sample_kv \<and> (\<exists>k'. km_free (sample_request [5, 6, 7] []) sample_kv = Inr k' \<and> kv_step sample_kv k')"
  using free_always_returns [OF sample_kv_init rtranclp.rtrancl_refl, of "sample_request [5, 6, 7] []"] sample_kv_init
  by blast

end
