(* ===== verification/KV_Hits.thy ===== *)
theory KV_Hits
  imports KV_Progress
begin

text \<open>
  The search of the prefix cache: what the searches of the four kinds of managers return, that the
  search for full attention finds the longest cached prefix, and that the blocks found for a request
  satisfy what \<open>allocate_slots\<close> expects of computed blocks.
\<close>

section \<open>Hits of one group\<close>

text \<open>Position by position, the list of a group holds the null block or a block cached for the hash of
  that position and the group.\<close>

definition hit_list :: "block_pool \<Rightarrow> bytes list \<Rightarrow> nat \<Rightarrow> ref list \<Rightarrow> bool" where
  "hit_list p hashes g l \<longleftrightarrow>
     (\<forall>j < length l. l ! j = Blk 0 \<or> j < length hashes \<and> cached_for p (hashes ! j) g (l ! j))"

lemma hit_list_simps [simp]: "hit_list p hashes g []" "hit_list p hashes g (replicate n (Blk 0))"
  by (simp_all add: hit_list_def)

lemma hit_list_take: "hit_list p hashes g l \<Longrightarrow> hit_list p hashes g (take n l)"
  by (simp add: hit_list_def)

lemma hit_list_butlast: "hit_list p hashes g l \<Longrightarrow> hit_list p hashes g (butlast l)"
  by (simp add: butlast_conv_take hit_list_take)

lemma hit_list_snoc:
  "hit_list p hashes g l \<Longrightarrow> length l < length hashes \<Longrightarrow> cached_for p (hashes ! length l) g b \<Longrightarrow> hit_list p hashes g (l @ [b])"
  by (auto simp: hit_list_def nth_append less_Suc_eq)

lemma hit_list_update:
  "hit_list p hashes g l \<Longrightarrow> i < length hashes \<Longrightarrow> cached_for p (hashes ! i) g b \<Longrightarrow> hit_list p hashes g (l[i := b])"
  unfolding hit_list_def
proof (intro allI impI)
  fix j
  assume "\<forall>j < length l. l ! j = Blk 0 \<or> j < length hashes \<and> cached_for p (hashes ! j) g (l ! j)"
    "i < length hashes" "cached_for p (hashes ! i) g b" "j < length (l[i := b])"
  then show "l[i := b] ! j = Blk 0 \<or> j < length hashes \<and> cached_for p (hashes ! j) g (l[i := b] ! j)"
    by (cases "j = i") auto
qed

text \<open>The answer of a lookup.\<close>

lemma lookup_hit_spec:
  assumes "pool_inv p xs P" and "\<forall>g \<in> set gs. g < 2 ^ 32"
  shows "\<exists>r. lookup_hit h gs p = Inr r
    \<and> (case r of Some bs \<Rightarrow> list_all2 (cached_for p h) gs bs | None \<Rightarrow> gs = [] \<or> (\<exists>g \<in> set gs. \<forall>b. \<not> cached_for p h g b))"
proof -
  obtain r where r: "get_cached_block h gs p = Inr r"
    "case r of Some bs \<Rightarrow> list_all2 (cached_for p h) gs bs | None \<Rightarrow> \<exists>g \<in> set gs. \<forall>b. \<not> cached_for p h g b"
    using get_cached_block_spec [OF assms(1,2)] by blast
  then show ?thesis by (cases "r = Some []") (auto simp: lookup_hit_def split: option.splits)
qed

lemma distinct_filter_nth:
  "(\<And>j k. j < length l \<Longrightarrow> k < length l \<Longrightarrow> P (l ! j) \<Longrightarrow> l ! j = l ! k \<Longrightarrow> j = k) \<Longrightarrow> distinct (filter P l)"
proof (induction l)
  case (Cons a l)
  have "distinct (filter P l)"
  proof (rule Cons.IH)
    fix j k
    assume "j < length l" "k < length l" "P (l ! j)" "l ! j = l ! k"
    then show "j = k" using Cons.prems [of "Suc j" "Suc k"] by simp
  qed
  moreover have "a \<notin> set l" if "P a"
  proof
    assume "a \<in> set l"
    then obtain k where "k < length l" "l ! k = a" by (auto simp: in_set_conv_nth)
    then show False using Cons.prems [of 0 "Suc k"] that by simp
  qed
  ultimately show ?case by simp
qed simp

section \<open>The contract of a search\<close>

text \<open>Hit lists are usable as computed blocks: of every list the blocks are blocks of the pool, they
  have a hash, and only the null block occurs twice.\<close>

lemma hit_lists_ok:
  assumes "pool_repr p xs" and "\<forall>g \<in> set gs. g < 2 ^ 32" and "distinct hashes" and h: "list_all2 (hit_list p hashes) gs found"
  shows "hits_ok p found"
proof -
  have "set l \<subseteq> pool_blocks p \<and> distinct (filter (\<lambda>b. b \<noteq> Blk 0) l) \<and> (\<forall>b \<in> set l. b \<noteq> Blk 0 \<longrightarrow> block_hash (blk p b) \<noteq> None)"
    if "l \<in> set found" for l
  proof -
    from that obtain i where l: "i < length found" "l = found ! i" by (auto simp: in_set_conv_nth)
    have i: "i < length gs" "hit_list p hashes (gs ! i) l"
      using list_all2_lengthD [OF h] list_all2_nthD2 [OF h l(1)] l by simp_all
    have e: "b = Blk 0 \<or> b \<in> pool_blocks p \<and> block_hash (blk p b) \<noteq> None" if "b \<in> set l" for b
      using that i(2) by (auto simp: hit_list_def cached_for_def in_set_conv_nth)
    have "distinct (filter (\<lambda>b. b \<noteq> Blk 0) l)"
    proof (rule distinct_filter_nth)
      fix j k
      assume jk: "j < length l" "k < length l" "l ! j \<noteq> Blk 0" "l ! j = l ! k"
      then have c: "j < length hashes" "k < length hashes" "cached_for p (hashes ! j) (gs ! i) (l ! j)" "cached_for p (hashes ! k) (gs ! i) (l ! j)"
        using i(2) [unfolded hit_list_def, rule_format, OF jk(1)] i(2) [unfolded hit_list_def, rule_format, OF jk(2)] by auto
      have "gs ! i < 2 ^ 32" using assms(2) i(1) by simp
      then have "hashes ! j = hashes ! k" using c(3,4) hash_key_inj by (auto simp: cached_for_def)
      then show "j = k" using assms(3) c(1,2) by (simp add: nth_eq_iff_index_eq)
    qed
    then show ?thesis using e null_in_pool [OF assms(1)] by blast
  qed
  then show ?thesis by (simp add: hits_ok_def)
qed

lemma hits_mapI: "list_all2 P gs computed \<Longrightarrow> (\<And>g c. P g c \<Longrightarrow> R g (f c)) \<Longrightarrow> list_all2 R gs (map f computed)"
  by (simp add: list_all2_map2 list_all2_mono)

text \<open>What the coordinator relies on in the search of a manager: it returns hits, and they remain hits
  when the coordinator cuts them to a common length.\<close>

locale hit_search =
  fixes search :: "bytes list \<Rightarrow> int \<Rightarrow> nat list \<Rightarrow> block_pool \<Rightarrow> kv_spec \<Rightarrow> bool \<Rightarrow> int \<Rightarrow> int \<Rightarrow> py_exn + ref list list"
  assumes search_hits: "pool_repr p xs \<Longrightarrow> \<forall>g \<in> set gs. g < 2 ^ 32 \<Longrightarrow>
    search hashes n gs p spec eagle dcp pcp = Inr found \<Longrightarrow> list_all2 (hit_list p hashes) gs found"
begin

lemma search_hits_take:
  "pool_repr p xs \<Longrightarrow> \<forall>g \<in> set gs. g < 2 ^ 32 \<Longrightarrow> search hashes n gs p spec eagle dcp pcp = Inr found
     \<Longrightarrow> list_all2 (hit_list p hashes) gs (map (take k) found)"
  using search_hits by (rule hits_mapI) (auto intro: hit_list_take)

end


section \<open>The searches of the managers\<close>

lemma hits_map2:
  "list_all2 P gs computed \<Longrightarrow> list_all2 Q gs cached \<Longrightarrow> (\<And>g c b. g \<in> set gs \<Longrightarrow> P g c \<Longrightarrow> Q g b \<Longrightarrow> R g (f c b)) \<Longrightarrow>
     list_all2 R gs (map2 f computed cached)"
proof (induction gs arbitrary: computed cached)
  case (Cons g gs)
  then show ?case by (cases computed; cases cached) auto
qed auto

lemma drop_last_hits:
  assumes "list_all2 (hit_list p hashes) gs computed" and "drop_last_hit eagle computed = Inr found"
  shows "list_all2 (hit_list p hashes) gs found"
proof -
  have "list_all2 (hit_list p hashes) gs (map butlast computed)" by (rule hits_mapI [OF assms(1)]) (rule hit_list_butlast)
  then show ?thesis using assms by (auto simp: drop_last_hit_def split: if_splits list.splits)
qed

lemma extend_hits_ok:
  assumes "list_all2 (\<lambda>g c. hit_list p hashes g c \<and> length c = n) gs computed" and "list_all2 (cached_for p (hashes ! n)) gs cached"
    and "n < length hashes"
  shows "list_all2 (\<lambda>g c. hit_list p hashes g c \<and> length c = Suc n) gs (extend_hits computed cached)"
  unfolding extend_hits_def
  by (rule hits_map2 [OF assms(1,2)]) (use assms(3) hit_list_snoc in auto)

text \<open>The loops that extend the hits from the front: full attention, and chunked attention from the
  start of its chunk.\<close>

text \<open>Full attention needs a cached block at every position.\<close>

definition hit_prefix :: "block_pool \<Rightarrow> bytes list \<Rightarrow> nat \<Rightarrow> nat \<Rightarrow> ref list \<Rightarrow> bool" where
  "hit_prefix p hashes n g l \<longleftrightarrow> length l = n \<and> n \<le> length hashes \<and> (\<forall>j < n. cached_for p (hashes ! j) g (l ! j))"

lemma hit_prefix_list: "hit_prefix p hashes n g l \<Longrightarrow> hit_list p hashes g l"
  by (auto simp: hit_prefix_def hit_list_def)

lemma hit_prefix_butlast: "hit_prefix p hashes n g l \<Longrightarrow> hit_prefix p hashes (n - 1) g (butlast l)"
  by (auto simp: hit_prefix_def nth_butlast)

lemma hit_prefix_snoc:
  "hit_prefix p hashes n g l \<Longrightarrow> n < length hashes \<Longrightarrow> cached_for p (hashes ! n) g b \<Longrightarrow> hit_prefix p hashes (Suc n) g (l @ [b])"
  by (auto simp: hit_prefix_def nth_append less_Suc_eq)

lemma full_hit_loop_longest:
  assumes "pool_inv p xs P" and "\<forall>g \<in> set gs. g < 2 ^ 32" and "gs \<noteq> []"
  shows "list_all2 (hit_prefix p hashes n) gs computed \<Longrightarrow> hs = drop n (take k hashes) \<Longrightarrow>
    \<exists>found. full_hit_loop hs gs p computed = Inr found
      \<and> list_all2 (hit_prefix p hashes (n + length (takeWhile (\<lambda>h. \<forall>g \<in> set gs. \<exists>b. cached_for p h g b) hs))) gs found"
proof (induction hs arbitrary: n computed)
  case (Cons h hs)
  have n: "n < length (take k hashes)" using Cons.prems(2) by (metis drop_eq_Nil list.distinct(1) not_le)
  have "h # hs = hashes ! n # drop (Suc n) (take k hashes)" using Cons.prems(2) Cons_nth_drop_Suc [OF n] n by simp
  then have h: "h = hashes ! n" "hs = drop (Suc n) (take k hashes)" by simp_all
  obtain r where r: "lookup_hit h gs p = Inr r"
    "case r of Some bs \<Rightarrow> list_all2 (cached_for p h) gs bs | None \<Rightarrow> gs = [] \<or> (\<exists>g \<in> set gs. \<forall>b. \<not> cached_for p h g b)"
    using lookup_hit_spec [OF assms(1,2)] by blast
  show ?case
  proof (cases r)
    case None
    then show ?thesis using r assms(3) Cons.prems(1) by auto
  next
    case (Some bs)
    then have c: "list_all2 (cached_for p (hashes ! n)) gs bs" using r h by simp
    then have all: "\<forall>g \<in> set gs. \<exists>b. cached_for p h g b" unfolding h(1) by (metis in_set_conv_nth list_all2_nthD)
    have "list_all2 (hit_prefix p hashes (Suc n)) gs (extend_hits computed bs)"
      unfolding extend_hits_def by (rule hits_map2 [OF Cons.prems(1) c]) (use n hit_prefix_snoc in auto)
    from Cons.IH [OF this h(2)] show ?thesis using r(1) Some all by auto
  qed
qed auto

lemma chunk_loop_hits:
  assumes "pool_inv p xs P" and "\<forall>g \<in> set gs. g < 2 ^ 32"
  shows "list_all2 (\<lambda>g c. hit_list p hashes g c \<and> length c = i) gs computed \<Longrightarrow>
    chunk_loop hashes gs p i n computed = Inr found \<Longrightarrow> list_all2 (hit_list p hashes) gs found"
proof (induction n arbitrary: i computed)
  case 0
  then show ?case by (auto elim: list_all2_mono)
next
  case (Suc n)
  have i: "i < length hashes" using Suc.prems(2) by (auto split: if_splits)
  obtain r where r: "lookup_hit (hashes ! i) gs p = Inr r"
    "case r of Some bs \<Rightarrow> list_all2 (cached_for p (hashes ! i)) gs bs | None \<Rightarrow> gs = [] \<or> (\<exists>g \<in> set gs. \<forall>b. \<not> cached_for p (hashes ! i) g b)"
    using lookup_hit_spec [OF assms] by blast
  show ?case
  proof (cases r)
    case None
    then show ?thesis using r Suc.prems i by (auto elim: list_all2_mono)
  next
    case (Some bs)
    then have c: "list_all2 (cached_for p (hashes ! i)) gs bs" using r by simp
    have "chunk_loop hashes gs p (Suc i) n (extend_hits computed bs) = Inr found" using Suc.prems(2) r(1) Some i by simp
    then show ?thesis by (rule Suc.IH [OF extend_hits_ok [OF Suc.prems(1) c i]])
  qed
qed

text \<open>The loops that search from the back.\<close>

lemma window_loop_hits:
  assumes "pool_inv p xs P" and "\<forall>g \<in> set gs. g < 2 ^ 32"
  shows "list_all2 (hit_list p hashes) gs computed \<Longrightarrow>
    window_loop hashes gs p needed n computed contiguous = Inr (found, k, match) \<Longrightarrow> list_all2 (hit_list p hashes) gs found"
proof (induction n arbitrary: computed contiguous)
  case (Suc i)
  have i: "i < length hashes" using Suc.prems(2) by (auto split: if_splits)
  obtain r where r: "lookup_hit (hashes ! i) gs p = Inr r"
    "case r of Some bs \<Rightarrow> list_all2 (cached_for p (hashes ! i)) gs bs | None \<Rightarrow> gs = [] \<or> (\<exists>g \<in> set gs. \<forall>b. \<not> cached_for p (hashes ! i) g b)"
    using lookup_hit_spec [OF assms] by blast
  show ?case
  proof (cases r)
    case None
    then show ?thesis using r Suc.prems i Suc.IH by auto
  next
    case (Some bs)
    then have c: "list_all2 (cached_for p (hashes ! i)) gs bs" using r by simp
    have u: "list_all2 (hit_list p hashes) gs (map2 (\<lambda>c b. c[i := b]) computed bs)"
      by (rule hits_map2 [OF Suc.prems(1) c]) (rule hit_list_update [OF _ i])
    have t: "list_all2 (hit_list p hashes) gs (map (take (i + (contiguous + 1))) (map2 (\<lambda>c b. c[i := b]) computed bs))"
      by (rule hits_mapI [OF u]) (rule hit_list_take)
    show ?thesis
      using Suc.prems(2) r(1) Some i Suc.IH [OF u] t by (auto simp: Let_def simp del: map_map split: if_splits)
  qed
qed auto

lemma mamba_loop_hits:
  assumes "pool_inv p xs P" and "\<forall>g \<in> set gs. g < 2 ^ 32"
  shows "mamba_loop hashes gs p n = Inr found \<Longrightarrow> list_all2 (hit_list p hashes) gs found"
proof (induction n)
  case (Suc i)
  have i: "i < length hashes" using Suc.prems by (auto split: if_splits)
  obtain r where r: "lookup_hit (hashes ! i) gs p = Inr r"
    "case r of Some bs \<Rightarrow> list_all2 (cached_for p (hashes ! i)) gs bs | None \<Rightarrow> gs = [] \<or> (\<exists>g \<in> set gs. \<forall>b. \<not> cached_for p (hashes ! i) g b)"
    using lookup_hit_spec [OF assms] by blast
  have null: "null_block p = Blk 0" by (rule pool_invD(2) [OF assms(1)])
  show ?case
  proof (cases r)
    case None
    then show ?thesis using r Suc.prems i Suc.IH by auto
  next
    case (Some bs)
    then have c: "list_all2 (cached_for p (hashes ! i)) gs bs" using r by simp
    have e: "list_all2 (\<lambda>g l. l = []) gs (replicate (length gs) [])" by (simp add: list_all2_conv_all_nth)
    have "list_all2 (hit_list p hashes) gs (map2 (\<lambda>c b. c @ replicate i (null_block p) @ [b]) (replicate (length gs) []) bs)"
      by (rule hits_map2 [OF e c]) (use i hit_list_snoc [of p hashes _ "replicate i (Blk 0)"] null in simp)
    then show ?thesis using Suc.prems r(1) Some i by auto
  qed
qed (auto simp: list_all2_conv_all_nth)


lemma full_search_longest:
  assumes "pool_inv p xs P" and "\<forall>g \<in> set gs. g < 2 ^ 32" and "gs \<noteq> []"
    and "full_manager_spec spec" and "0 \<le> max_length div bs"
    and bs: "bs = (if dcp * pcp > 1 then block_size spec * (dcp * pcp) else block_size spec)"
    and L: "L = length (takeWhile (\<lambda>h. \<forall>g \<in> set gs. \<exists>b. cached_for p h g b) (take (nat (max_length div bs)) hashes))"
  shows "\<exists>found. find_full_hit hashes max_length gs p spec eagle dcp pcp = Inr found
    \<and> list_all2 (hit_prefix p hashes (if eagle then L - 1 else L)) gs found"
proof -
  have e: "list_all2 (hit_prefix p hashes 0) gs (replicate (length gs) [])"
    by (simp add: list_all2_conv_all_nth hit_prefix_def)
  obtain c where c: "full_hit_loop (take (nat (max_length div bs)) hashes) gs p (replicate (length gs) []) = Inr c"
    "list_all2 (hit_prefix p hashes L) gs c"
    using full_hit_loop_longest [OF assms(1-3) e, of _ "nat (max_length div bs)"] L by auto
  obtain c0 cs where cs: "c = c0 # cs" "length c0 = L" using c(2) assms(3) by (cases gs; cases c) (auto simp: hit_prefix_def)
  have "list_all2 (hit_prefix p hashes (L - 1)) gs (map butlast c)"
    by (rule hits_mapI [OF c(2)]) (rule hit_prefix_butlast)
  then have "\<exists>found. drop_last_hit eagle c = Inr found \<and> list_all2 (hit_prefix p hashes (if eagle then L - 1 else L)) gs found"
    using c(2) cs by (auto simp: drop_last_hit_def)
  then show ?thesis using c(1) assms(4,5) by (simp add: find_full_hit_def bs [symmetric] Let_def)
qed

interpretation full_search: hit_search find_full_hit
proof
  fix p xs and gs :: "nat list" and hashes n spec eagle dcp pcp found
  assume a: "pool_repr p xs" "\<forall>g \<in> set gs. g < 2 ^ 32" and f: "find_full_hit hashes n gs p spec eagle dcp pcp = Inr found"
  define bs where "bs = (if dcp * pcp > 1 then block_size spec * (dcp * pcp) else block_size spec)"
  have spec: "full_manager_spec spec" "0 \<le> n div bs"
    using f by (auto simp: find_full_hit_def Let_def bs_def split: if_splits)
  show "list_all2 (hit_list p hashes) gs found"
  proof (cases "gs = []")
    case True
    have "full_hit_loop hs [] p [] = Inr []" for hs by (cases hs) (simp_all add: lookup_hit_def)
    then show ?thesis using f True by (auto simp: find_full_hit_def drop_last_hit_def Let_def split: if_splits)
  next
    case False
    show ?thesis
      using full_search_longest [OF a False spec bs_def refl, of hashes eagle] f hit_prefix_list by (auto elim: list_all2_mono)
  qed
qed

interpretation window_search: hit_search find_window_hit
proof
  fix p xs and gs :: "nat list" and hashes n spec eagle dcp pcp found
  assume a: "pool_repr p xs" "\<forall>g \<in> set gs. g < 2 ^ 32" and f: "find_window_hit hashes n gs p spec eagle dcp pcp = Inr found"
  obtain needed k computed contiguous match where
    w: "window_loop hashes gs p needed k (replicate (length gs) (replicate k (null_block p))) 0 = Inr (computed, contiguous, match)"
    and d: "drop_last_hit eagle (if match then computed else map (take contiguous) computed) = Inr found"
    using f by (auto simp: find_window_hit_def Let_def split: kv_spec.splits if_splits)
  have "list_all2 (hit_list p hashes) gs (replicate (length gs) (replicate k (null_block p)))"
    using pool_invD(2) [OF a(1)] by (simp add: list_all2_conv_all_nth)
  then have c: "list_all2 (hit_list p hashes) gs computed" by (rule window_loop_hits [OF a _ w])
  have "list_all2 (hit_list p hashes) gs (map (take contiguous) computed)" by (rule hits_mapI [OF c]) (rule hit_list_take)
  then show "list_all2 (hit_list p hashes) gs found" using drop_last_hits [OF _ d] c by (cases match) auto
qed

interpretation chunk_search: hit_search find_chunk_hit
proof
  fix p xs and gs :: "nat list" and hashes n spec eagle dcp pcp found
  assume a: "pool_repr p xs" "\<forall>g \<in> set gs. g < 2 ^ 32" and f: "find_chunk_hit hashes n gs p spec eagle dcp pcp = Inr found"
  have "\<exists>k m. chunk_loop hashes gs p k m (replicate (length gs) (replicate k (null_block p))) = Inr found"
  proof (cases spec)
    case (ChunkedLocalAttentionSpec b h c)
    then show ?thesis
      using f by (intro exI [of _ "nat ((if n > 0 then n div c * c else 0) div b)"] exI [of _ "nat (n div b) - nat ((if n > 0 then n div c * c else 0) div b)"])
        (auto simp: find_chunk_hit_def Let_def split: if_splits)
  qed (use f in \<open>simp_all add: find_chunk_hit_def\<close>)
  then obtain k m where c: "chunk_loop hashes gs p k m (replicate (length gs) (replicate k (null_block p))) = Inr found"
    by blast
  have "list_all2 (\<lambda>g c. hit_list p hashes g c \<and> length c = k) gs (replicate (length gs) (replicate k (null_block p)))"
    using pool_invD(2) [OF a(1)] by (simp add: list_all2_conv_all_nth)
  then show "list_all2 (hit_list p hashes) gs found" by (rule chunk_loop_hits [OF a _ c])
qed

interpretation mamba_search: hit_search find_mamba_hit
proof
  fix p xs and gs :: "nat list" and hashes n spec eagle dcp pcp found
  assume a: "pool_repr p xs" "\<forall>g \<in> set gs. g < 2 ^ 32" and f: "find_mamba_hit hashes n gs p spec eagle dcp pcp = Inr found"
  then obtain k where "mamba_loop hashes gs p k = Inr found"
    by (auto simp: find_mamba_hit_def split: kv_spec.splits if_splits)
  then show "list_all2 (hit_list p hashes) gs found" by (rule mamba_loop_hits [OF a])
qed

interpretation any_search: hit_search "find_longest_cache_hit cls" for cls
proof
  fix p xs and gs :: "nat list" and hashes n spec eagle dcp pcp found
  assume "pool_repr p xs" "\<forall>g \<in> set gs. g < 2 ^ 32" "find_longest_cache_hit cls hashes n gs p spec eagle dcp pcp = Inr found"
  then show "list_all2 (hit_list p hashes) gs found"
    by (cases cls)
      (simp_all add: full_search.search_hits window_search.search_hits chunk_search.search_hits mamba_search.search_hits
        split: if_splits)
qed

section \<open>The search of the coordinator\<close>

text \<open>The group that each list of the result belongs to.\<close>

fun search_groups :: "nat \<Rightarrow> coordinator_kind \<Rightarrow> nat list" where
  "search_groups n NoPrefixCache = [0..<n]"
| "search_groups n (Unitary _ _) = [0]"
| "search_groups n (Hybrid info) =
     (if full_attn_first info then full_attention_group_ids info @ other_group_ids info
      else other_group_ids info @ full_attention_group_ids info)"

lemma search_groups_ok:
  "kind_ok n kind \<Longrightarrow> length (search_groups n kind) = n \<and> set (search_groups n kind) \<subseteq> {..<n}"
  by (cases kind) auto

lemma hybrid_hit_cases:
  assumes "find_hybrid_hit info hashes len c = Inr (found, tok)"
  obtains full l other k where
    "find_full_hit hashes len (full_attention_group_ids info) (coord_pool c) (full_attention_spec info) (coord_eagle c) 1 1 = Inr full"
    "find_longest_cache_hit (other_spec info) hashes l (other_group_ids info) (coord_pool c) (other_spec info) (coord_eagle c) 1 1
       = Inr other"
    "found = (if full_attn_first info then map (take k) full @ other else other @ map (take k) full)"
proof -
  obtain full f0 where full: "find_full_hit hashes len (full_attention_group_ids info) (coord_pool c) (full_attention_spec info)
      (coord_eagle c) 1 1 = Inr full" "group_item full 0 = Inr f0"
    using assms unfolding find_hybrid_hit_def bindE_Inr_iff by blast
  let ?l = "int (length f0) * block_size (full_attention_spec info)"
  obtain other o0 where other: "find_longest_cache_hit (other_spec info) hashes ?l (other_group_ids info) (coord_pool c)
      (other_spec info) (coord_eagle c) 1 1 = Inr other" "group_item other 0 = Inr o0"
    using assms full unfolding find_hybrid_hit_def by (auto simp: Let_def)
  let ?k = "nat (int (length o0) * block_size (other_spec info) div block_size (full_attention_spec info))"
  have "found = (if full_attn_first info then map (take ?k) full @ other else other @ map (take ?k) full)"
    using assms full other unfolding find_hybrid_hit_def by (simp add: Let_def)
  then show thesis by (rule that [OF full(1) other(1)])
qed

lemma coordinator_hits:
  assumes r: "pool_repr (coord_pool c) xs" and kind: "kind_ok n (coord_kind c)" and n: "length (single_type_managers c) = n" "n \<le> 2 ^ 32"
    and f: "c_find_longest_cache_hit hashes len c = Inr (found, tok)"
  shows "list_all2 (hit_list (coord_pool c) hashes) (search_groups n (coord_kind c)) found"
proof (cases "coord_kind c")
  case NoPrefixCache
  then show ?thesis using f n by (auto simp: c_find_longest_cache_hit_def list_all2_conv_all_nth)
next
  case (Unitary spec bs)
  obtain m ms where m: "single_type_managers c = m # ms"
    using f Unitary by (cases "single_type_managers c") (auto simp: c_find_longest_cache_hit_def)
  have "find_longest_cache_hit (mgr_spec m) hashes len [0] (coord_pool c) spec
      (coord_eagle c) (coord_dcp c) (coord_pcp c) = Inr found"
    using f Unitary m by (auto simp: c_find_longest_cache_hit_def)
  then have "list_all2 (hit_list (coord_pool c) hashes) [0] found" by (rule any_search.search_hits [OF r, rotated]) simp
  then show ?thesis using Unitary by simp
next
  case (Hybrid info)
  let ?fs = "full_attention_group_ids info" and ?os = "other_group_ids info"
  have "find_hybrid_hit info hashes len c = Inr (found, tok)" using f Hybrid by (simp add: c_find_longest_cache_hit_def)
  then obtain full l other k where h:
    "find_full_hit hashes len ?fs (coord_pool c) (full_attention_spec info) (coord_eagle c) 1 1 = Inr full"
    "find_longest_cache_hit (other_spec info) hashes l ?os (coord_pool c) (other_spec info) (coord_eagle c) 1 1 = Inr other"
    "found = (if full_attn_first info then map (take k) full @ other else other @ map (take k) full)"
    by (rule hybrid_hit_cases)
  have g: "\<forall>g \<in> set ?fs. g < 2 ^ 32" "\<forall>g \<in> set ?os. g < 2 ^ 32" using kind Hybrid n by auto
  have "list_all2 (hit_list (coord_pool c) hashes) ?fs (map (take k) full)" by (rule full_search.search_hits_take [OF r g(1) h(1)])
  moreover have "list_all2 (hit_list (coord_pool c) hashes) ?os other" by (rule any_search.search_hits [OF r g(2) h(2)])
  ultimately show ?thesis using Hybrid h(3) by (simp add: list_all2_appendI)
qed

lemma computed_hits:
  assumes kv: "kv_ok k" and n: "num_kv_cache_groups k \<le> 2 ^ 32" and g: "get_computed_blocks rq k = Inr ((new, tok), k')"
  shows "coordinator k' = coordinator k \<and> num_kv_cache_groups k' = num_kv_cache_groups k
    \<and> list_all2 (hit_list (km_pool k) (block_hashes rq)) (search_groups (num_kv_cache_groups k) (coord_kind (coordinator k)))
        (blocks_of (num_kv_cache_groups k) new)"
proof -
  let ?G = "search_groups (num_kv_cache_groups k) (coord_kind (coordinator k))"
  have kind: "kind_ok (num_kv_cache_groups k) (coord_kind (coordinator k))"
    and len: "length (single_type_managers (coordinator k)) = num_kv_cache_groups k" and ok: "coord_ok (\<lambda>_. 0) (coordinator k)"
    using kv unfolding kv_ok_def by auto
  obtain xs where r: "pool_repr (km_pool k) xs" using ok ownsD(1) unfolding coord_ok_def by blast
  have G: "length ?G = num_kv_cache_groups k" using search_groups_ok [OF kind] by simp
  have none: "list_all2 (hit_list (km_pool k) (block_hashes rq)) ?G (replicate (num_kv_cache_groups k) [])"
    using G by (simp add: list_all2_conv_all_nth)
  show ?thesis
  proof (cases "\<not> km_caching k \<or> skip_reading_prefix_cache rq")
    case True
    then show ?thesis using g none by (auto simp: get_computed_blocks_def blocks_of_def)
  next
    case False
    then obtain bs where c: "c_find_longest_cache_hit (block_hashes rq) (num_tokens rq - 1) (coordinator k) = Inr (bs, tok)"
      "new = create_kv_cache_blocks bs" "coordinator k' = coordinator k" "num_kv_cache_groups k' = num_kv_cache_groups k"
      using g by (auto simp: get_computed_blocks_def)
    note h = coordinator_hits [OF r kind len n c(1)]
    have "blocks_of (num_kv_cache_groups k) new = bs"
    proof (cases "list_ex (\<lambda>g. g \<noteq> []) bs")
      case False
      then have "bs = replicate (length bs) []" by (auto simp: list_ex_iff intro!: replicate_eqI)
      then show ?thesis using False c(2) list_all2_lengthD [OF h] G by (simp add: create_kv_cache_blocks_def blocks_of_def)
    qed (use c(2) in \<open>simp add: create_kv_cache_blocks_def blocks_of_def\<close>)
    then show ?thesis using h c by simp
  qed
qed

lemma list_all2_partner: "list_all2 P xs ys \<Longrightarrow> y \<in> set ys \<Longrightarrow> \<exists>x \<in> set xs. P x y"
  by (induction rule: list_all2_induct) auto

section \<open>Lookups in reachable states\<close>

text \<open>C33.  What the prefix cache returns for a waiting request meets the contract of \<open>allocate_slots\<close>: in
  every state that the scheduler can reach, for a request with distinct block hashes that has computed
  nothing yet, the lists that \<open>get_computed_blocks\<close> returns can be passed on.\<close>

theorem lookup_meets_contract:
  assumes "kv_init k0" and "kv_step\<^sup>*\<^sup>* k0 k" and "num_kv_cache_groups k \<le> 2 ^ 32"
    and "distinct (block_hashes rq)" and "num_computed_tokens rq = 0"
    and "\<forall>m \<in> set (single_type_managers (coordinator k)). \<forall>b h w. mgr_spec m = SlidingWindowSpec b h w \<longrightarrow> 0 < w"
    and "get_computed_blocks rq k = Inr ((new, n), k')"
  shows "slots_pre rq (Some new) k'"
proof -
  have kv: "kv_ok k" by (rule kv.reachable_good [OF assms(1,2)])
  note h = computed_hits [OF kv assms(3,7)]
  have kind: "kind_ok (num_kv_cache_groups k) (coord_kind (coordinator k))" and ok: "coord_ok (\<lambda>_. 0) (coordinator k)"
    using kv unfolding kv_ok_def by auto
  obtain xs where r: "pool_repr (km_pool k) xs" using ok ownsD(1) unfolding coord_ok_def by blast
  note G = search_groups_ok [OF kind]
  then have "\<forall>g \<in> set (search_groups (num_kv_cache_groups k) (coord_kind (coordinator k))). g < 2 ^ 32"
    using assms(3) by auto
  then have hits: "hits_ok (km_pool k) (blocks_of (num_kv_cache_groups k) new)"
    using hit_lists_ok [OF r _ assms(4)] h by blast
  have skip: "get_num_skipped_tokens (mgr_spec m) 0 \<le> 0" if "m \<in> set (single_type_managers (coordinator k))" for m
    using assms(6) that by (cases "mgr_spec m") force+
  then show ?thesis
    using hits h G list_all2_lengthD assms(5) by (fastforce simp: slots_pre_def Let_def skip_pre_def)
qed

lemma hasher_prefixes:
  assumes "0 < bs" and "collision_free hf nh"
    and "request_block_hasher hf nh bs (r1\<lparr> block_hashes := [] \<rparr>) = Some (Inr hs1)"
    and "request_block_hasher hf nh bs (r2\<lparr> block_hashes := [] \<rparr>) = Some (Inr hs2)"
    and "i < length hs1" and "j < length hs2" and "hs1 ! i = hs2 ! j"
  shows "i = j \<and> take (Suc i * nat bs) (all_token_ids r1) = take (Suc i * nat bs) (all_token_ids r2)"
proof -
  obtain cs1 where cs1: "contents (r1\<lparr> block_hashes := [] \<rparr>) bs 0 (length hs1) 0 = Inr cs1"
    "hs1 = chain_hashes hf nh None cs1" using hasher_chain [OF assms(1,3)] by blast
  obtain cs2 where cs2: "contents (r2\<lparr> block_hashes := [] \<rparr>) bs 0 (length hs2) 0 = Inr cs2"
    "hs2 = chain_hashes hf nh None cs2" using hasher_chain [OF assms(1,4)] by blast
  have "i = j" "take (Suc i) cs1 = take (Suc i) cs2"
    using chain_hashes_inj [OF assms(2), of i cs1 j cs2] assms(5-7) cs1 cs2 by auto
  then show ?thesis
    using contents_tokens [OF cs1(1) assms(1), of "Suc i"] contents_tokens [OF cs2(1) assms(1), of "Suc i"] assms(5,6)
    by simp
qed

text \<open>C31.  Requests share a cached block only where their prompts agree: in every state that the scheduler
  can reach, for two requests whose hashes come from the hasher with a hash function without
  collisions, when the prefix cache returns the same block to both, at whichever places of the
  returned lists, then the places are the same position and the requests agree in all tokens up to
  the end of that block.\<close>

theorem shared_blocks_same_prefix:
  assumes "kv_init k0" and "kv_step\<^sup>*\<^sup>* k0 k" and "num_kv_cache_groups k \<le> 2 ^ 32"
    and "0 < bs" and "collision_free hf nh"
    and "request_block_hasher hf nh bs (r1\<lparr> block_hashes := [] \<rparr>) = Some (Inr (block_hashes r1))"
    and "request_block_hasher hf nh bs (r2\<lparr> block_hashes := [] \<rparr>) = Some (Inr (block_hashes r2))"
    and "get_computed_blocks r1 k = Inr ((new1, n1), k1)" and "get_computed_blocks r2 k = Inr ((new2, n2), k2)"
    and "l1 \<in> set (blocks_of (num_kv_cache_groups k) new1)" and "l2 \<in> set (blocks_of (num_kv_cache_groups k) new2)"
    and "i < length l1" and "j < length l2" and "l1 ! i = l2 ! j" and "l1 ! i \<noteq> Blk 0"
  shows "i = j \<and> take (Suc i * nat bs) (all_token_ids r1) = take (Suc i * nat bs) (all_token_ids r2)"
proof -
  have kv: "kv_ok k" by (rule kv.reachable_good [OF assms(1,2)])
  then have "kind_ok (num_kv_cache_groups k) (coord_kind (coordinator k))" unfolding kv_ok_def by blast
  then have G: "g < 2 ^ 32" if "g \<in> set (search_groups (num_kv_cache_groups k) (coord_kind (coordinator k)))" for g
    using search_groups_ok assms(3) that by fastforce
  have place: "\<exists>g < 2 ^ 32. i < length (block_hashes rq) \<and> cached_for (km_pool k) (block_hashes rq ! i) g (l ! i)"
    if look: "get_computed_blocks rq k = Inr ((new, n), k')" and mem: "l \<in> set (blocks_of (num_kv_cache_groups k) new)"
      and i: "i < length l" "l ! i \<noteq> Blk 0"
    for rq new n k' l i
  proof -
    have "list_all2 (hit_list (km_pool k) (block_hashes rq))
        (search_groups (num_kv_cache_groups k) (coord_kind (coordinator k))) (blocks_of (num_kv_cache_groups k) new)"
      using computed_hits [OF kv assms(3) look] by simp
    then obtain g where "g \<in> set (search_groups (num_kv_cache_groups k) (coord_kind (coordinator k)))"
      "hit_list (km_pool k) (block_hashes rq) g l"
      using list_all2_partner [OF _ mem] by blast
    then show ?thesis using G i by (auto simp: hit_list_def)
  qed
  obtain g1 where g1: "g1 < 2 ^ 32" "i < length (block_hashes r1)" "cached_for (km_pool k) (block_hashes r1 ! i) g1 (l1 ! i)"
    using place [OF assms(8,10,12,15)] by auto
  obtain g2 where g2: "g2 < 2 ^ 32" "j < length (block_hashes r2)" "cached_for (km_pool k) (block_hashes r2 ! j) g2 (l1 ! i)"
    using place [OF assms(9,11,13)] assms(14,15) by auto
  have "block_hashes r1 ! i = block_hashes r2 ! j"
    using g1(1,3) g2(1,3) hash_key_inj by (simp add: cached_for_def)
  then show ?thesis by (rule hasher_prefixes [OF assms(4-7) g1(2) g2(2)])
qed

text \<open>The coordinator of a model with full attention only, as its factory builds it.\<close>

definition full_coordinator :: "kv_spec \<Rightarrow> int \<Rightarrow> coordinator \<Rightarrow> bool" where
  "full_coordinator spec bs c \<longleftrightarrow>
     is_full_attention spec \<and> coord_kind c = Unitary spec bs \<and> map mgr_spec (single_type_managers c) = [spec]
     \<and> bs = (if coord_dcp c * coord_pcp c > 1 then block_size spec * (coord_dcp c * coord_pcp c) else block_size spec)"

lemma full_lookup:
  assumes r: "pool_repr (km_pool k) xs" and "full_coordinator spec bs (coordinator k)" and "0 < bs"
    and "km_caching k" and "\<not> skip_reading_prefix_cache rq" and "0 < num_tokens rq"
    and L: "L = length (takeWhile (\<lambda>h. \<exists>b. cached_for (km_pool k) h 0 b)
              (take (nat ((num_tokens rq - 1) div bs)) (block_hashes rq)))"
    and n: "n = (if coord_eagle (coordinator k) then L - 1 else L)"
  shows "\<exists>new l k'. get_computed_blocks rq k = Inr ((new, int n * bs), k') \<and> blocks_of 1 new = [l]
    \<and> length l = n \<and> (\<forall>j < n. cached_for (km_pool k) (block_hashes rq ! j) 0 (l ! j)) \<and> int n * bs < num_tokens rq"
proof -
  let ?c = "coordinator k"
  obtain m where m: "single_type_managers ?c = [m]" "mgr_spec m = spec" "coord_kind ?c = Unitary spec bs" "is_full_attention spec"
    and bs: "bs = (if coord_dcp ?c * coord_pcp ?c > 1 then block_size spec * (coord_dcp ?c * coord_pcp ?c) else block_size spec)"
    using assms(2) by (auto simp: full_coordinator_def)
  have spec: "full_manager_spec spec" "find_longest_cache_hit spec = find_full_hit"
    using m(4) by (cases spec; auto simp: fun_eq_iff)+
  have "\<exists>found. find_full_hit (block_hashes rq) (num_tokens rq - 1) [0] (km_pool k) spec (coord_eagle ?c) (coord_dcp ?c) (coord_pcp ?c) = Inr found
      \<and> list_all2 (hit_prefix (km_pool k) (block_hashes rq) n) [0] found"
    unfolding n by (rule full_search_longest [OF r _ _ spec(1) _ bs])
      (use L assms(3,6) in \<open>simp_all add: pos_imp_zdiv_nonneg_iff\<close>)
  then obtain l where l: "find_full_hit (block_hashes rq) (num_tokens rq - 1) [0] (km_pool k) spec (coord_eagle ?c) (coord_dcp ?c) (coord_pcp ?c) = Inr [l]"
    "hit_prefix (km_pool k) (block_hashes rq) n 0 l"
    by (auto simp: list_all2_Cons1)
  have "int n \<le> (num_tokens rq - 1) div bs"
  proof -
    have "L \<le> nat ((num_tokens rq - 1) div bs)"
      unfolding L by (rule le_trans [OF length_takeWhile_le]) simp
    then show ?thesis using assms(3,6) n by (auto simp: pos_imp_zdiv_nonneg_iff le_nat_iff)
  qed
  then have "int n * bs \<le> (num_tokens rq - 1) div bs * bs" using assms(3) by (intro mult_right_mono) simp_all
  also have "\<dots> \<le> num_tokens rq - 1" using pos_mod_sign [OF assms(3), of "num_tokens rq - 1"] by (simp add: minus_mod_eq_div_mult [symmetric])
  finally have "int n * bs \<le> num_tokens rq - 1" .
  moreover have "get_computed_blocks rq k = Inr ((create_kv_cache_blocks [l], int n * bs),
      k\<lparr> prefix_cache_stats := map_option (stats_record (num_tokens rq) (int n * bs) (num_preemptions rq > 0)) (prefix_cache_stats k) \<rparr>)"
    using l m assms(4,5) spec(2) by (simp add: get_computed_blocks_def c_find_longest_cache_hit_def group_item_def hit_prefix_def)
  moreover have "blocks_of 1 (create_kv_cache_blocks [l]) = [l]" by (simp add: blocks_of_def create_kv_cache_blocks_def)
  ultimately show ?thesis using l(2) by (auto simp: hit_prefix_def)
qed

text \<open>C32.  For a model with full attention the lookup finds the longest cached prefix: it returns one
  list, with a cached block for every position, as long as the hashes of the request are cached one
  after the other, but never all of its tokens, and one block less for EAGLE.\<close>

theorem longest_prefix_hit:
  assumes "kv_init k0" and "kv_step\<^sup>*\<^sup>* k0 k" and "full_coordinator spec bs (coordinator k)" and "0 < bs"
    and "km_caching k" and "\<not> skip_reading_prefix_cache rq" and "0 < num_tokens rq"
    and L: "L = length (takeWhile (\<lambda>h. \<exists>b. cached_for (km_pool k) h 0 b)
              (take (nat ((num_tokens rq - 1) div bs)) (block_hashes rq)))"
    and n: "n = (if coord_eagle (coordinator k) then L - 1 else L)"
  shows "\<exists>new l k'. get_computed_blocks rq k = Inr ((new, int n * bs), k') \<and> blocks_of 1 new = [l]
    \<and> length l = n \<and> (\<forall>j < n. cached_for (km_pool k) (block_hashes rq ! j) 0 (l ! j)) \<and> int n * bs < num_tokens rq"
proof -
  have "kv_ok k" by (rule kv.reachable_good [OF assms(1,2)])
  then obtain xs where "pool_repr (km_pool k) xs" using ownsD(1) unfolding kv_ok_def coord_ok_def by blast
  then show ?thesis by (rule full_lookup [OF _ assms(3-9)])
qed

section \<open>A state with a cached block\<close>

definition cached_request :: "int list \<Rightarrow> Request" where
  "cached_request out = (sample_request [5, 6] out)\<lparr> block_hashes := sample_hashes \<rparr>"

lemma cached_request_simps [simp]:
  "block_hashes (cached_request out) = sample_hashes" "all_token_ids (cached_request out) = [5, 6] @ out"
  "num_computed_tokens (cached_request out) = 0" "(cached_request out)\<lparr> block_hashes := [] \<rparr> = (sample_request [5, 6] out)\<lparr> block_hashes := [] \<rparr>"
  "skip_reading_prefix_cache (cached_request out) = False" "num_tokens (cached_request out) = 2 + int (length out)"
  "num_preemptions (cached_request out) = 0" "request_id (cached_request out) = ''r''"
  by (simp_all add: cached_request_def sample_request_def num_tokens_def)

lemma sample_hashes_single: "sample_hashes = [hd sample_hashes]"
proof -
  obtain h where h: "sample_hashes = [h]" using length_sample_hashes unfolding One_nat_def length_Suc_conv by auto
  show ?thesis unfolding h by simp
qed

lemma sample_hashes_distinct: "distinct sample_hashes"
  by (subst sample_hashes_single) simp

lemma sample_cached:
  "\<exists>k. kv_step sample_kv k \<and> full_coordinator sample_spec 2 (coordinator k) \<and> km_caching k
     \<and> num_kv_cache_groups k = 1 \<and> \<not> coord_eagle (coordinator k) \<and> cached_for (km_pool k) (hd sample_hashes) 0 (Blk 1)"
proof -
  let ?rq = "cached_request []"
  note r = pool_invD [OF sample_pool_init(2)]
  have "block_hash (blk sample_pool (Blk 1)) = None" using init_pool_inv [of 4 True True] sample_pool_init(1) by auto
  moreover have free: "get_num_free_blocks sample_pool = 3"
    using queue_reprD(6) [OF r(3)] by (simp add: get_num_free_blocks_def)
  ultimately obtain p where p: "get_new_blocks True 1 sample_pool = Inr ([Blk 1], p)" "pool_repr p [Blk 2, Blk 3]" "same_config sample_pool p"
    "block_hash (blk p (Blk 1)) = None"
    using get_new_blocks_inv [OF sample_pool_init(2), of 1 True] by auto
  have mem: "Blk 1 \<in> pool_blocks p" using pool_blocks_config [OF p(3)] by (simp add: sample_pool_blocks)
  have sl: "py_slice [Blk 1] 0 1 = [Blk 1]" "py_slice sample_hashes 0 1 = sample_hashes" for x
    by (simp_all add: py_slice_def slice_index_def)
  have h: "py_slice (block_hashes ?rq) 0 1 = [hd sample_hashes]" using sample_hashes_single sl(2) by simp
  obtain p' where p': "cache_full_blocks True ?rq [Blk 1] 0 1 2 0 p = Inr p'" "same_config p p'"
    "block_hash (blk p' (Blk 1)) = Some (hash_key 0 (hd sample_hashes))"
    using cache_full_blocks_inv [OF p(2), of 0 1 "[Blk 1]" ?rq 0 True 2] mem p(4) unfolding sl(1) h by (auto simp: cacheable_def)
  then have "cached_for p' (hd sample_hashes) 0 (Blk 1)"
    using mem pool_blocks_config [OF p'(2)] by (simp add: cached_for_def)
  moreover have "\<exists>k. allocate_slots True ?rq 2 0 None 0 False 0 sample_kv = Inr (Some (KVBlocks [[Blk 1]]), k)
     \<and> full_coordinator sample_spec 2 (coordinator k) \<and> km_caching k \<and> num_kv_cache_groups k = 1 \<and> \<not> coord_eagle (coordinator k)
     \<and> km_pool k = p'"
    using free p(1) p'(1) by (simp add: slots_eval Let_def touch_def sample_kv_def sample_spec_def c_cache_blocks_def cache_blocks_def full_coordinator_def)
  moreover have "slots_pre ?rq None sample_kv"
    by (simp add: slots_pre_def blocks_of_def sample_kv_def sample_spec_def hits_ok_def skip_pre_def)
  ultimately show ?thesis using kv_step.slots by metis
qed

lemma sample_lookup:
  assumes "cached_for (km_pool k) (hd sample_hashes) 0 (Blk 1)"
  shows "length (takeWhile (\<lambda>h. \<exists>b. cached_for (km_pool k) h 0 b)
      (take (nat ((num_tokens (cached_request [t]) - 1) div 2)) (block_hashes (cached_request [t])))) = 1"
  unfolding cached_request_simps using assms by (subst sample_hashes_single) auto

lemma sample_full_lookup:
  assumes "kv_step sample_kv k" "full_coordinator sample_spec 2 (coordinator k)" "km_caching k"
    "\<not> coord_eagle (coordinator k)" "cached_for (km_pool k) (hd sample_hashes) 0 (Blk 1)"
  shows "\<exists>new l k'. get_computed_blocks (cached_request [t]) k = Inr ((new, 2), k') \<and> blocks_of 1 new = [[l]]
     \<and> cached_for (km_pool k) (hd sample_hashes) 0 l"
proof -
  have "kv_ok k" by (rule kv_step_ok [OF kv_init_ok [OF sample_kv_init] assms(1)])
  then obtain xs where "pool_repr (km_pool k) xs" using ownsD(1) unfolding kv_ok_def coord_ok_def by blast
  from full_lookup [OF this assms(2) _ assms(3) _ _ sample_lookup [OF assms(5), symmetric, of t] refl] assms(4)
  obtain new l k' where l: "get_computed_blocks (cached_request [t]) k = Inr ((new, 2), k')" "blocks_of 1 new = [l]" "length l = 1"
    "cached_for (km_pool k) (hd sample_hashes) 0 (l ! 0)"
    using hd_conv_nth [of sample_hashes] sample_hashes_single by fastforce
  then show ?thesis by (cases l) auto
qed

theorem lookup_meets_contract_witness:
  "\<exists>k new n k'. kv_step sample_kv k \<and> get_computed_blocks (cached_request [7]) k = Inr ((new, n), k')
     \<and> slots_pre (cached_request [7]) (Some new) k'"
proof -
  obtain k where k: "kv_step sample_kv k" "full_coordinator sample_spec 2 (coordinator k)" "km_caching k"
    "num_kv_cache_groups k = 1" "\<not> coord_eagle (coordinator k)" "cached_for (km_pool k) (hd sample_hashes) 0 (Blk 1)"
    using sample_cached by blast
  obtain new k' where g: "get_computed_blocks (cached_request [7]) k = Inr ((new, 2), k')"
    using sample_full_lookup [OF k(1-3,5,6)] by blast
  have "\<forall>m \<in> set (single_type_managers (coordinator k)). \<forall>b h w. mgr_spec m = SlidingWindowSpec b h w \<longrightarrow> 0 < w"
    using k(2) by (auto simp: full_coordinator_def sample_spec_def)
  moreover have "kv_step\<^sup>*\<^sup>* sample_kv k" using k(1) by blast
  ultimately have "slots_pre (cached_request [7]) (Some new) k'"
    using lookup_meets_contract [OF sample_kv_init _ _ _ _ _ g] k(4) sample_hashes_distinct by simp
  then show ?thesis using k(1) g by blast
qed

theorem shared_blocks_same_prefix_witness:
  "\<exists>k new1 l1 k1 new2 l2 k2. get_computed_blocks (cached_request [7]) k = Inr ((new1, 2), k1) \<and> blocks_of 1 new1 = [l1]
     \<and> get_computed_blocks (cached_request [8]) k = Inr ((new2, 2), k2) \<and> blocks_of 1 new2 = [l2] \<and> l1 = l2
     \<and> take 2 (all_token_ids (cached_request [7])) = take 2 (all_token_ids (cached_request [8]))"
proof -
  obtain k where k: "kv_step sample_kv k" "full_coordinator sample_spec 2 (coordinator k)" "km_caching k"
    "num_kv_cache_groups k = 1" "\<not> coord_eagle (coordinator k)" "cached_for (km_pool k) (hd sample_hashes) 0 (Blk 1)"
    using sample_cached by blast
  have st: "kv_step\<^sup>*\<^sup>* sample_kv k" using k(1) by blast
  have ok: "kv_ok k" by (rule kv_step_ok [OF kv_init_ok [OF sample_kv_init] k(1)])
  obtain new l k' where g: "get_computed_blocks (cached_request [7]) k = Inr ((new, 2), k')" "blocks_of 1 new = [[l]]"
    "cached_for (km_pool k) (hd sample_hashes) 0 l"
    using sample_full_lookup [OF k(1-3,5,6)] by blast
  have g8: "get_computed_blocks (cached_request [8]) k = Inr ((new, 2), k')"
    unfolding g(1) [symmetric] by (simp add: get_computed_blocks_def)
  obtain xs where r: "pool_repr (km_pool k) xs" using ok ownsD(1) unfolding kv_ok_def coord_ok_def by blast
  have "l \<noteq> Blk 0" using g(3) pool_invD(11) [OF r] by (auto simp: cached_for_def)
  then have "take (Suc 0 * nat 2) (all_token_ids (cached_request [7])) = take (Suc 0 * nat 2) (all_token_ids (cached_request [8]))"
    using shared_blocks_same_prefix [OF sample_kv_init st _ _ unary_hash_collision_free _ _ g(1) g8, of 2 "[l]" "[l]" 0 0]
      g(2) k(4) sample_hasher by simp
  then show ?thesis using g(1,2) g8 by (intro exI conjI) (assumption | rule refl | simp)+
qed

theorem longest_prefix_hit_witness:
  "\<exists>k new l k'. kv_step sample_kv k \<and> get_computed_blocks (cached_request [7]) k = Inr ((new, 2), k') \<and> blocks_of 1 new = [l] \<and> length l = 1"
proof -
  obtain k where k: "kv_step sample_kv k" "full_coordinator sample_spec 2 (coordinator k)" "km_caching k"
    "\<not> coord_eagle (coordinator k)" "cached_for (km_pool k) (hd sample_hashes) 0 (Blk 1)"
    using sample_cached by blast
  have "kv_step\<^sup>*\<^sup>* sample_kv k" using k(1) by blast
  then show ?thesis
    using longest_prefix_hit [OF sample_kv_init _ k(2) _ k(3) _ _ sample_lookup [OF k(5), symmetric, of 7] refl]
      k(1,4) by fastforce
qed

end
