(* ===== verification/Request_Queue.thy ===== *)
theory Request_Queue
  imports Request "HOL-Library.Multiset" "HOL-Library.Product_Lexorder"
begin

text \<open>
  The waiting queue of the scheduler (\<open>vllm/v1/core/sched/request_queue.py\<close>): the first-come-first-served
  queue on a deque, the priority queue on the binary heap of \<open>heapq\<close>, and the interface of both.  A
  queue holds requests by reference; the model holds their values, so that \<open>==\<close> on requests, which
  compares identities, is equality of the records.  What a heap operation leaves behind when a
  comparison raises is not modelled.
\<close>

section \<open>The heap of \<open>heapq\<close>\<close>

type_synonym entry = "int \<times> int \<times> Request"

text \<open>Tuples are compared by their first components that differ.  \<open>Request\<close> defines no order.\<close>

fun entry_lt :: "entry \<Rightarrow> entry \<Rightarrow> py_exn + bool" where
  "entry_lt (p, t, r) (p', t', r') =
     (if p \<noteq> p' then Inr (p < p')
      else if t \<noteq> t' then Inr (t < t')
      else if r = r' then Inr False
      else Inl (TypeError ''< not supported between instances of Request and Request''))"

definition swap_at :: "nat \<Rightarrow> nat \<Rightarrow> 'a list \<Rightarrow> 'a list" where
  "swap_at i j h = h[i := h ! j, j := h ! i]"

function siftdown :: "nat \<Rightarrow> nat \<Rightarrow> entry list \<Rightarrow> py_exn + entry list" where
  "siftdown startpos pos h =
     (if pos > startpos then
        (let parentpos = (pos - 1) div 2
         in bindE (entry_lt (h ! pos) (h ! parentpos)) (\<lambda>less.
            if less then siftdown startpos parentpos (swap_at parentpos pos h) else Inr h))
      else Inr h)"
  by pat_completeness auto
termination
  by (relation "measure (\<lambda>(s, p, h). p)") auto

declare siftdown.simps [simp del]

function siftup_loop :: "nat \<Rightarrow> entry list \<Rightarrow> py_exn + (nat \<times> entry list)" where
  "siftup_loop pos h =
     (if pos < length h div 2 then
        (let childpos = 2 * pos + 1
         in bindE (if childpos + 1 < length h then entry_lt (h ! childpos) (h ! (childpos + 1)) else Inr True) (\<lambda>less.
            (let c = (if less then childpos else childpos + 1)
             in siftup_loop c (swap_at c pos h))))
      else Inr (pos, h))"
  by pat_completeness auto
termination
  by (relation "measure (\<lambda>(p, h). length h - p)") (auto simp: swap_at_def)

declare siftup_loop.simps [simp del]

definition siftup :: "nat \<Rightarrow> entry list \<Rightarrow> py_exn + entry list" where
  "siftup pos h = bindE (siftup_loop pos h) (\<lambda>(pos', h'). siftdown pos pos' h')"

definition heappush :: "entry list \<Rightarrow> entry \<Rightarrow> py_exn + entry list" where
  "heappush h x = siftdown 0 (length h) (h @ [x])"

definition heappop :: "entry list \<Rightarrow> py_exn + (entry \<times> entry list)" where
  "heappop h =
     (if h = [] then Inl IndexError
      else
        (let lastelt = last h; h' = butlast h
         in if h' = [] then Inr (lastelt, h')
            else bindE (siftup 0 (h'[0 := lastelt])) (\<lambda>h''. Inr (h' ! 0, h''))))"

definition heapify :: "entry list \<Rightarrow> py_exn + entry list" where
  "heapify h = foldE siftup (rev [0..<length h div 2]) h"

section \<open>The queues\<close>

datatype SchedulingPolicy = FCFS | PRIORITY

text \<open>\<open>FCFSRequestQueue\<close>: a deque.\<close>

type_synonym FCFSRequestQueue = "Request list"

definition fcfs_add_request :: "Request \<Rightarrow> FCFSRequestQueue \<Rightarrow> FCFSRequestQueue" where
  "fcfs_add_request r q = q @ [r]"

fun fcfs_pop_request :: "FCFSRequestQueue \<Rightarrow> py_exn + (Request \<times> FCFSRequestQueue)" where
  "fcfs_pop_request [] = Inl IndexError"
| "fcfs_pop_request (r # q) = Inr (r, q)"

fun fcfs_peek_request :: "FCFSRequestQueue \<Rightarrow> py_exn + Request" where
  "fcfs_peek_request [] = Inl IndexError"
| "fcfs_peek_request (r # q) = Inr r"

definition fcfs_prepend_request :: "Request \<Rightarrow> FCFSRequestQueue \<Rightarrow> FCFSRequestQueue" where
  "fcfs_prepend_request r q = r # q"

text \<open>\<open>extendleft\<close> prepends one element after the other.\<close>

definition fcfs_prepend_requests :: "Request list \<Rightarrow> FCFSRequestQueue \<Rightarrow> FCFSRequestQueue" where
  "fcfs_prepend_requests rs q = fold (#) (rev rs) q"

definition fcfs_remove_request :: "Request \<Rightarrow> FCFSRequestQueue \<Rightarrow> py_exn + FCFSRequestQueue" where
  "fcfs_remove_request r q =
     (if r \<in> set q then Inr (remove1 r q) else Inl (ValueError ''deque.remove(x): x not in deque''))"

definition fcfs_remove_requests :: "Request list \<Rightarrow> FCFSRequestQueue \<Rightarrow> FCFSRequestQueue" where
  "fcfs_remove_requests rs q = filter (\<lambda>r. r \<notin> set rs) q"

text \<open>\<open>PriorityRequestQueue\<close>.\<close>

type_synonym PriorityRequestQueue = "entry list"

definition entry_of :: "Request \<Rightarrow> entry" where
  "entry_of r = (priority r, arrival_time r, r)"

definition prio_add_request :: "Request \<Rightarrow> PriorityRequestQueue \<Rightarrow> py_exn + PriorityRequestQueue" where
  "prio_add_request r q = heappush q (entry_of r)"

definition prio_pop_request :: "PriorityRequestQueue \<Rightarrow> py_exn + (Request \<times> PriorityRequestQueue)" where
  "prio_pop_request q =
     (if q = [] then Inl IndexError else bindE (heappop q) (\<lambda>((_, _, r), q'). Inr (r, q')))"

definition prio_peek_request :: "PriorityRequestQueue \<Rightarrow> py_exn + Request" where
  "prio_peek_request q = (if q = [] then Inl IndexError else Inr (snd (snd (q ! 0))))"

definition prio_prepend_request :: "Request \<Rightarrow> PriorityRequestQueue \<Rightarrow> py_exn + PriorityRequestQueue" where
  "prio_prepend_request r q = prio_add_request r q"

definition prio_prepend_requests :: "Request list \<Rightarrow> PriorityRequestQueue \<Rightarrow> py_exn + PriorityRequestQueue" where
  "prio_prepend_requests rs q = foldE prio_add_request rs q"

definition prio_remove_request :: "Request \<Rightarrow> PriorityRequestQueue \<Rightarrow> py_exn + PriorityRequestQueue" where
  "prio_remove_request r q = heapify (filter (\<lambda>(_, _, r'). r' \<noteq> r) q)"

definition prio_remove_requests :: "Request list \<Rightarrow> PriorityRequestQueue \<Rightarrow> py_exn + PriorityRequestQueue" where
  "prio_remove_requests rs q = heapify (filter (\<lambda>(_, _, r). r \<notin> set rs) q)"

text \<open>Iteration pops from a copy; the first argument is the length of the copy.\<close>

fun prio_iter_loop :: "nat \<Rightarrow> entry list \<Rightarrow> py_exn + Request list" where
  "prio_iter_loop 0 h = Inr []"
| "prio_iter_loop (Suc n) h =
     bindE (heappop h) (\<lambda>((_, _, r), h'). bindE (prio_iter_loop n h') (\<lambda>rs. Inr (r # rs)))"

definition prio_iter :: "PriorityRequestQueue \<Rightarrow> py_exn + Request list" where
  "prio_iter q = prio_iter_loop (length q) q"

definition prio_reversed :: "PriorityRequestQueue \<Rightarrow> py_exn + Request list" where
  "prio_reversed q = bindE (prio_iter q) (\<lambda>rs. Inr (rev rs))"

text \<open>\<open>create_request_queue\<close>: a queue of either kind.\<close>

datatype RequestQueue = FCFSQueue FCFSRequestQueue | PriorityQueue PriorityRequestQueue

fun create_request_queue :: "SchedulingPolicy \<Rightarrow> RequestQueue" where
  "create_request_queue PRIORITY = PriorityQueue []"
| "create_request_queue FCFS = FCFSQueue []"

section \<open>The heap\<close>

fun entry_key :: "entry \<Rightarrow> int \<times> int" where
  "entry_key (p, t, r) = (p, t)"

text \<open>No two different entries tie, so that every comparison returns.\<close>

definition comparable :: "entry multiset \<Rightarrow> bool" where
  "comparable M \<longleftrightarrow> (\<forall>a \<in># M. \<forall>b \<in># M. entry_key a = entry_key b \<longrightarrow> a = b)"

lemma entry_lt_key: "comparable M \<Longrightarrow> a \<in># M \<Longrightarrow> b \<in># M \<Longrightarrow> entry_lt a b = Inr (entry_key a < entry_key b)"
proof -
  assume "comparable M" "a \<in># M" "b \<in># M"
  then have "entry_key a = entry_key b \<Longrightarrow> a = b" by (simp add: comparable_def)
  then show ?thesis by (cases a; cases b) (auto simp: less_prod_simp)
qed

lemma comparable_mono: "comparable M \<Longrightarrow> N \<subseteq># M \<Longrightarrow> comparable N"
  unfolding comparable_def by (meson mset_subset_eqD)

lemma swap_at_simps [simp]:
  "length (swap_at i j h) = length h"
  "i < length h \<Longrightarrow> j < length h \<Longrightarrow> mset (swap_at i j h) = mset h"
  "i < length h \<Longrightarrow> j < length h \<Longrightarrow> swap_at i j h ! k = (if k = i then h ! j else if k = j then h ! i else h ! k)"
  by (simp_all add: swap_at_def mset_swap nth_list_update)

text \<open>The parent of a position, the edges of the tree below a position, and the positions below it.\<close>

definition parent :: "nat \<Rightarrow> nat" where
  "parent i = (i - 1) div 2"

lemma parent_less: "0 < i \<Longrightarrow> parent i < i"
  unfolding parent_def by linarith

lemma parent_le: "parent i \<le> i"
  unfolding parent_def by linarith

lemma parent_child: "0 < i \<Longrightarrow> parent i = p \<longleftrightarrow> i = 2 * p + 1 \<or> i = 2 * p + 2"
  unfolding parent_def by linarith

lemma parent_simps [simp]:
  "(i - Suc 0) div 2 = parent i" "parent (Suc (2 * i)) = i" "parent (Suc (Suc (2 * i))) = i" "parent i = i \<longleftrightarrow> i = 0"
  "i = parent i \<longleftrightarrow> i = 0" "i \<le> parent i \<longleftrightarrow> i = 0"
  using parent_less [of i] parent_le [of i] by (simp add: parent_def, simp add: parent_def, simp add: parent_def, linarith+)

definition ordered_edge :: "entry list \<Rightarrow> nat \<Rightarrow> bool" where
  "ordered_edge h i \<longleftrightarrow> entry_key (h ! parent i) \<le> entry_key (h ! i)"

definition edge :: "nat \<Rightarrow> entry list \<Rightarrow> nat \<Rightarrow> bool" where
  "edge s h i \<longleftrightarrow> 0 < i \<and> i < length h \<and> s \<le> parent i"

definition heap_from :: "nat \<Rightarrow> entry list \<Rightarrow> bool" where
  "heap_from s h \<longleftrightarrow> (\<forall>i. edge s h i \<longrightarrow> ordered_edge h i)"

inductive below :: "nat \<Rightarrow> nat \<Rightarrow> bool" for s where
  root: "below s s"
| child: "below s (parent c) \<Longrightarrow> 0 < c \<Longrightarrow> below s c"

lemma below_le: "below s p \<Longrightarrow> s \<le> p"
  by (induction rule: below.induct) (auto intro: le_trans [OF _ parent_le])

lemma below_parent: "below s p \<Longrightarrow> s < p \<Longrightarrow> s \<le> parent p \<and> below s (parent p)"
  by (erule below.cases) (auto dest: below_le)

text \<open>What holds while an element moves: \<open>pos\<close> may be smaller than its parent, and the parent is below
  the children of \<open>pos\<close>.\<close>

definition up_inv :: "nat \<Rightarrow> nat \<Rightarrow> entry list \<Rightarrow> bool" where
  "up_inv s pos h \<longleftrightarrow>
     pos < length h \<and> below s pos \<and> (\<forall>i. edge s h i \<longrightarrow> i \<noteq> pos \<longrightarrow> ordered_edge h i)
     \<and> (pos \<noteq> s \<longrightarrow> (\<forall>c. edge s h c \<longrightarrow> parent c = pos \<longrightarrow> entry_key (h ! parent pos) \<le> entry_key (h ! c)))"

lemma up_inv_step:
  assumes "up_inv s pos h" and "s < pos" and less: "entry_key (h ! pos) < entry_key (h ! parent pos)"
  shows "up_inv s (parent pos) (swap_at (parent pos) pos h)"
proof -
  let ?p = "parent pos" and ?h = "swap_at (parent pos) pos h"
  have pos: "pos < length h" "?p < length h" "?p \<noteq> pos" "below s ?p" "s \<le> ?p"
    using assms(1,2) below_parent [of s pos] parent_less [of pos] by (auto simp: up_inv_def)
  have nth: "?h ! k = (if k = ?p then h ! pos else if k = pos then h ! ?p else h ! k)" for k
    using pos by simp
  have ord: "edge s h i \<Longrightarrow> i \<noteq> pos \<Longrightarrow> entry_key (h ! parent i) \<le> entry_key (h ! i)" for i
    using assms(1) by (auto simp: up_inv_def ordered_edge_def)
  have grand: "edge s h c \<Longrightarrow> parent c = pos \<Longrightarrow> entry_key (h ! ?p) \<le> entry_key (h ! c)" for c
    using assms(1,2) by (auto simp: up_inv_def)
  have e: "edge s ?h i \<longleftrightarrow> edge s h i" for i by (simp add: edge_def)
  have "ordered_edge ?h i" if "edge s h i" "i \<noteq> ?p" for i
  proof (cases "i = pos")
    case True
    then show ?thesis using pos less_imp_le [OF less] by (simp add: ordered_edge_def nth)
  next
    case False
    consider "parent i = pos" | "parent i = ?p" | "parent i \<noteq> pos" "parent i \<noteq> ?p" by blast
    then show ?thesis
    proof cases
      case 1
      then show ?thesis using grand [OF that(1) 1] False that(2) pos by (simp add: ordered_edge_def nth)
    next
      case 2
      have "entry_key (h ! ?p) \<le> entry_key (h ! i)" using ord [OF that(1) False] 2 by simp
      then show ?thesis using less False that(2) 2 by (simp add: ordered_edge_def nth)
    next
      case 3
      then show ?thesis using ord [OF that(1) False] False that(2) by (simp add: ordered_edge_def nth)
    qed
  qed
  moreover have "entry_key (?h ! parent ?p) \<le> entry_key (?h ! c)" if "?p \<noteq> s" "edge s h c" "parent c = ?p" for c
  proof -
    have p: "s < ?p" using that(1) pos by simp
    then have "s \<le> parent ?p" "parent ?p \<noteq> ?p" "parent ?p \<noteq> pos"
      using below_parent [OF pos(4)] parent_less [of ?p] parent_le [of pos] by auto
    moreover have "edge s h ?p" using p pos \<open>s \<le> parent ?p\<close> by (simp add: edge_def)
    then have g: "entry_key (h ! parent ?p) \<le> entry_key (h ! ?p)" using ord pos(3) by simp
    moreover have "c \<noteq> ?p" using that(2,3) by (auto simp: edge_def)
    moreover have "entry_key (h ! parent ?p) \<le> entry_key (h ! c)" if "c \<noteq> pos"
      using g ord [OF \<open>edge s h c\<close> that] \<open>parent c = ?p\<close> by simp
    ultimately show ?thesis by (simp add: nth)
  qed
  ultimately show ?thesis using pos by (auto simp: up_inv_def e)
qed

lemma siftdown_heap:
  "comparable (mset h) \<Longrightarrow> up_inv s pos h \<Longrightarrow> \<exists>h'. siftdown s pos h = Inr h' \<and> heap_from s h' \<and> mset h' = mset h"
proof (induction s pos h rule: siftdown.induct)
  case (1 s pos h)
  have pos: "pos < length h" "parent pos < length h"
    using "1.prems"(2) parent_le [of pos] by (auto simp: up_inv_def)
  show ?case
  proof (cases "s < pos")
    case False
    then have "pos = s" using "1.prems"(2) below_le [of s pos] by (auto simp: up_inv_def)
    moreover have "i \<noteq> s" if "edge s h i" for i using that parent_less [of i] by (auto simp: edge_def)
    ultimately have "heap_from s h" using "1.prems"(2) by (auto simp: up_inv_def heap_from_def)
    then show ?thesis using False by (simp add: siftdown.simps)
  next
    case True
    have lt: "entry_lt (h ! pos) (h ! parent pos) = Inr (entry_key (h ! pos) < entry_key (h ! parent pos))"
      using entry_lt_key [OF "1.prems"(1)] pos by (simp add: in_multiset_in_set)
    show ?thesis
    proof (cases "entry_key (h ! pos) < entry_key (h ! parent pos)")
      case less: True
      have c: "comparable (mset (swap_at (parent pos) pos h))" using "1.prems"(1) pos by simp
      obtain h' where "siftdown s (parent pos) (swap_at (parent pos) pos h) = Inr h'" "heap_from s h'" "mset h' = mset h"
        using "1.IH" [unfolded One_nat_def parent_simps(1), OF True refl less c up_inv_step [OF "1.prems"(2) True less]] pos by auto
      then show ?thesis using True lt less by (subst siftdown.simps) (simp add: Let_def)
    next
      case False
      then have "ordered_edge h pos" by (simp add: ordered_edge_def)
      then have "heap_from s h" using "1.prems"(2) by (auto simp: up_inv_def heap_from_def)
      then show ?thesis using True lt False by (subst siftdown.simps) (simp add: Let_def)
    qed
  qed
qed

text \<open>While \<open>siftup\<close> moves an element towards the leaves, the edges at its position may be unordered.\<close>

definition down_inv :: "nat \<Rightarrow> nat \<Rightarrow> entry list \<Rightarrow> bool" where
  "down_inv s pos h \<longleftrightarrow>
     pos < length h \<and> below s pos \<and> (\<forall>i. edge s h i \<longrightarrow> i \<noteq> pos \<longrightarrow> parent i \<noteq> pos \<longrightarrow> ordered_edge h i)
     \<and> (pos \<noteq> s \<longrightarrow> (\<forall>c. edge s h c \<longrightarrow> parent c = pos \<longrightarrow> entry_key (h ! parent pos) \<le> entry_key (h ! c)))"

lemma down_inv_leaf: "down_inv s pos h \<Longrightarrow> \<not> pos < length h div 2 \<Longrightarrow> up_inv s pos h"
proof -
  assume a: "down_inv s pos h" "\<not> pos < length h div 2"
  have "parent i \<noteq> pos" if "edge s h i" for i using that a(2) parent_child [of i pos] by (auto simp: edge_def)
  then show ?thesis using a(1) by (auto simp: down_inv_def up_inv_def)
qed

lemma down_inv_step:
  assumes "down_inv s pos h" and c: "c = 2 * pos + 1 \<or> c = 2 * pos + 2" "c < length h"
    and least: "\<And>d. d < length h \<Longrightarrow> parent d = pos \<Longrightarrow> 0 < d \<Longrightarrow> entry_key (h ! c) \<le> entry_key (h ! d)"
  shows "down_inv s c (swap_at c pos h)"
proof -
  let ?h = "swap_at c pos h"
  have pos: "pos < length h" "below s pos" "pos \<noteq> c" "parent c = pos" "0 < c" using assms by (auto simp: down_inv_def)
  have nth: "?h ! k = (if k = c then h ! pos else if k = pos then h ! c else h ! k)" for k using pos c by simp
  have ord: "edge s h i \<Longrightarrow> i \<noteq> pos \<Longrightarrow> parent i \<noteq> pos \<Longrightarrow> entry_key (h ! parent i) \<le> entry_key (h ! i)" for i
    using assms(1) by (auto simp: down_inv_def ordered_edge_def)
  have grand: "pos \<noteq> s \<Longrightarrow> edge s h d \<Longrightarrow> parent d = pos \<Longrightarrow> entry_key (h ! parent pos) \<le> entry_key (h ! d)" for d
    using assms(1) by (auto simp: down_inv_def)
  have e: "edge s ?h i \<longleftrightarrow> edge s h i" for i by (simp add: edge_def)
  have ec: "edge s h c" using pos c below_le by (auto simp: edge_def)
  have "ordered_edge ?h i" if "edge s h i" "i \<noteq> c" "parent i \<noteq> c" for i
  proof (cases "parent i = pos")
    case True
    then have "i \<noteq> pos" using that(1) parent_less [of i] by (auto simp: edge_def)
    then show ?thesis using least [of i] that True by (simp add: ordered_edge_def nth edge_def pos)
  next
    case False
    show ?thesis
    proof (cases "i = pos")
      case True
      then have "pos \<noteq> s" using that(1) parent_less [of pos] by (auto simp: edge_def)
      then show ?thesis using grand [OF _ ec pos(4)] True False that by (simp add: ordered_edge_def nth)
    next
      case i: False
      then show ?thesis using ord [OF that(1) i False] False that by (simp add: ordered_edge_def nth)
    qed
  qed
  moreover have "entry_key (?h ! parent c) \<le> entry_key (?h ! d)" if "edge s h d" "parent d = c" for d
  proof -
    have "d \<noteq> c" "d \<noteq> pos" "parent d \<noteq> pos"
      using that pos parent_less [of d] parent_less [of c] by (auto simp: edge_def)
    then show ?thesis using ord [OF that(1)] that(2) pos by (simp add: nth)
  qed
  moreover have "below s c" using below.child [of s c] pos by simp
  ultimately show ?thesis using pos c by (auto simp: down_inv_def e)
qed

lemma siftup_loop_heap:
  "comparable (mset h) \<Longrightarrow> down_inv s pos h \<Longrightarrow>
     \<exists>pos' h'. siftup_loop pos h = Inr (pos', h') \<and> up_inv s pos' h' \<and> mset h' = mset h"
proof (induction pos h rule: siftup_loop.induct)
  case (1 pos h)
  show ?case
  proof (cases "pos < length h div 2")
    case False
    then show ?thesis using down_inv_leaf [OF "1.prems"(2)] by (simp add: siftup_loop.simps)
  next
    case True
    let ?c = "2 * pos + 1"
    define less where "less \<longleftrightarrow> (?c + 1 < length h \<longrightarrow> entry_key (h ! ?c) < entry_key (h ! (?c + 1)))"
    define c where "c = (if less then ?c else ?c + 1)"
    have cmp: "(if ?c + 1 < length h then entry_lt (h ! ?c) (h ! (?c + 1)) else Inr True) = Inr less"
      using entry_lt_key [OF "1.prems"(1), of "h ! ?c" "h ! (?c + 1)"] True by (auto simp: less_def in_multiset_in_set)
    have c: "c = ?c \<or> c = 2 * pos + 2" "c < length h" using True by (auto simp: c_def less_def)
    have least: "entry_key (h ! c) \<le> entry_key (h ! d)" if d: "d < length h" "parent d = pos" "0 < d" for d
      using d parent_child [of d pos] by (auto simp: c_def less_def)
    have step: "down_inv s c (swap_at c pos h)" by (rule down_inv_step [OF "1.prems"(2) c least])
    have len: "pos < length h" using True by simp
    then have cm: "comparable (mset (swap_at c pos h))" using "1.prems"(1) c by simp
    obtain pos' h' where "siftup_loop c (swap_at c pos h) = Inr (pos', h')" "up_inv s pos' h'" "mset h' = mset h"
      using "1.IH" [OF True refl c_def cm step] c(2) len by auto
    moreover have "siftup_loop pos h = siftup_loop c (swap_at c pos h)"
      by (subst siftup_loop.simps) (simp only: Let_def cmp bindE.simps True if_True c_def)
    ultimately show ?thesis by simp
  qed
qed

lemma siftup_heap:
  assumes "comparable (mset h)" and "heap_from (Suc s) h" and "s < length h"
  shows "\<exists>h'. siftup s h = Inr h' \<and> heap_from s h' \<and> mset h' = mset h"
proof -
  have "ordered_edge h i" if "edge s h i" "parent i \<noteq> s" for i
    using assms(2) that by (auto simp: heap_from_def edge_def)
  then have "down_inv s s h" using assms(3) by (auto simp: down_inv_def below.root)
  from siftup_loop_heap [OF assms(1) this] obtain pos' h' where h': "siftup_loop s h = Inr (pos', h')" "up_inv s pos' h'" "mset h' = mset h"
    by blast
  then have "comparable (mset h')" using assms(1) by simp
  from siftdown_heap [OF this h'(2)] show ?thesis using h' by (auto simp: siftup_def)
qed

lemma heap_least:
  assumes "heap_from 0 h" and "i < length h"
  shows "entry_key (h ! 0) \<le> entry_key (h ! i)"
  using assms(2)
proof (induction i rule: less_induct)
  case (less i)
  show ?case
  proof (cases "i = 0")
    case False
    then have "entry_key (h ! 0) \<le> entry_key (h ! parent i)" "entry_key (h ! parent i) \<le> entry_key (h ! i)"
      using less assms(1) parent_less [of i] by (auto simp: heap_from_def edge_def ordered_edge_def)
    then show ?thesis by simp
  qed simp
qed

lemma below_zero: "below 0 i"
proof (induction i rule: less_induct)
  case (less i)
  then show ?case using below.child [of 0 i] parent_less [of i] by (cases "i = 0") (auto simp: below.root)
qed

lemma heappush_heap:
  assumes "heap_from 0 h" and "comparable (add_mset x (mset h))"
  shows "\<exists>h'. heappush h x = Inr h' \<and> heap_from 0 h' \<and> mset h' = add_mset x (mset h)"
proof -
  let ?h = "h @ [x]"
  have "ordered_edge ?h i" if "edge 0 ?h i" "i \<noteq> length h" for i
  proof -
    have i: "0 < i" "i < length h" "parent i < length h" using that parent_le [of i] by (auto simp: edge_def)
    then have "ordered_edge h i" using assms(1) by (simp add: heap_from_def edge_def)
    then show ?thesis using i by (simp add: ordered_edge_def nth_append)
  qed
  moreover have "parent c \<noteq> length h" if "edge 0 ?h c" for c
    using that parent_less [of c] by (auto simp: edge_def)
  ultimately have "up_inv 0 (length h) ?h" by (auto simp: up_inv_def below_zero)
  moreover have "comparable (mset ?h)" using assms(2) by simp
  ultimately show ?thesis using siftdown_heap [of ?h 0 "length h"] by (simp add: heappush_def)
qed

lemma heap_head_least: "heap_from 0 h \<Longrightarrow> y \<in># mset h \<Longrightarrow> entry_key (h ! 0) \<le> entry_key y"
  using heap_least [of h] by (auto simp: in_multiset_in_set in_set_conv_nth)

lemma heappop_heap:
  assumes "heap_from 0 h" and "comparable (mset h)" and "h \<noteq> []"
  shows "\<exists>h'. heappop h = Inr (h ! 0, h') \<and> heap_from 0 h' \<and> mset h = add_mset (h ! 0) (mset h')"
proof (cases "length h = 1")
  case True
  then obtain x where "h = [x]" by (auto simp: length_Suc_conv)
  then show ?thesis by (simp add: heappop_def heap_from_def edge_def)
next
  case False
  obtain x ys where h: "h = x # ys" "ys \<noteq> []" using assms(3) False by (cases h) auto
  define g where "g = (butlast h)[0 := last h]"
  have g: "g = last ys # butlast ys" using h by (simp add: g_def)
  have m: "mset h = add_mset x (mset g)" using h append_butlast_last_id [OF h(2)] unfolding g
    by (metis add_mset_commute mset.simps(2) mset_append mset_single_iff union_mset_add_mset_right union_commute add.right_neutral mset_zero_iff_right)
  have "heap_from (Suc 0) g"
    unfolding heap_from_def
  proof (intro allI impI)
    fix i assume "edge (Suc 0) g i"
    then have i: "0 < parent i" "i < length ys" "0 < i" by (auto simp: edge_def g)
    then have "parent i < i" using parent_less by simp
    then have n: "g ! i = h ! i" "g ! parent i = h ! parent i"
      using i by (simp_all add: g h nth_Cons' nth_butlast)
    have "edge 0 h i" using i by (simp add: edge_def h)
    then show "ordered_edge g i" using assms(1) n by (simp add: heap_from_def ordered_edge_def)
  qed
  moreover have c: "comparable (mset g)" using comparable_mono [OF assms(2)] m by simp
  ultimately obtain h' where "siftup 0 g = Inr h'" "heap_from 0 h'" "mset h' = mset g"
    using siftup_heap [of g 0] g by auto
  then show ?thesis using h m by (simp add: heappop_def g_def)
qed

lemma heapify_heap:
  assumes "comparable (mset h)"
  shows "\<exists>h'. heapify h = Inr h' \<and> heap_from 0 h' \<and> mset h' = mset h"
proof -
  have loop: "heap_from k g \<Longrightarrow> comparable (mset g) \<Longrightarrow> k \<le> length g \<Longrightarrow>
      \<exists>h'. foldE siftup (rev [0..<k]) g = Inr h' \<and> heap_from 0 h' \<and> mset h' = mset g" for k g
  proof (induction k arbitrary: g)
    case (Suc k)
    obtain g' where g': "siftup k g = Inr g'" "heap_from k g'" "mset g' = mset g"
      using siftup_heap [of g k] Suc.prems by auto
    then show ?case using Suc.IH [of g'] Suc.prems mset_eq_length [OF g'(3)] by auto
  qed simp
  have "heap_from (length h div 2) h"
    unfolding heap_from_def
  proof (intro allI impI)
    fix i assume "edge (length h div 2) h i"
    then have "0 < i" "i < length h" "length h div 2 \<le> parent i" by (auto simp: edge_def)
    then show "ordered_edge h i" using parent_child [of i "parent i"] by auto
  qed
  from loop [OF this assms] show ?thesis by (simp add: heapify_def)
qed

lemma iter_sorted:
  assumes "heap_from 0 h" and "comparable (mset h)"
  shows "\<exists>es. prio_iter_loop (length h) h = Inr (map (snd \<circ> snd) es) \<and> sorted (map entry_key es) \<and> mset es = mset h"
  using assms
proof (induction "length h" arbitrary: h)
  case 0
  then show ?case by simp
next
  case (Suc n)
  then have ne: "h \<noteq> []" by auto
  obtain h' where h': "heappop h = Inr (h ! 0, h')" "heap_from 0 h'" "mset h = add_mset (h ! 0) (mset h')"
    using heappop_heap [OF Suc.prems ne] by blast
  have n: "n = length h'" using Suc.hyps(2) arg_cong [OF h'(3), of size] by simp
  have "comparable (mset h')" using comparable_mono [OF Suc.prems(2)] h'(3) by simp
  then obtain es where es: "prio_iter_loop (length h') h' = Inr (map (snd \<circ> snd) es)" "sorted (map entry_key es)" "mset es = mset h'"
    using Suc.hyps(1) [OF n h'(2)] by blast
  have "\<forall>e \<in> set es. entry_key (h ! 0) \<le> entry_key e"
    using heap_head_least [OF Suc.prems(1)] h'(3) es(3) by (metis insert_noteq_member set_mset_mset union_iff add_mset_add_single)
  moreover have "prio_iter_loop (length h) h = Inr (map (snd \<circ> snd) (h ! 0 # es))"
    using Suc.hyps(2) [symmetric] es(1) h'(1) n by (cases "h ! 0") simp
  ultimately show ?case using es(2,3) h'(3) by (intro exI [of _ "h ! 0 # es"]) simp
qed

section \<open>The interface of the queues\<close>

text \<open>What the scheduler relies on, for the requests that a queue holds: \<open>good\<close> are the collections of
  requests that a queue can order.\<close>

locale request_queue =
  fixes elems :: "'q \<Rightarrow> Request multiset" and valid :: "'q \<Rightarrow> bool" and good :: "Request multiset \<Rightarrow> bool"
    and add :: "Request \<Rightarrow> 'q \<Rightarrow> py_exn + 'q" and pop :: "'q \<Rightarrow> py_exn + (Request \<times> 'q)"
    and peek :: "'q \<Rightarrow> py_exn + Request" and remove_all_of :: "Request list \<Rightarrow> 'q \<Rightarrow> py_exn + 'q"
  assumes good_sub: "good M \<Longrightarrow> N \<subseteq># M \<Longrightarrow> good N"
    and add_law: "valid q \<Longrightarrow> good (add_mset r (elems q)) \<Longrightarrow> \<exists>q'. add r q = Inr q' \<and> valid q' \<and> elems q' = add_mset r (elems q)"
    and pop_law: "valid q \<Longrightarrow> good (elems q) \<Longrightarrow> elems q \<noteq> {#} \<Longrightarrow>
      \<exists>r q'. peek q = Inr r \<and> pop q = Inr (r, q') \<and> valid q' \<and> elems q = add_mset r (elems q')"
    and pop_empty: "elems q = {#} \<Longrightarrow> pop q = Inl IndexError \<and> peek q = Inl IndexError"
    and remove_law: "valid q \<Longrightarrow> good (elems q) \<Longrightarrow>
      \<exists>q'. remove_all_of rs q = Inr q' \<and> valid q' \<and> elems q' = filter_mset (\<lambda>r. r \<notin> set rs) (elems q)"
begin

lemma add_many:
  "valid q \<Longrightarrow> good (mset rs + elems q) \<Longrightarrow> \<exists>q'. foldE add rs q = Inr q' \<and> valid q' \<and> elems q' = mset rs + elems q"
proof (induction rs arbitrary: q)
  case (Cons r rs)
  have "good (add_mset r (elems q))" using good_sub [OF Cons.prems(2)] by simp
  then obtain q' where q': "add r q = Inr q'" "valid q'" "elems q' = add_mset r (elems q)"
    using add_law [OF Cons.prems(1)] by blast
  then show ?case using Cons.IH [of q'] Cons.prems(2) by simp
qed simp

text \<open>Nothing is lost: after adding requests and removing some, each other one can still be popped.\<close>

lemma add_then_remove:
  assumes "valid q" and "good (mset rs + elems q)"
  shows "\<exists>q'. bindE (foldE add rs q) (remove_all_of gone) = Inr q' \<and> valid q'
    \<and> elems q' = filter_mset (\<lambda>r. r \<notin> set gone) (mset rs + elems q)"
proof -
  obtain q1 where q1: "foldE add rs q = Inr q1" "valid q1" "elems q1 = mset rs + elems q" using add_many [OF assms] by blast
  then have "good (elems q1)" using assms(2) by simp
  from remove_law [OF q1(2) this] show ?thesis using q1 by auto
qed

end

interpretation fcfs: request_queue mset "\<lambda>_. True" "\<lambda>_. True" "\<lambda>r q. Inr (fcfs_add_request r q)" fcfs_pop_request fcfs_peek_request
  "\<lambda>rs q. Inr (fcfs_remove_requests rs q)"
proof
  fix q :: "Request list"
  assume "mset q \<noteq> {#}"
  then obtain r q' where "q = r # q'" by (cases q) auto
  then show "\<exists>r q'. fcfs_peek_request q = Inr r \<and> fcfs_pop_request q = Inr (r, q') \<and> True \<and> mset q = add_mset r (mset q')" by simp
qed (auto simp: fcfs_add_request_def fcfs_remove_requests_def)

definition request_key :: "Request \<Rightarrow> int \<times> int" where
  "request_key r = (priority r, arrival_time r)"

definition no_ties :: "Request multiset \<Rightarrow> bool" where
  "no_ties M \<longleftrightarrow> inj_on request_key (set_mset M)"

definition prio_ok :: "PriorityRequestQueue \<Rightarrow> bool" where
  "prio_ok q \<longleftrightarrow> heap_from 0 q \<and> (\<forall>e \<in> set q. entry_of (snd (snd e)) = e)"

definition prio_elems :: "PriorityRequestQueue \<Rightarrow> Request multiset" where
  "prio_elems q = image_mset (snd \<circ> snd) (mset q)"

lemma entry_of_simps [simp]: "entry_key (entry_of r) = request_key r" "snd (snd (entry_of r)) = r"
  by (simp_all add: entry_of_def request_key_def)

lemma prio_entries: "prio_ok q \<Longrightarrow> mset q = image_mset entry_of (prio_elems q)"
proof -
  assume "prio_ok q"
  then have "map entry_of (map (snd \<circ> snd) q) = q" by (auto simp: prio_ok_def intro!: map_idI)
  then show ?thesis by (metis mset_map prio_elems_def)
qed

lemma no_ties_comparable: "no_ties M \<longleftrightarrow> comparable (image_mset entry_of M)"
proof -
  have "entry_of a = entry_of b \<longleftrightarrow> a = b" for a b by (metis entry_of_simps(2))
  then show ?thesis by (auto simp: no_ties_def comparable_def inj_on_def)
qed

lemma prio_okI: "heap_from 0 q \<Longrightarrow> mset q = image_mset entry_of M \<Longrightarrow> prio_ok q \<and> prio_elems q = M"
proof -
  assume q: "heap_from 0 q" "mset q = image_mset entry_of M"
  have "set q = entry_of ` set_mset M" using arg_cong [OF q(2), of set_mset] by simp
  moreover have "prio_elems q = M" by (simp add: prio_elems_def q(2) multiset.map_comp comp_def)
  ultimately show ?thesis using q(1) by (auto simp: prio_ok_def)
qed

interpretation prio: request_queue prio_elems prio_ok no_ties prio_add_request prio_pop_request prio_peek_request prio_remove_requests
proof
  fix M N assume "no_ties M" "N \<subseteq># M"
  then show "no_ties N" by (auto simp: no_ties_def intro: inj_on_subset dest: set_mset_mono)
next
  fix q r
  assume q: "prio_ok q" "no_ties (add_mset r (prio_elems q))"
  then have "comparable (add_mset (entry_of r) (mset q))" by (simp add: prio_entries [OF q(1)] no_ties_comparable)
  then obtain h where h: "heappush q (entry_of r) = Inr h" "heap_from 0 h" "mset h = add_mset (entry_of r) (mset q)"
    using heappush_heap [of q "entry_of r"] q(1) unfolding prio_ok_def by blast
  then have "mset h = image_mset entry_of (add_mset r (prio_elems q))" by (simp add: prio_entries [OF q(1)])
  from prio_okI [OF h(2) this] h(1)
  show "\<exists>q'. prio_add_request r q = Inr q' \<and> prio_ok q' \<and> prio_elems q' = add_mset r (prio_elems q)"
    by (simp add: prio_add_request_def)
next
  fix q
  assume q: "prio_ok q" "no_ties (prio_elems q)" "prio_elems q \<noteq> {#}"
  then have ne: "q \<noteq> []" by (auto simp: prio_elems_def)
  have c: "comparable (mset q)" using q(2) by (simp add: prio_entries [OF q(1)] no_ties_comparable)
  obtain q' where q': "heappop q = Inr (q ! 0, q')" "heap_from 0 q'" "mset q = add_mset (q ! 0) (mset q')"
    using heappop_heap [OF _ c ne] q(1) by (auto simp: prio_ok_def)
  let ?r = "snd (snd (q ! 0))"
  have r: "entry_of ?r = q ! 0" using q(1) ne by (simp add: prio_ok_def)
  have "prio_ok q'"
    using q(1) q'(2) arg_cong [OF q'(3), of set_mset] by (auto simp: prio_ok_def)
  moreover have "prio_elems q = add_mset ?r (prio_elems q')" by (simp add: prio_elems_def q'(3))
  moreover have "prio_pop_request q = Inr (?r, q')" using q'(1) ne by (cases "q ! 0") (simp add: prio_pop_request_def)
  ultimately show "\<exists>r q'. prio_peek_request q = Inr r \<and> prio_pop_request q = Inr (r, q') \<and> prio_ok q'
      \<and> prio_elems q = add_mset r (prio_elems q')"
    using ne by (simp add: prio_peek_request_def)
next
  fix q assume "prio_elems q = {#}"
  then show "prio_pop_request q = Inl IndexError \<and> prio_peek_request q = Inl IndexError"
    by (simp add: prio_elems_def prio_pop_request_def prio_peek_request_def)
next
  fix q rs
  assume q: "prio_ok q" "no_ties (prio_elems q)"
  let ?M = "filter_mset (\<lambda>r. r \<notin> set rs) (prio_elems q)" and ?f = "filter (\<lambda>(_, _, r). r \<notin> set rs) q"
  have f: "mset ?f = image_mset entry_of ?M"
    by (simp add: prio_entries [OF q(1)] filter_mset_image_mset entry_of_def comp_def)
  have "no_ties ?M" using q(2) by (auto simp: no_ties_def intro: inj_on_subset)
  then have "comparable (mset ?f)" unfolding f no_ties_comparable .
  from heapify_heap [OF this] obtain h where "heapify ?f = Inr h" "heap_from 0 h" "mset h = mset ?f" by blast
  then show "\<exists>q'. prio_remove_requests rs q = Inr q' \<and> prio_ok q' \<and> prio_elems q' = ?M"
    using prio_okI [of h ?M] f by (simp add: prio_remove_requests_def)
qed

lemma prio_iter_order:
  assumes "prio_ok q" and "no_ties (prio_elems q)" and "prio_elems q = mset rs"
  shows "prio_iter q = Inr (sort_key request_key rs)"
proof -
  have c: "comparable (mset q)" using assms(2) by (simp add: prio_entries [OF assms(1)] no_ties_comparable)
  obtain es where es: "prio_iter_loop (length q) q = Inr (map (snd \<circ> snd) es)" "sorted (map entry_key es)" "mset es = mset q"
    using iter_sorted [OF _ c] assms(1) by (auto simp: prio_ok_def)
  let ?ys = "map (snd \<circ> snd) es"
  have "\<forall>e \<in> set es. entry_of (snd (snd e)) = e" using assms(1) mset_eq_setD [OF es(3)] by (simp add: prio_ok_def)
  then have "request_key (snd (snd e)) = entry_key e" if "e \<in> set es" for e using that entry_of_simps(1) [of "snd (snd e)"] by simp
  then have k: "map request_key ?ys = map entry_key es" by simp
  have "mset rs = mset ?ys" using assms(3) es(3) by (simp add: prio_elems_def)
  moreover have "inj_on request_key (set rs)" using assms(2,3) by (simp add: no_ties_def)
  moreover have "sorted (map request_key ?ys)" unfolding k by (rule es(2))
  ultimately have "sort_key request_key rs = ?ys" by (rule sort_key_inj_key_eq)
  then show ?thesis using es(1) by (simp add: prio_iter_def)
qed

text \<open>C34.  The priority queue serves in order: for requests no two of which agree in priority and arrival
  time, added one after the other and some removed again, iterating over the queue gives the remaining
  ones sorted by priority and arrival time, and the first of them is what \<open>peek\<close> and \<open>pop\<close> return.\<close>

theorem priority_queue_order:
  assumes "inj_on request_key (set rs)"
  shows "\<exists>q. bindE (prio_prepend_requests rs []) (prio_remove_requests gone) = Inr q
    \<and> prio_iter q = Inr (sort_key request_key (filter (\<lambda>r. r \<notin> set gone) rs))
    \<and> (case sort_key request_key (filter (\<lambda>r. r \<notin> set gone) rs) of
         [] \<Rightarrow> prio_pop_request q = Inl IndexError
       | r # rest \<Rightarrow> prio_peek_request q = Inr r \<and> (\<exists>q'. prio_pop_request q = Inr (r, q') \<and> prio_iter q' = Inr rest))"
proof -
  let ?rs = "filter (\<lambda>r. r \<notin> set gone) rs"
  have empty: "prio_ok []" "prio_elems [] = {#}" by (simp_all add: prio_ok_def prio_elems_def heap_from_def edge_def)
  have "no_ties (mset rs + prio_elems [])" using assms by (simp add: empty no_ties_def)
  from prio.add_then_remove [OF empty(1) this, of gone]
  obtain q where q: "bindE (prio_prepend_requests rs []) (prio_remove_requests gone) = Inr q" "prio_ok q" "prio_elems q = mset ?rs"
    by (auto simp: empty prio_prepend_requests_def)
  have nt: "no_ties (prio_elems q)" using assms by (auto simp: no_ties_def q(3) intro: inj_on_subset)
  have it: "prio_iter q = Inr (sort_key request_key ?rs)" by (rule prio_iter_order [OF q(2) nt q(3)])
  show ?thesis
  proof (cases "sort_key request_key ?rs")
    case Nil
    then have "prio_elems q = {#}" using q(3) by (metis mset_sort mset.simps(1))
    then show ?thesis using q(1) it Nil prio.pop_empty [of q] by (intro exI [of _ q]) simp
  next
    case (Cons r rest)
    then have m: "prio_elems q = add_mset r (mset rest)" using q(3) by (metis mset_sort mset.simps(2))
    then obtain r' q' where p: "prio_peek_request q = Inr r'" "prio_pop_request q = Inr (r', q')" "prio_ok q'"
      "prio_elems q = add_mset r' (prio_elems q')"
      using prio.pop_law [OF q(2) nt] by auto
    have ne: "q \<noteq> []" using m by (auto simp: prio_elems_def)
    have "bindE (prio_iter q') (\<lambda>rs. Inr (r' # rs)) = prio_iter q"
    proof -
      obtain e where e: "heappop q = Inr (e, q')" "snd (snd e) = r'" using p(2) ne by (auto simp: prio_pop_request_def)
      have "length q = Suc (length q')" using arg_cong [OF p(4), of size] by (simp add: prio_elems_def)
      then show ?thesis using e by (cases e) (simp add: prio_iter_def)
    qed
    then have "prio_iter q' = Inr rest \<and> r = r'" using it Cons by auto
    then show ?thesis using q(1) it Cons p by (intro exI [of _ q]) auto
  qed
qed


definition request_at :: "string \<Rightarrow> int \<Rightarrow> int \<Rightarrow> Request" where
  "request_at i p t = (sample_request [5] [])\<lparr> request_id := i, priority := p, arrival_time := t \<rparr>"

theorem priority_queue_order_witness:
  "\<exists>q. bindE (prio_prepend_requests [request_at ''a'' 1 0, request_at ''b'' 0 7, request_at ''c'' 0 3] [])
        (prio_remove_requests [request_at ''a'' 1 0]) = Inr q
     \<and> prio_iter q = Inr [request_at ''c'' 0 3, request_at ''b'' 0 7] \<and> prio_peek_request q = Inr (request_at ''c'' 0 3)"
proof -
  let ?rs = "[request_at ''a'' 1 0, request_at ''b'' 0 7, request_at ''c'' 0 3]"
  have k: "request_key (request_at i p t) = (p, t)" for i p t by (simp add: request_key_def request_at_def)
  have ne: "request_at ''b'' 0 7 \<noteq> request_at ''a'' 1 0" "request_at ''c'' 0 3 \<noteq> request_at ''a'' 1 0"
    using k [of "''a''" 1 0] k [of "''b''" 0 7] k [of "''c''" 0 3] by auto
  have inj: "inj_on request_key (set ?rs)" by (auto simp: inj_on_def k)
  have "sort_key request_key (filter (\<lambda>r. r \<notin> set [request_at ''a'' 1 0]) ?rs) = [request_at ''c'' 0 3, request_at ''b'' 0 7]"
    using ne by (simp add: k less_eq_prod_simp)
  then show ?thesis using priority_queue_order [OF inj, of "[request_at ''a'' 1 0]"] by auto
qed


end
