(* ===== verification/Spec2Isabelle.thy ===== *)
theory Spec2Isabelle
  imports Xmix_Footprints Xmix_Compiler KV_Hits Request_Queue
begin

text \<open>
  \<^bold>\<open>xMIx\<close> is a fork of the vLLM inference engine with a small language for reading and steering
  activations.  The development covers two parts of it.

  \<^bold>\<open>The xmix tool chain\<close> (\<open>vllm/activations_extractor/xmix/\<close>).  A program of \<open>m.write(...)\<close> and
  \<open>m.read(...)\<close> statements is parsed and validated against a registry (\<open>parser.py\<close>, \<open>spec.py\<close>), lowered to
  Python text with tags that say which file and anchor every block is for (\<open>codegen.py\<close>, \<open>compile.py\<close>), and
  spliced into the sources of the engine between sentinel comments, from which it can be removed
  again (\<open>apply.py\<close>).

  \<^item> \<open>Prelude\<close>: results of fallible code, the exceptions of Python, the string functions that the sources
    call, the locale \<open>invariant_system\<close> for reachable states.
  \<^item> \<open>Xmix_IR\<close>, \<open>Xmix_Spec\<close>, \<open>Xmix_AST\<close>: the dataclasses of \<open>ir.py\<close> as records, the registry \<open>SPEC\<close> entry by
    entry, the node classes of \<open>ast\<close>.  \<open>ast.parse\<close> is the parameter \<open>ast_parse\<close>: it gives a tree or a
    syntax error, and nothing else is assumed of it.
  \<^item> \<open>Xmix_Parser\<close>, \<open>Xmix_Codegen\<close>: one definition per function of \<open>parser.py\<close> and \<open>codegen.py\<close>, and \<open>compile_main\<close>
    for \<open>main\<close> of \<open>compile.py\<close>.  A source file is readable text, undecodable, or absent; whether a write
    succeeds, is refused or stops half way is decided by the parameter \<open>disk\<close>.
  \<^item> \<open>Xmix_Compiler\<close>: what the parser accepts is well formed; the generator then fails only with its
    ordering error, and exactly when that applies; how the command can end; which layer ranges and
    init blocks are accepted, and what they denote.
  \<^item> \<open>Xmix_Apply\<close>: \<open>cmd_apply\<close>, \<open>cmd_revert\<close>, \<open>cmd_status\<close> and \<open>main\<close> of \<open>apply.py\<close> on a map from paths to texts.
    A command returns its outcome and the files it leaves, after an exception too.
  \<^item> \<open>Xmix_Overlay\<close>: stripping undoes inserting (the relation \<open>overlay\<close>), hence the round trip of apply and
    revert, and what a failing run leaves.
  \<^item> \<open>Xmix_Footprints\<close>: the tags of the generator are read back by the overlay tool; the conflict check
    accepts a batch exactly when every hook slot has one claimant; applying twice is applying once.

  \<^bold>\<open>The KV-cache core of the scheduler\<close> (\<open>vllm/v1/core/\<close>).  Requests wait in a queue; the scheduler asks the KV
  cache manager for cached blocks of a prompt and for new blocks.  The manager drives one coordinator,
  the coordinator one manager per group of layers of the same attention type, and these share a pool
  of blocks with a free list, reference counts and an index of cached blocks by hash.

  \<^item> \<open>KV_Block\<close>, \<open>Free_Block_Queue\<close> (\<open>kv_cache_utils.py\<close>): hash keys over bytes; the doubly linked free list
    with every pointer write, on a store from references to blocks.  The list implements a
    sequence (locale \<open>free_list\<close> and its interpretation), and its walk ends.
  \<^item> \<open>Math_Utils\<close>, \<open>Request\<close>: rounding helpers; the request, its status, the stop check and \<open>remove_all\<close>.
  \<^item> \<open>Request_Queue\<close> (\<open>sched/request_queue.py\<close>): both queues behind one interface; the priority queue with the
    comparisons of \<open>heapq\<close>, which raise when two requests tie.
  \<^item> \<open>Block_Hash\<close>: extra keys and the incremental hasher.  The hash function is a parameter; that it has no
    collisions (\<open>collision_free\<close>) is a hypothesis where it is needed, and \<open>unary_hash\<close> satisfies it.
  \<^item> \<open>Block_Map\<close>, \<open>Block_Pool\<close>, \<open>Block_Pool_Inv\<close> (\<open>block_pool.py\<close>): the index of cached blocks implements a set of
    pairs; the pool keeps the invariant \<open>pool_inv\<close> in every reachable state; the effect of every operation.
  \<^item> \<open>KV_Spec\<close>, \<open>Single_Type_Manager\<close>, \<open>KV_Coordinator\<close>, \<open>KV_Manager\<close>: the specs of \<open>kv_cache_interface.py\<close>, all manager
    classes (a method branches on the spec where a subclass overrides it), the three coordinators, and
    every method of \<open>KVCacheManager\<close>.
  \<^item> \<open>KV_Holdings\<close>, \<open>KV_Ownership\<close>: the manager as a transition system \<open>kv_step\<close>.  In every reachable state the
    reference count of a block is the number of its holders, and a block that is still written has
    one.  The contract of an operation run on all managers is the locale \<open>manager_op\<close>, and \<open>manager_call\<close>
    where the operation has to return; both are interpreted for every operation.
  \<^item> \<open>KV_Progress\<close>: freeing always returns; an allocation finds the blocks it counted.
  \<^item> \<open>KV_Hits\<close>: what the four searches of the prefix cache return (locale \<open>hit_search\<close>), that full attention
    finds the longest cached prefix, that requests share a block only where their prompts agree,
    and that the result meets the contract of \<open>allocate_slots\<close>.

  \<^bold>\<open>Conventions.\<close>  Code that may raise returns \<open>'e + 'a\<close>; every \<open>raise\<close>, \<open>assert\<close> and failing lookup is a branch.
  Python integers are \<open>int\<close>, lengths \<open>nat\<close>, bytes lists of 8-bit words.  Objects with identity (blocks)
  live in a store; other objects are values that an operation returns updated.  A \<open>defaultdict\<close> keeps the
  entry that a read creates.  Time stamps are integers, as they are only compared; the usage of the
  pool is a rational number where the source has a float.

  \<^bold>\<open>Loops.\<close>  Loops over lists are structural recursion; the others are functions with a termination
  proof.  The two that end only under a condition, the walk over the free list and the loop of the
  hasher, are \<open>partial_function (option)\<close>, and that they return is proved (for a well-formed list, and for a
  positive block size).  \<open>prio_iter_loop\<close> counts down the length of the heap, which is exactly the number
  of its iterations.

  \<^bold>\<open>Not modelled.\<close>  The scheduling loop itself with its engine configuration and connectors: the
  properties of the manager hold for any sequence of its calls that meet the stated conditions.  The
  planning of KV-cache groups from memory profiles, the encoder cache and the offloading of blocks.  Kernels, models,
  workers, engine and servers: tensor code, GPU and process management, I/O.  Log messages and stderr.
\<close>

end
